(* ===== verification/Rust_Prelude.thy ===== *)
theory Rust_Prelude
  imports
    Main
    "HOL-Library.AList"
    "HOL-Library.Char_ord"
    "HOL-Library.List_Lexorder"
    "HOL-Library.Multiset"
begin

text \<open>
  Shared vocabulary of the development: the machine integers of the source (kept as \<open>nat\<close> with
  the width written out in every operation that can leave it), the \<open>Result\<close> type and the error
  enumeration of \<open>sentrix-primitives/src/error.rs\<close>, decimal formatting as \<open>format!\<close> does it, bytes,
  hash maps as association lists, stable sorting with a comparator, finite sums over maps, and
  the two interfaces that several components share: a transition system with an invariant and a
  ledger whose total is the sum of its entries.
\<close>

named_theorems rust_arith \<open>definitions of the machine-integer operations\<close>
declare Let_def [simp]

named_theorems inv_defs \<open>definitions of the component invariants\<close>

section \<open>Machine integers\<close>

text \<open>
  A \<open>u64\<close> is a \<open>nat\<close>; the constant below is its largest value. Rust's \<open>checked_*\<close>, \<open>saturating_*\<close>
  and \<open>wrapping_*\<close> operations and the \<open>as\<close> casts are written out; a plain \<open>+\<close> of the source on a
  \<open>u64\<close> is \<open>wrapping_add_u64\<close>, which is what the release profile of the workspace compiles it to.
\<close>

type_synonym u8 = nat
type_synonym u16 = nat
type_synonym u32 = nat
type_synonym u64 = nat
type_synonym u128 = nat
type_synonym usize = nat

definition U16_MAX :: u16 where [rust_arith]: "U16_MAX = 65535"

definition U32_MAX :: u32 where [rust_arith]: "U32_MAX = 4294967295"

definition U64_MAX :: u64 where [rust_arith]: "U64_MAX = 18446744073709551615"

definition U128_MAX :: u128 where
  [rust_arith]: "U128_MAX = 340282366920938463463374607431768211455"

definition checked_add_u64 :: "u64 \<Rightarrow> u64 \<Rightarrow> u64 option" where
  "checked_add_u64 a b = (if a + b \<le> U64_MAX then Some (a + b) else None)"

definition checked_sub :: "nat \<Rightarrow> nat \<Rightarrow> nat option" where
  "checked_sub a b = (if b \<le> a then Some (a - b) else None)"

definition saturating_add_u64 :: "u64 \<Rightarrow> u64 \<Rightarrow> u64" where
  "saturating_add_u64 a b = min (a + b) U64_MAX"

definition saturating_add_u32 :: "u32 \<Rightarrow> u32 \<Rightarrow> u32" where
  "saturating_add_u32 a b = min (a + b) U32_MAX"

definition saturating_add_u16 :: "u16 \<Rightarrow> u16 \<Rightarrow> u16" where
  "saturating_add_u16 a b = min (a + b) U16_MAX"

definition saturating_add_u128 :: "u128 \<Rightarrow> u128 \<Rightarrow> u128" where
  "saturating_add_u128 a b = min (a + b) U128_MAX"

definition saturating_mul_u64 :: "u64 \<Rightarrow> u64 \<Rightarrow> u64" where
  "saturating_mul_u64 a b = min (a * b) U64_MAX"

definition saturating_mul_u128 :: "u128 \<Rightarrow> u128 \<Rightarrow> u128" where
  "saturating_mul_u128 a b = min (a * b) U128_MAX"

definition checked_mul_u128 :: "u128 \<Rightarrow> u128 \<Rightarrow> u128 option" where
  "checked_mul_u128 a b = (if a * b \<le> U128_MAX then Some (a * b) else None)"

text \<open>Subtraction on \<open>nat\<close> stops at 0, which is what \<open>saturating_sub\<close> does at every width.\<close>

definition saturating_sub :: "nat \<Rightarrow> nat \<Rightarrow> nat" where
  [simp]: "saturating_sub a b = a - b"

definition wrapping_add_u64 :: "u64 \<Rightarrow> u64 \<Rightarrow> u64" where
  "wrapping_add_u64 a b = (a + b) mod 18446744073709551616"

definition wrapping_mul_u64 :: "u64 \<Rightarrow> u64 \<Rightarrow> u64" where
  "wrapping_mul_u64 a b = (a * b) mod 18446744073709551616"

definition wrapping_sub_u64 :: "u64 \<Rightarrow> u64 \<Rightarrow> u64" where
  "wrapping_sub_u64 a b = (a + (18446744073709551616 - b)) mod 18446744073709551616"

definition wrapping_add_u32 :: "u32 \<Rightarrow> u32 \<Rightarrow> u32" where
  "wrapping_add_u32 a b = (a + b) mod 4294967296"

definition as_u64 :: "u128 \<Rightarrow> u64" where
  "as_u64 n = n mod 18446744073709551616"

text \<open>\<open>iter().sum()\<close> over \<open>u64\<close> values: the wrapped sum.\<close>

definition sum_u64 :: "u64 list \<Rightarrow> u64" where
  "sum_u64 xs = sum_list xs mod 18446744073709551616"

text \<open>\<open>uN::div_ceil\<close>, for a nonzero divisor.\<close>

definition div_ceil :: "nat \<Rightarrow> nat \<Rightarrow> nat" where
  "div_ceil a b = a div b + (if 0 < a mod b then 1 else 0)"

definition is_multiple_of :: "nat \<Rightarrow> nat \<Rightarrow> bool" where
  "is_multiple_of a b = (if b = 0 then a = 0 else a mod b = 0)"

lemma checked_add_u64_Some [simp]:
  "checked_add_u64 a b = Some c \<longleftrightarrow> c = a + b \<and> a + b \<le> U64_MAX"
  by (auto simp: checked_add_u64_def)

lemma checked_add_u64_None [simp]: "checked_add_u64 a b = None \<longleftrightarrow> U64_MAX < a + b"
  by (auto simp: checked_add_u64_def)

lemma checked_sub_Some [simp]: "checked_sub a b = Some c \<longleftrightarrow> b \<le> a \<and> c = a - b"
  by (auto simp: checked_sub_def)

lemma checked_sub_None [simp]: "checked_sub a b = None \<longleftrightarrow> a < b"
  by (auto simp: checked_sub_def)

lemma checked_mul_u128_Some [simp]:
  "checked_mul_u128 a b = Some c \<longleftrightarrow> c = a * b \<and> a * b \<le> U128_MAX"
  by (auto simp: checked_mul_u128_def)

lemma checked_mul_u128_None [simp]: "checked_mul_u128 a b = None \<longleftrightarrow> U128_MAX < a * b"
  by (auto simp: checked_mul_u128_def)

lemma as_u64_id [simp]: "n \<le> U64_MAX \<Longrightarrow> as_u64 n = n"
  by (simp add: as_u64_def U64_MAX_def)

lemma as_u64_le [simp]: "as_u64 n \<le> U64_MAX"
  by (simp add: as_u64_def U64_MAX_def less_Suc_eq_le [symmetric])

lemma sum_u64_id: "sum_list xs \<le> U64_MAX \<Longrightarrow> sum_u64 xs = sum_list xs"
  by (simp add: sum_u64_def U64_MAX_def)

lemma wrapping_add_u64_id: "a + b \<le> U64_MAX \<Longrightarrow> wrapping_add_u64 a b = a + b"
  by (simp add: wrapping_add_u64_def U64_MAX_def)

lemma wrapping_mul_u64_id: "a * b \<le> U64_MAX \<Longrightarrow> wrapping_mul_u64 a b = a * b"
  by (simp add: wrapping_mul_u64_def U64_MAX_def)

lemma wrapping_sub_u64_id:
  assumes "b \<le> a" and "a \<le> U64_MAX"
  shows "wrapping_sub_u64 a b = a - b"
proof -
  have "a + (18446744073709551616 - b) = (a - b) + 18446744073709551616"
    using assms by (simp add: U64_MAX_def)
  then have "wrapping_sub_u64 a b = (a - b) mod 18446744073709551616"
    unfolding wrapping_sub_u64_def by (metis mod_add_self2)
  then show ?thesis
    using assms by (simp add: U64_MAX_def)
qed

lemma saturating_add_u64_le [simp]: "saturating_add_u64 a b \<le> U64_MAX"
  by (simp add: saturating_add_u64_def)

lemma saturating_add_u64_id: "a + b \<le> U64_MAX \<Longrightarrow> saturating_add_u64 a b = a + b"
  by (simp add: saturating_add_u64_def)

text \<open>A product of two \<open>u64\<close> values fits a \<open>u128\<close>: the casts before multiplications never saturate.\<close>

lemma u64_mult_le_u128:
  assumes "a \<le> U64_MAX" and "b \<le> U64_MAX"
  shows "a * b \<le> U128_MAX"
proof -
  have "a * b \<le> U64_MAX * U64_MAX"
    using assms by (rule mult_le_mono)
  also have "\<dots> \<le> U128_MAX"
    by (simp add: U64_MAX_def U128_MAX_def)
  finally show ?thesis .
qed

lemma saturating_mul_u128_id:
  "a \<le> U64_MAX \<Longrightarrow> b \<le> U64_MAX \<Longrightarrow> saturating_mul_u128 a b = a * b"
  using u64_mult_le_u128 [of a b] by (simp add: saturating_mul_u128_def)

lemma div_ceil_bounds:
  assumes "0 < b"
  shows "a \<le> div_ceil a b * b" and "div_ceil a b * b < a + b"
proof -
  have eq: "a = a div b * b + a mod b" by simp
  have lt: "a mod b < b" using assms by simp
  have "a \<le> div_ceil a b * b \<and> div_ceil a b * b < a + b"
  proof (cases "a mod b = 0")
    case True
    with eq assms show ?thesis by (simp add: div_ceil_def)
  next
    case False
    then have "div_ceil a b * b = a div b * b + b"
      by (simp add: div_ceil_def add_mult_distrib)
    with eq lt False show ?thesis by linarith
  qed
  then show "a \<le> div_ceil a b * b" and "div_ceil a b * b < a + b" by auto
qed

lemma div_ceil_le:
  assumes "0 < b" and "a \<le> c * b"
  shows "div_ceil a b \<le> c"
proof (rule ccontr)
  assume "\<not> div_ceil a b \<le> c"
  then have "c + 1 \<le> div_ceil a b" by simp
  then have "(c + 1) * b \<le> div_ceil a b * b" by (rule mult_le_mono1)
  with div_ceil_bounds(2) [OF assms(1), of a] assms(2) show False
    by (simp add: add_mult_distrib)
qed

lemma div_ceil_2: "div_ceil a 2 + a div 2 = a"
  by (simp add: div_ceil_def) presburger

section \<open>Results and errors\<close>

text \<open>
  \<open>SentrixError\<close> of \<open>error.rs\<close>, constructor for constructor, and \<open>SentrixResult\<close>. A method that
  takes \<open>&mut self\<close> and returns a result is a function to a pair of the result and the state it
  leaves behind: an early return keeps the mutations made before it.
\<close>

datatype sentrix_error =
    InvalidBlock string
  | InvalidTransaction string
  | InsufficientBalance u64 u64
  | InvalidNonce u64 u64
  | ChainValidationFailed string
  | BlockNotFound string
  | TransactionNotFound string
  | UnauthorizedValidator string
  | NotYourTurn
  | NoActiveValidators
  | InvalidPrivateKey
  | InvalidSignature
  | KeystoreError string
  | WrongPassword
  | StorageError string
  | SerializationError string
  | NetworkError string
  | PeerNotFound string
  | NotFound string
  | Internal string

datatype 'a result = Ok (ok_value: 'a) | Err (err_value: sentrix_error)

definition is_ok :: "'a result \<Rightarrow> bool" where
  "is_ok r = (case r of Ok _ \<Rightarrow> True | Err _ \<Rightarrow> False)"

lemma is_ok_simps [simp]: "is_ok (Ok x)" "\<not> is_ok (Err e)"
  by (simp_all add: is_ok_def)

lemma is_okE [elim]: "is_ok r \<Longrightarrow> (\<And>x. r = Ok x \<Longrightarrow> P) \<Longrightarrow> P"
  by (cases r) auto

text \<open>\<open>Option::ok_or_else(...)?\<close> followed by the rest of the method.\<close>

definition ok_or :: "'a option \<Rightarrow> sentrix_error \<Rightarrow> 's \<Rightarrow> ('a \<Rightarrow> 'b result \<times> 's) \<Rightarrow> 'b result \<times> 's" where
  "ok_or x e s k = (case x of None \<Rightarrow> (Err e, s) | Some v \<Rightarrow> k v)"

lemma ok_or_simps [simp]:
  "ok_or None e s k = (Err e, s)"
  "ok_or (Some v) e s k = k v"
  by (simp_all add: ok_or_def)

lemma ok_or_split:
  "P (ok_or x e s k) \<longleftrightarrow> (x = None \<longrightarrow> P (Err e, s)) \<and> (\<forall>v. x = Some v \<longrightarrow> P (k v))"
  by (cases x) auto

lemma ok_or_split_asm:
  "P (ok_or x e s k) \<longleftrightarrow> \<not> (x = None \<and> \<not> P (Err e, s) \<or> (\<exists>v. x = Some v \<and> \<not> P (k v)))"
  by (cases x) auto

lemmas ok_or_splits = ok_or_split ok_or_split_asm

lemma ok_or_OkD:
  "ok_or x e s k = (Ok y, s') \<Longrightarrow> \<exists>v. x = Some v \<and> k v = (Ok y, s')"
  by (cases x) auto

section \<open>Decimal formatting\<close>

text \<open>What \<open>format!\<close> prints for an unsigned integer.\<close>

fun show_nat :: "nat \<Rightarrow> string" where
  "show_nat n = (if n < 10 then [char_of (48 + n)]
                 else show_nat (n div 10) @ [char_of (48 + n mod 10)])"

declare show_nat.simps [simp del]

lemma digit_char_inj: "m < 10 \<Longrightarrow> n < 10 \<Longrightarrow> (char_of (48 + m) :: char) = char_of (48 + n) \<longleftrightarrow> m = (n :: nat)"
  by (simp add: char_of_eq_iff take_bit_eq_mod)

lemma show_nat_inj: "show_nat m = show_nat n \<longleftrightarrow> m = n"
proof (induction m arbitrary: n rule: less_induct)
  case (less m)
  show ?case
  proof (cases "m < 10 \<or> n < 10")
    case True
    then show ?thesis
      by (subst (1 2) show_nat.simps) (auto simp: digit_char_inj show_nat.simps [of "m div 10"] show_nat.simps [of "n div 10"] split: if_splits)
  next
    case False
    then have "show_nat m = show_nat n \<longleftrightarrow> show_nat (m div 10) = show_nat (n div 10) \<and> m mod 10 = n mod 10"
      by (subst (1 2) show_nat.simps) (simp add: digit_char_inj)
    also have "\<dots> \<longleftrightarrow> m div 10 = n div 10 \<and> m mod 10 = n mod 10"
      using less.IH [of "m div 10" "n div 10"] False by simp
    also have "\<dots> \<longleftrightarrow> m = n"
      by (metis div_mult_mod_eq)
    finally show ?thesis .
  qed
qed

definition em_dash :: string where
  "em_dash = [CHR 0xE2, CHR 0x80, CHR 0x94]"

definition en_dash :: string where
  "en_dash = [CHR 0xE2, CHR 0x80, CHR 0x93]"

section \<open>Bytes\<close>

text \<open>\<open>to_le_bytes\<close>, \<open>to_be_bytes\<close> and \<open>as_bytes\<close>.\<close>

definition le_bytes :: "nat \<Rightarrow> nat \<Rightarrow> u8 list" where
  "le_bytes k n = map (\<lambda>i. n div 256 ^ i mod 256) [0..<k]"

definition be_bytes :: "nat \<Rightarrow> nat \<Rightarrow> u8 list" where
  "be_bytes k n = rev (le_bytes k n)"

definition str_bytes :: "string \<Rightarrow> u8 list" where
  "str_bytes s = map of_char s"

lemma le_bytes_Suc: "le_bytes (Suc k) n = (n mod 256) # le_bytes k (n div 256)"
  by (simp add: le_bytes_def upt_conv_Cons map_Suc_upt [symmetric] div_mult2_eq del: upt_Suc)

lemma le_bytes_0 [simp]: "le_bytes 0 n = []"
  by (simp add: le_bytes_def)

lemma length_le_bytes [simp]: "length (le_bytes k n) = k"
  by (simp add: le_bytes_def)

lemma le_bytes_inj: "m < 256 ^ k \<Longrightarrow> n < 256 ^ k \<Longrightarrow> le_bytes k m = le_bytes k n \<longleftrightarrow> m = n"
proof (induction k arbitrary: m n)
  case (Suc k)
  then have "m div 256 < 256 ^ k" and "n div 256 < 256 ^ k"
    by (simp_all add: less_mult_imp_div_less mult.commute)
  with Suc.IH have "le_bytes k (m div 256) = le_bytes k (n div 256) \<longleftrightarrow> m div 256 = n div 256"
    by blast
  then show ?case
    by (auto simp: le_bytes_Suc) (metis div_mult_mod_eq)
qed simp

lemma le_bytes_u64 [simp]: "m \<le> U64_MAX \<Longrightarrow> n \<le> U64_MAX \<Longrightarrow> le_bytes 8 m = le_bytes 8 n \<longleftrightarrow> m = n"
  by (rule le_bytes_inj) (simp_all add: U64_MAX_def)

lemma le_bytes_u32 [simp]: "m \<le> U32_MAX \<Longrightarrow> n \<le> U32_MAX \<Longrightarrow> le_bytes 4 m = le_bytes 4 n \<longleftrightarrow> m = n"
  by (rule le_bytes_inj) (simp_all add: U32_MAX_def)

lemma str_bytes_inj [simp]: "str_bytes s = str_bytes t \<longleftrightarrow> s = t"
proof -
  have "inj (of_char :: char \<Rightarrow> nat)"
    by (rule injI) simp
  then show ?thesis
    by (simp add: str_bytes_def inj_map_eq_map)
qed

section \<open>Hash maps\<close>

text \<open>
  A \<open>HashMap\<close> or \<open>BTreeMap\<close> is an association list without duplicate keys. The order of the list
  stands for the iteration order of the map, which for a \<open>HashMap\<close> is arbitrary: a definition that
  iterates without sorting reads the list as it stands, and the determinism lemmas compare states
  whose maps have the same lookups in any order (\<open>same_map\<close>).
\<close>

type_synonym ('k, 'v) hmap = "('k \<times> 'v) list"

abbreviation hget :: "('k, 'v) hmap \<Rightarrow> 'k \<Rightarrow> 'v option" where
  "hget m k \<equiv> map_of m k"

abbreviation hput :: "('k, 'v) hmap \<Rightarrow> 'k \<Rightarrow> 'v \<Rightarrow> ('k, 'v) hmap" where
  "hput m k v \<equiv> AList.update k v m"

abbreviation hdel :: "('k, 'v) hmap \<Rightarrow> 'k \<Rightarrow> ('k, 'v) hmap" where
  "hdel m k \<equiv> AList.delete k m"

abbreviation hkeys :: "('k, 'v) hmap \<Rightarrow> 'k list" where
  "hkeys m \<equiv> map fst m"

abbreviation hvalues :: "('k, 'v) hmap \<Rightarrow> 'v list" where
  "hvalues m \<equiv> map snd m"

definition wf_map :: "('k, 'v) hmap \<Rightarrow> bool" where
  "wf_map m = distinct (map fst m)"

definition same_map :: "('k, 'v) hmap \<Rightarrow> ('k, 'v) hmap \<Rightarrow> bool" where
  "same_map m m' \<longleftrightarrow> wf_map m \<and> wf_map m' \<and> map_of m = map_of m'"

lemma hget_hput: "hget (hput m k v) j = (if j = k then Some v else hget m j)"
  by (simp add: update_conv)

lemma hget_hdel: "hget (hdel m k) j = (if j = k then None else hget m j)"
  by (simp add: delete_conv)

lemma wf_map_Nil [simp]: "wf_map []"
  by (simp add: wf_map_def)

lemma wf_map_hput [simp]: "wf_map m \<Longrightarrow> wf_map (hput m k v)"
  by (simp add: wf_map_def distinct_update)

lemma wf_map_hdel [simp]: "wf_map m \<Longrightarrow> wf_map (hdel m k)"
  by (simp add: wf_map_def distinct_delete)

lemma set_hvalues: "wf_map m \<Longrightarrow> v \<in> set (hvalues m) \<longleftrightarrow> (\<exists>k. hget m k = Some v)"
  by (force simp: wf_map_def dest: map_of_SomeD)

lemma set_wf_map: "wf_map m \<Longrightarrow> (k, v) \<in> set m \<longleftrightarrow> hget m k = Some v"
  by (simp add: wf_map_def)

lemma same_map_set: "same_map m m' \<Longrightarrow> set m = set m'"
  by (auto simp: same_map_def set_wf_map)

lemma same_map_mset:
  assumes "same_map m m'"
  shows "mset m = mset m'"
proof -
  have "set m = set m'" "distinct m" "distinct m'"
    using assms same_map_set [OF assms] by (auto simp: same_map_def wf_map_def distinct_map)
  then show ?thesis by (simp add: set_eq_iff_mset_eq_distinct)
qed

lemma same_map_hput: "same_map m m' \<Longrightarrow> same_map (hput m k v) (hput m' k v)"
  by (simp add: same_map_def update_conv')

lemma same_map_refl: "wf_map m \<Longrightarrow> same_map m m"
  by (simp add: same_map_def)

lemma same_map_sort_keys:
  fixes m :: "('k :: linorder, 'v) hmap"
  assumes "same_map m m'"
  shows "sort (hkeys m) = sort (hkeys m')"
  using same_map_mset [OF assms] by (metis mset_map properties_for_sort sorted_sort mset_sort)

section \<open>Sums over maps\<close>

definition map_sum :: "('v \<Rightarrow> nat) \<Rightarrow> ('k, 'v) hmap \<Rightarrow> nat" where
  "map_sum f m = sum_list (map (f \<circ> snd) m)"

definition opt_val :: "('v \<Rightarrow> nat) \<Rightarrow> 'v option \<Rightarrow> nat" where
  "opt_val f x = (case x of None \<Rightarrow> 0 | Some v \<Rightarrow> f v)"

lemma opt_val_simps [simp]: "opt_val f None = 0" "opt_val f (Some v) = f v"
  by (simp_all add: opt_val_def)

lemma map_sum_Nil [simp]: "map_sum f [] = 0"
  by (simp add: map_sum_def)

lemma map_sum_Cons [simp]: "map_sum f ((k, v) # m) = f v + map_sum f m"
  by (simp add: map_sum_def)

lemma map_sum_hput: "map_sum f (hput m k v) + opt_val f (hget m k) = map_sum f m + f v"
  by (induction m) auto

lemma map_sum_hget_le: "opt_val f (hget m k) \<le> map_sum f m"
  by (induction m) auto

lemma map_sum_hput_new: "hget m k = None \<Longrightarrow> map_sum f (hput m k v) = map_sum f m + f v"
  using map_sum_hput [of f k v m] by simp

lemma map_sum_hput_upd:
  "hget m k = Some u \<Longrightarrow> map_sum f (hput m k v) + f u = map_sum f m + f v"
  using map_sum_hput [of f k v m] by simp

lemma map_sum_hdel:
  assumes "wf_map m"
  shows "map_sum f (hdel m k) + opt_val f (hget m k) = map_sum f m"
  using assms
proof (induction m)
  case Nil
  then show ?case by simp
next
  case (Cons p m)
  show ?case
  proof (cases "fst p = k")
    case True
    with Cons.prems have "k \<notin> fst ` set m" by (auto simp: wf_map_def)
    then have "hdel m k = m" "hget m k = None"
      by (simp_all add: delete_idem map_of_eq_None_iff)
    with True show ?thesis by (cases p) simp
  next
    case False
    with Cons show ?thesis by (cases p) (auto simp: wf_map_def)
  qed
qed

lemma map_sum_mset: "mset m = mset m' \<Longrightarrow> map_sum f m = map_sum f m'"
  unfolding map_sum_def by (metis mset_map sum_mset_sum_list)

lemma same_map_sum: "same_map m m' \<Longrightarrow> map_sum f m = map_sum f m'"
  by (rule map_sum_mset) (rule same_map_mset)

section \<open>Sorting with a comparator\<close>

text \<open>
  Rust's \<open>sort_by\<close> is stable. The comparator is given as its "not greater" test.
\<close>

fun insert_by :: "('a \<Rightarrow> 'a \<Rightarrow> bool) \<Rightarrow> 'a \<Rightarrow> 'a list \<Rightarrow> 'a list" where
  "insert_by le x [] = [x]"
| "insert_by le x (y # ys) = (if le x y then x # y # ys else y # insert_by le x ys)"

definition sort_by :: "('a \<Rightarrow> 'a \<Rightarrow> bool) \<Rightarrow> 'a list \<Rightarrow> 'a list" where
  "sort_by le xs = foldr (insert_by le) xs []"

lemma mset_insert_by [simp]: "mset (insert_by le x xs) = add_mset x (mset xs)"
  by (induction xs) auto

lemma mset_sort_by [simp]: "mset (sort_by le xs) = mset xs"
  unfolding sort_by_def by (induction xs) auto

lemma set_sort_by [simp]: "set (sort_by le xs) = set xs"
  using mset_sort_by [of le xs] by (metis set_mset_mset)

lemma length_sort_by [simp]: "length (sort_by le xs) = length xs"
  using mset_sort_by [of le xs] by (metis size_mset)

lemma distinct_sort_by [simp]: "distinct (sort_by le xs) = distinct xs"
  using mset_sort_by [of le xs] by (metis mset_eq_imp_distinct_iff)

lemma set_insert_by [simp]: "set (insert_by le x xs) = insert x (set xs)"
  using mset_insert_by [of le x xs] by (metis set_mset_add_mset_insert set_mset_mset)

lemma sorted_insert_by:
  assumes total: "\<And>a b. le a b \<or> le b a"
    and trans: "\<And>a b c. le a b \<Longrightarrow> le b c \<Longrightarrow> le a c"
    and "sorted_wrt le xs"
  shows "sorted_wrt le (insert_by le x xs)"
  using assms(3)
proof (induction xs)
  case Nil
  then show ?case by simp
next
  case (Cons y ys)
  show ?case
  proof (cases "le x y")
    case True
    with Cons.prems show ?thesis by (auto dest: trans)
  next
    case False
    with total have "le y x" by blast
    with False Cons show ?thesis by auto
  qed
qed

lemma sorted_sort_by:
  assumes "\<And>a b. le a b \<or> le b a" and "\<And>a b c. le a b \<Longrightarrow> le b c \<Longrightarrow> le a c"
  shows "sorted_wrt le (sort_by le xs)"
  unfolding sort_by_def
  by (induction xs) (auto intro: sorted_insert_by [of le, OF assms])

text \<open>A list sorted by an order that is antisymmetric on its elements is determined by its multiset.\<close>

lemma sorted_wrt_unique:
  assumes "sorted_wrt le xs" and "sorted_wrt le ys" and "mset xs = mset ys"
    and antisym: "\<And>a b. a \<in> set xs \<Longrightarrow> b \<in> set xs \<Longrightarrow> le a b \<Longrightarrow> le b a \<Longrightarrow> a = b"
  shows "xs = ys"
  using assms
proof (induction xs arbitrary: ys)
  case Nil
  then show ?case by simp
next
  case (Cons x xs)
  from Cons.prems(3) obtain y ys' where ys: "ys = y # ys'"
    by (cases ys) auto
  have sets: "set ys = set (x # xs)"
    using Cons.prems(3) by (metis set_mset_mset)
  have "x = y"
  proof (rule ccontr)
    assume ne: "x \<noteq> y"
    with sets ys have "x \<in> set ys'" "y \<in> set xs" by auto
    with Cons.prems(1,2) ys have "le x y" "le y x" by auto
    with Cons.prems(4) \<open>y \<in> set xs\<close> ne show False by auto
  qed
  moreover have "xs = ys'"
    using Cons.prems ys \<open>x = y\<close> by (intro Cons.IH) auto
  ultimately show ?case by (simp add: ys)
qed

section \<open>Interfaces\<close>

text \<open>
  A component with state is a transition system: a start predicate and steps labelled by what
  drives them. A provider shows that its invariant holds at the start and is kept by each step;
  a client gets it in every reachable state.
\<close>

locale transition_system =
  fixes init :: "'s \<Rightarrow> bool"
    and step :: "'s \<Rightarrow> 'e \<Rightarrow> 's \<Rightarrow> bool"
    and inv :: "'s \<Rightarrow> bool"
  assumes inv_init: "init s \<Longrightarrow> inv s"
    and inv_step: "inv s \<Longrightarrow> step s e s' \<Longrightarrow> inv s'"
begin

inductive reach :: "'s \<Rightarrow> bool" where
  reach_init: "init s \<Longrightarrow> reach s"
| reach_step: "reach s \<Longrightarrow> step s e s' \<Longrightarrow> reach s'"

inductive steps :: "'s \<Rightarrow> 'e list \<Rightarrow> 's \<Rightarrow> bool" where
  steps_Nil: "steps s [] s"
| steps_Cons: "step s e s' \<Longrightarrow> steps s' es s'' \<Longrightarrow> steps s (e # es) s''"

lemma reach_inv: "reach s \<Longrightarrow> inv s"
  by (induction rule: reach.induct) (auto intro: inv_init inv_step)

lemma steps_inv: "steps s es s' \<Longrightarrow> inv s \<Longrightarrow> inv s'"
  by (induction rule: steps.induct) (auto intro: inv_step)

lemma steps_reach: "steps s es s' \<Longrightarrow> reach s \<Longrightarrow> reach s'"
  by (induction rule: steps.induct) (auto intro: reach_step)

end

text \<open>
  A ledger keeps an amount per holder. Its provider promises what reading an amount and setting
  it do to the total; the client's lemma is that moving an amount between two holders keeps it.
\<close>

locale ledger =
  fixes amount :: "'s \<Rightarrow> 'k \<Rightarrow> nat"
    and set_amount :: "'s \<Rightarrow> 'k \<Rightarrow> nat \<Rightarrow> 's"
    and total :: "'s \<Rightarrow> nat"
  assumes amount_set: "amount (set_amount s k a) j = (if j = k then a else amount s j)"
    and total_set: "total (set_amount s k a) + amount s k = total s + a"
begin

lemma amount_le_total: "amount s k \<le> total s"
  using total_set [of s k 0] by simp

lemma total_debit:
  assumes "a \<le> amount s k"
  shows "total (set_amount s k (amount s k - a)) + a = total s"
  using total_set [of s k "amount s k - a"] assms amount_le_total [of s k] by linarith

lemma total_credit: "total (set_amount s k (amount s k + a)) = total s + a"
  using total_set [of s k "amount s k + a"] by linarith

lemma total_move:
  assumes "a \<le> amount s k" and "s' = set_amount s k (amount s k - a)"
  shows "total (set_amount s' j (amount s' j + a)) = total s"
  using total_debit [OF assms(1)] total_credit [of s' j a] unfolding assms(2) by linarith

lemma two_amounts_le_total:
  assumes "j \<noteq> k"
  shows "amount s j + amount s k \<le> total s"
proof -
  have "amount (set_amount s k 0) j = amount s j"
    using assms by (simp add: amount_set)
  then have "amount s j \<le> total (set_amount s k 0)"
    using amount_le_total [of "set_amount s k 0" j] by simp
  then show ?thesis
    using total_set [of s k 0] by linarith
qed

end

text \<open>
  A simulation: from related states, an operation the specification allows succeeds and leads to
  related states again. The client runs whole sequences.
\<close>

fun run_steps :: "('e \<Rightarrow> 's \<Rightarrow> 's option) \<Rightarrow> 'e list \<Rightarrow> 's \<Rightarrow> 's option" where
  "run_steps step [] s = Some s"
| "run_steps step (e # es) s = (case step e s of None \<Rightarrow> None | Some s' \<Rightarrow> run_steps step es s')"

fun run_spec :: "('e \<Rightarrow> 'a \<Rightarrow> 'a) \<Rightarrow> 'e list \<Rightarrow> 'a \<Rightarrow> 'a" where
  "run_spec spec [] a = a"
| "run_spec spec (e # es) a = run_spec spec es (spec e a)"

fun run_allowed :: "('e \<Rightarrow> 'a \<Rightarrow> bool) \<Rightarrow> ('e \<Rightarrow> 'a \<Rightarrow> 'a) \<Rightarrow> 'e list \<Rightarrow> 'a \<Rightarrow> bool" where
  "run_allowed ok spec [] a \<longleftrightarrow> True"
| "run_allowed ok spec (e # es) a \<longleftrightarrow> ok e a \<and> run_allowed ok spec es (spec e a)"

locale simulation =
  fixes step :: "'e \<Rightarrow> 's \<Rightarrow> 's option"
    and spec :: "'e \<Rightarrow> 'a \<Rightarrow> 'a"
    and allowed :: "'e \<Rightarrow> 'a \<Rightarrow> bool"
    and rel :: "'s \<Rightarrow> 'a \<Rightarrow> bool"
  assumes step_sim: "rel s a \<Longrightarrow> allowed e a \<Longrightarrow> \<exists>s'. step e s = Some s' \<and> rel s' (spec e a)"
begin

lemma run_sim:
  "rel s a \<Longrightarrow> run_allowed allowed spec es a \<Longrightarrow> \<exists>s'. run_steps step es s = Some s' \<and> rel s' (run_spec spec es a)"
proof (induction es arbitrary: s a)
  case (Cons e es)
  from Cons.prems obtain s' where "step e s = Some s'" "rel s' (spec e a)"
    using step_sim [of s a e] by auto
  with Cons.IH [of s' "spec e a"] Cons.prems(2) show ?case by simp
qed simp

end

end
