(* ===== verification/Account.thy ===== *)
theory Account
  imports Rust_Prelude
begin

text \<open>
  The native account ledger, \<open>sentrix-primitives/src/account.rs\<close>: the record of one account, the
  database with its burn counter, contract code and storage, the bounded record of failed EVM
  transactions and the per-block set of touched addresses, and every method of \<open>AccountDB\<close>. The
  lemmas show that a transfer moves exactly what it says, that fees are split without loss, that
  every balance change of a block is in the touched set, and that the failed-transaction record
  stays bounded and consistent.
\<close>

section \<open>Data\<close>

definition MAX_FAILED_EVM_TXS :: usize where "MAX_FAILED_EVM_TXS = 100000"

definition SENTRI_PER_SRX :: u64 where "SENTRI_PER_SRX = 100000000"

definition EMPTY_CODE_HASH :: "u8 list" where
  "EMPTY_CODE_HASH =
    [0xc5, 0xd2, 0x46, 0x01, 0x86, 0xf7, 0x23, 0x3c, 0x92, 0x7e, 0x7d, 0xb2, 0xdc, 0xc7, 0x03, 0xc0,
     0xe5, 0x00, 0xb6, 0x53, 0xca, 0x82, 0x27, 0x3b, 0x7b, 0xfa, 0xd8, 0x04, 0x5d, 0x85, 0xa4, 0x70]"

definition EMPTY_STORAGE_ROOT :: "u8 list" where
  "EMPTY_STORAGE_ROOT = replicate 32 0"

record account =
  acc_address :: string
  acc_balance :: u64
  acc_nonce :: u64
  acc_code_hash :: "u8 list"
  acc_storage_root :: "u8 list"

definition Account_new :: "string \<Rightarrow> account" where
  "Account_new address =
    \<lparr>acc_address = address, acc_balance = 0, acc_nonce = 0,
     acc_code_hash = EMPTY_CODE_HASH, acc_storage_root = EMPTY_STORAGE_ROOT\<rparr>"

definition is_contract :: "account \<Rightarrow> bool" where
  "is_contract a \<longleftrightarrow> acc_code_hash a \<noteq> EMPTY_CODE_HASH"

record account_db =
  accounts :: "(string, account) hmap"
  total_burned :: u64
  contract_code :: "(string, u8 list) hmap"
  contract_storage :: "(string, u8 list) hmap"
  failed_evm_txs :: "string set"
  failed_evm_txs_order :: "string list"
  touched_in_block :: "string set"

definition AccountDB_new :: account_db where
  "AccountDB_new =
    \<lparr>accounts = [], total_burned = 0, contract_code = [], contract_storage = [],
     failed_evm_txs = {}, failed_evm_txs_order = [], touched_in_block = {}\<rparr>"

section \<open>Operations\<close>

text \<open>\<open>get_or_create\<close> hands out a reference: the account and the database that now holds it.\<close>

definition get_or_create :: "account_db \<Rightarrow> string \<Rightarrow> account \<times> account_db" where
  "get_or_create db address =
    (case hget (accounts db) address of
       Some a \<Rightarrow> (a, db)
     | None \<Rightarrow> (Account_new address,
                db\<lparr>accounts := hput (accounts db) address (Account_new address)\<rparr>))"

text \<open>Writing through that reference.\<close>

definition put_account :: "account_db \<Rightarrow> string \<Rightarrow> account \<Rightarrow> account_db" where
  "put_account db address a = db\<lparr>accounts := hput (accounts db) address a\<rparr>"

definition touch :: "account_db \<Rightarrow> string \<Rightarrow> account_db" where
  "touch db address = db\<lparr>touched_in_block := insert address (touched_in_block db)\<rparr>"

definition get_balance :: "account_db \<Rightarrow> string \<Rightarrow> u64" where
  "get_balance db address =
    (case hget (accounts db) address of Some a \<Rightarrow> acc_balance a | None \<Rightarrow> 0)"

definition get_nonce :: "account_db \<Rightarrow> string \<Rightarrow> u64" where
  "get_nonce db address =
    (case hget (accounts db) address of Some a \<Rightarrow> acc_nonce a | None \<Rightarrow> 0)"

definition burn :: "account_db \<Rightarrow> u64 \<Rightarrow> account_db" where
  "burn db amount = db\<lparr>total_burned := saturating_add_u64 (total_burned db) amount\<rparr>"

definition credit :: "account_db \<Rightarrow> string \<Rightarrow> u64 \<Rightarrow> unit result \<times> account_db" where
  "credit db address amount =
    (let db1 = touch db address;
         (a, db2) = get_or_create db1 address
     in ok_or (checked_add_u64 (acc_balance a) amount) (Internal ''balance overflow'') db2
          (\<lambda>b. (Ok (), put_account db2 address (a\<lparr>acc_balance := b\<rparr>))))"

definition charge_fee_only :: "account_db \<Rightarrow> string \<Rightarrow> u64 \<Rightarrow> unit result \<times> account_db" where
  "charge_fee_only db from fee =
    (let from_balance = get_balance db from
     in if from_balance < fee then (Err (InsufficientBalance from_balance fee), db)
        else
          let db1 = touch db from;
              (sender, db2) = get_or_create db1 from
          in ok_or (checked_sub (acc_balance sender) fee) (Internal ''balance underflow'') db2
               (\<lambda>b. let db3 = put_account db2 from (sender\<lparr>acc_balance := b\<rparr>);
                        burn_amount = div_ceil fee 2
                    in (Ok (), db3\<lparr>total_burned := saturating_add_u64 (total_burned db3) burn_amount\<rparr>)))"

definition transfer ::
  "account_db \<Rightarrow> string \<Rightarrow> string \<Rightarrow> u64 \<Rightarrow> u64 \<Rightarrow> unit result \<times> account_db" where
  "transfer db from to amount fee =
    ok_or (checked_add_u64 amount fee) (Internal ''amount + fee overflow'') db (\<lambda>total.
      let from_balance = get_balance db from
      in if from_balance < total then (Err (InsufficientBalance from_balance total), db)
         else
           let db1 = touch (touch db from) to;
               (sender, db2) = get_or_create db1 from
           in ok_or (checked_sub (acc_balance sender) total) (Internal ''balance underflow'') db2 (\<lambda>b.
                let sender1 = sender\<lparr>acc_balance := b\<rparr>;
                    db3 = put_account db2 from sender1
                in ok_or (checked_add_u64 (acc_nonce sender1) 1) (Internal ''nonce overflow'') db3 (\<lambda>n.
                     let db4 = put_account db3 from (sender1\<lparr>acc_nonce := n\<rparr>)
                     in case credit db4 to amount of
                          (Err e, db5) \<Rightarrow> (Err e, db5)
                        | (Ok _, db5) \<Rightarrow>
                            let burn_amount = div_ceil fee 2
                            in (Ok (), db5\<lparr>total_burned :=
                                  saturating_add_u64 (total_burned db5) burn_amount\<rparr>))))"

definition apply_block_reward ::
  "account_db \<Rightarrow> string \<Rightarrow> u64 \<Rightarrow> u64 \<Rightarrow> unit result \<times> account_db" where
  "apply_block_reward db validator reward fee_share =
    ok_or (checked_add_u64 reward fee_share) (Internal ''reward overflow'') db
      (\<lambda>total. credit db validator total)"

definition total_supply :: "account_db \<Rightarrow> u64" where
  "total_supply db = sum_u64 (map acc_balance (hvalues (accounts db)))"

definition store_contract_code :: "account_db \<Rightarrow> string \<Rightarrow> u8 list \<Rightarrow> account_db" where
  "store_contract_code db code_hash_hex bytecode =
    db\<lparr>contract_code := hput (contract_code db) code_hash_hex bytecode\<rparr>"

definition get_contract_code :: "account_db \<Rightarrow> string \<Rightarrow> u8 list option" where
  "get_contract_code db code_hash_hex = hget (contract_code db) code_hash_hex"

definition store_contract_storage ::
  "account_db \<Rightarrow> string \<Rightarrow> string \<Rightarrow> u8 list \<Rightarrow> account_db" where
  "store_contract_storage db address slot_hex val =
    (let db1 = touch db address
     in db1\<lparr>contract_storage := hput (contract_storage db1) (address @ '':'' @ slot_hex) val\<rparr>)"

definition get_contract_storage :: "account_db \<Rightarrow> string \<Rightarrow> string \<Rightarrow> u8 list option" where
  "get_contract_storage db address slot_hex =
    hget (contract_storage db) (address @ '':'' @ slot_hex)"

definition migrate_to_evm :: "account_db \<Rightarrow> usize \<times> account_db" where
  "migrate_to_evm db =
    (length (filter (\<lambda>(_, a). acc_code_hash a = replicate 32 0) (accounts db)),
     db\<lparr>accounts :=
       map (\<lambda>(k, a). (k, if acc_code_hash a = replicate 32 0
                         then a\<lparr>acc_code_hash := EMPTY_CODE_HASH\<rparr> else a)) (accounts db)\<rparr>)"

definition set_contract :: "account_db \<Rightarrow> string \<Rightarrow> u8 list \<Rightarrow> account_db" where
  "set_contract db address code_hash =
    (let (a, db2) = get_or_create (touch db address) address
     in put_account db2 address (a\<lparr>acc_code_hash := code_hash\<rparr>))"

definition set_balance :: "account_db \<Rightarrow> string \<Rightarrow> u64 \<Rightarrow> account_db" where
  "set_balance db address b =
    (let (a, db2) = get_or_create (touch db address) address
     in put_account db2 address (a\<lparr>acc_balance := b\<rparr>))"

definition set_nonce :: "account_db \<Rightarrow> string \<Rightarrow> u64 \<Rightarrow> account_db" where
  "set_nonce db address n =
    (let (a, db2) = get_or_create (touch db address) address
     in put_account db2 address (a\<lparr>acc_nonce := n\<rparr>))"

definition drain_touched_in_block :: "account_db \<Rightarrow> string set \<times> account_db" where
  "drain_touched_in_block db = (touched_in_block db, db\<lparr>touched_in_block := {}\<rparr>)"

definition clear_touched_in_block :: "account_db \<Rightarrow> account_db" where
  "clear_touched_in_block db = db\<lparr>touched_in_block := {}\<rparr>"

definition mark_evm_tx_failed :: "account_db \<Rightarrow> string \<Rightarrow> account_db" where
  "mark_evm_tx_failed db txid =
    (if txid \<in> failed_evm_txs db then db
     else
       let db1 = db\<lparr>failed_evm_txs := insert txid (failed_evm_txs db),
                    failed_evm_txs_order := failed_evm_txs_order db @ [txid]\<rparr>
       in if MAX_FAILED_EVM_TXS < length (failed_evm_txs_order db1)
          then case failed_evm_txs_order db1 of
                 [] \<Rightarrow> db1
               | oldest # rest \<Rightarrow>
                   db1\<lparr>failed_evm_txs_order := rest,
                       failed_evm_txs := failed_evm_txs db1 - {oldest}\<rparr>
          else db1)"

definition is_evm_tx_failed :: "account_db \<Rightarrow> string \<Rightarrow> bool" where
  "is_evm_tx_failed db txid \<longleftrightarrow> txid \<in> failed_evm_txs db"

section \<open>Reading and writing accounts\<close>

definition account_or_new :: "account_db \<Rightarrow> string \<Rightarrow> account" where
  "account_or_new db address =
    (case hget (accounts db) address of Some a \<Rightarrow> a | None \<Rightarrow> Account_new address)"

definition sum_balances :: "account_db \<Rightarrow> nat" where
  "sum_balances db = map_sum acc_balance (accounts db)"

lemma fst_get_or_create [simp]: "fst (get_or_create db a) = account_or_new db a"
  by (simp add: get_or_create_def account_or_new_def split: option.splits)

lemma get_or_create_eq:
  "get_or_create db a = (account_or_new db a, snd (get_or_create db a))"
  by (simp add: prod_eq_iff)

lemma get_balance_alt: "get_balance db a = acc_balance (account_or_new db a)"
  by (simp add: get_balance_def account_or_new_def Account_new_def split: option.splits)

lemma get_nonce_alt: "get_nonce db a = acc_nonce (account_or_new db a)"
  by (simp add: get_nonce_def account_or_new_def Account_new_def split: option.splits)

lemma account_or_new_get_or_create [simp]:
  "account_or_new (snd (get_or_create db a)) b = account_or_new db b"
  by (auto simp: account_or_new_def get_or_create_def hget_hput split: option.splits)

lemma account_or_new_put [simp]:
  "account_or_new (put_account db a x) b = (if b = a then x else account_or_new db b)"
  by (simp add: account_or_new_def put_account_def hget_hput)

lemma account_or_new_touch [simp]: "account_or_new (touch db a) b = account_or_new db b"
  by (simp add: account_or_new_def touch_def)

lemma account_or_new_burned [simp]:
  "account_or_new (db\<lparr>total_burned := n\<rparr>) b = account_or_new db b"
  by (simp add: account_or_new_def)

lemma get_or_create_fields [simp]:
  "total_burned (snd (get_or_create db a)) = total_burned db"
  "touched_in_block (snd (get_or_create db a)) = touched_in_block db"
  "failed_evm_txs (snd (get_or_create db a)) = failed_evm_txs db"
  "failed_evm_txs_order (snd (get_or_create db a)) = failed_evm_txs_order db"
  by (simp_all add: get_or_create_def split: option.splits)

lemma put_account_fields [simp]:
  "total_burned (put_account db a x) = total_burned db"
  "touched_in_block (put_account db a x) = touched_in_block db"
  by (simp_all add: put_account_def)

lemma touch_fields [simp]:
  "accounts (touch db a) = accounts db"
  "total_burned (touch db a) = total_burned db"
  "touched_in_block (touch db a) = insert a (touched_in_block db)"
  by (simp_all add: touch_def)

lemma sum_balances_burned [simp]: "sum_balances (db\<lparr>total_burned := n\<rparr>) = sum_balances db"
  by (simp add: sum_balances_def)

lemma sum_balances_touch [simp]: "sum_balances (touch db a) = sum_balances db"
  by (simp add: sum_balances_def)

lemma sum_balances_get_or_create [simp]: "sum_balances (snd (get_or_create db a)) = sum_balances db"
  by (simp add: sum_balances_def get_or_create_def map_sum_hput_new Account_new_def split: option.splits)

lemma sum_balances_put_account:
  "sum_balances (put_account db a x) + acc_balance (account_or_new db a) = sum_balances db + acc_balance x"
  using map_sum_hput [of acc_balance a x "accounts db"]
  by (auto simp: sum_balances_def put_account_def account_or_new_def Account_new_def opt_val_def
      split: option.splits)

text \<open>The database is a ledger whose total is the sum of the balances.\<close>

interpretation acct: ledger get_balance set_balance sum_balances
proof unfold_locales
  fix db k a j
  show "get_balance (set_balance db k a) j = (if j = k then a else get_balance db j)"
    by (simp add: set_balance_def get_balance_alt split_beta)
  show "sum_balances (set_balance db k a) + get_balance db k = sum_balances db + a"
    using sum_balances_put_account [of "snd (get_or_create (touch db k) k)" k
        "fst (get_or_create (touch db k) k)\<lparr>acc_balance := a\<rparr>"]
    by (simp add: set_balance_def split_beta get_balance_alt)
qed

lemma total_supply_supply: "sum_balances db \<le> U64_MAX \<Longrightarrow> total_supply db = sum_balances db"
  by (simp add: total_supply_def sum_balances_def map_sum_def sum_u64_id comp_def)

section \<open>Effect of the operations\<close>

lemma credit_Ok:
  assumes "credit db a n = (Ok u, db')"
  shows "account_or_new db' b =
      (if b = a then (account_or_new db a)\<lparr>acc_balance := get_balance db a + n\<rparr>
       else account_or_new db b)"
    and "sum_balances db' = sum_balances db + n"
    and "total_burned db' = total_burned db"
    and "touched_in_block db' = insert a (touched_in_block db)"
    and "get_balance db a + n \<le> U64_MAX"
proof -
  let ?db2 = "snd (get_or_create (touch db a) a)"
  from assms have db': "db' = put_account ?db2 a ((account_or_new db a)\<lparr>acc_balance := get_balance db a + n\<rparr>)"
    and ov: "get_balance db a + n \<le> U64_MAX"
    by (auto simp: credit_def get_balance_alt split_beta split: ok_or_splits)
  show "account_or_new db' b =
      (if b = a then (account_or_new db a)\<lparr>acc_balance := get_balance db a + n\<rparr>
       else account_or_new db b)" "total_burned db' = total_burned db"
    "touched_in_block db' = insert a (touched_in_block db)" "get_balance db a + n \<le> U64_MAX"
    using ov by (simp_all add: db')
  show "sum_balances db' = sum_balances db + n"
    using sum_balances_put_account [of ?db2 a "(account_or_new db a)\<lparr>acc_balance := get_balance db a + n\<rparr>"]
    by (simp add: db' get_balance_alt)
qed

text \<open>The sender's side of a transfer: the database after the debit and the nonce bump.\<close>

definition debited :: "account_db \<Rightarrow> string \<Rightarrow> string \<Rightarrow> u64 \<Rightarrow> account_db" where
  "debited db from to tot =
    put_account
      (put_account (snd (get_or_create (touch (touch db from) to) from)) from
        ((account_or_new db from)\<lparr>acc_balance := get_balance db from - tot\<rparr>))
      from ((account_or_new db from)\<lparr>acc_balance := get_balance db from - tot,
                                     acc_nonce := get_nonce db from + 1\<rparr>)"

lemma debited_account:
  "account_or_new (debited db from to tot) b =
    (if b = from then (account_or_new db from)\<lparr>acc_balance := get_balance db from - tot,
                                               acc_nonce := get_nonce db from + 1\<rparr>
     else account_or_new db b)"
  by (simp add: debited_def)

lemma debited_supply:
  assumes "tot \<le> get_balance db from"
  shows "sum_balances (debited db from to tot) + tot = sum_balances db"
proof -
  let ?db2 = "snd (get_or_create (touch (touch db from) to) from)"
  let ?a1 = "(account_or_new db from)\<lparr>acc_balance := get_balance db from - tot\<rparr>"
  have 1: "sum_balances (put_account ?db2 from ?a1) + get_balance db from = sum_balances db + (get_balance db from - tot)"
    using sum_balances_put_account [of ?db2 "from" ?a1] by (simp add: get_balance_alt)
  have 2: "sum_balances (debited db from to tot) = sum_balances (put_account ?db2 from ?a1)"
    using sum_balances_put_account [of "put_account ?db2 from ?a1" "from"
        "?a1\<lparr>acc_nonce := get_nonce db from + 1\<rparr>"]
    by (simp add: debited_def)
  show ?thesis using 1 2 assms by linarith
qed

lemma transfer_Ok:
  assumes "transfer db from to amount fee = (Ok u, db')"
  defines "db4 \<equiv> debited db from to (amount + fee)"
  shows "amount + fee \<le> get_balance db from"
    and "credit db4 to amount = (Ok (), snd (credit db4 to amount))"
    and "db' = (snd (credit db4 to amount))
           \<lparr>total_burned := saturating_add_u64 (total_burned (snd (credit db4 to amount))) (div_ceil fee 2)\<rparr>"
    and "get_nonce db from + 1 \<le> U64_MAX"
  using assms(1) unfolding db4_def
  by (auto simp: transfer_def debited_def get_balance_alt get_nonce_alt split_beta prod_eq_iff
      split: ok_or_splits if_splits result.splits)

lemma transfer_debited_burned [simp]:
  "total_burned (debited db from to t) = total_burned db"
  "touched_in_block (debited db from to t) = insert to (insert from (touched_in_block db))"
  by (simp_all add: debited_def)

section \<open>Touched addresses\<close>

text \<open>
  The state trie folds in, after a block, exactly the addresses of \<open>touched_in_block\<close>. The operations
  a block applies to the database between the reset at its start and the drain at its end:
\<close>

datatype db_op =
    OpCredit string u64
  | OpChargeFee string u64
  | OpTransfer string string u64 u64
  | OpReward string u64 u64
  | OpBurn u64
  | OpStoreCode string "u8 list"
  | OpStoreStorage string string "u8 list"
  | OpSetContract string "u8 list"
  | OpSetBalance string u64
  | OpSetNonce string u64
  | OpMarkFailed string

fun apply_db_op :: "account_db \<Rightarrow> db_op \<Rightarrow> account_db" where
  "apply_db_op db (OpCredit a n) = snd (credit db a n)"
| "apply_db_op db (OpChargeFee a n) = snd (charge_fee_only db a n)"
| "apply_db_op db (OpTransfer a b n f) = snd (transfer db a b n f)"
| "apply_db_op db (OpReward v r f) = snd (apply_block_reward db v r f)"
| "apply_db_op db (OpBurn n) = burn db n"
| "apply_db_op db (OpStoreCode h c) = store_contract_code db h c"
| "apply_db_op db (OpStoreStorage a s v) = store_contract_storage db a s v"
| "apply_db_op db (OpSetContract a h) = set_contract db a h"
| "apply_db_op db (OpSetBalance a n) = set_balance db a n"
| "apply_db_op db (OpSetNonce a n) = set_nonce db a n"
| "apply_db_op db (OpMarkFailed t) = mark_evm_tx_failed db t"

text \<open>What is outside the touched set is as it was in the reference map \<open>m0\<close>.\<close>

definition touched_inv :: "(string, account) hmap \<Rightarrow> account_db \<Rightarrow> bool" where
  [inv_defs]: "touched_inv m0 db \<longleftrightarrow> (\<forall>a. a \<notin> touched_in_block db \<longrightarrow> hget (accounts db) a = hget m0 a)"

lemma touched_inv_touch [simp]: "touched_inv m0 db \<Longrightarrow> touched_inv m0 (touch db a)"
  by (simp add: touched_inv_def)

lemma touched_inv_put:
  "touched_inv m0 db \<Longrightarrow> a \<in> touched_in_block db \<Longrightarrow> touched_inv m0 (put_account db a x)"
  by (auto simp: touched_inv_def put_account_def hget_hput)

lemma touched_inv_get_or_create:
  "touched_inv m0 db \<Longrightarrow> a \<in> touched_in_block db \<Longrightarrow> touched_inv m0 (snd (get_or_create db a))"
  by (auto simp: touched_inv_def get_or_create_def hget_hput split: option.splits)

lemma touched_inv_other [simp]:
  "touched_inv m0 (db\<lparr>total_burned := n\<rparr>) = touched_inv m0 db"
  "touched_inv m0 (db\<lparr>contract_code := c\<rparr>) = touched_inv m0 db"
  "touched_inv m0 (db\<lparr>contract_storage := c\<rparr>) = touched_inv m0 db"
  "touched_inv m0 (db\<lparr>failed_evm_txs := f\<rparr>) = touched_inv m0 db"
  "touched_inv m0 (db\<lparr>failed_evm_txs_order := fo\<rparr>) = touched_inv m0 db"
  by (simp_all add: touched_inv_def)

lemmas touched_intros = touched_inv_put touched_inv_get_or_create touched_inv_touch

lemma touched_inv_credit: "touched_inv m0 db \<Longrightarrow> touched_inv m0 (snd (credit db a n))"
  unfolding credit_def
  by (auto simp: split_beta intro!: touched_intros split: ok_or_split)

lemma touched_credit: "insert a (touched_in_block db) \<subseteq> touched_in_block (snd (credit db a n))"
  unfolding credit_def by (auto simp: split_beta split: ok_or_split)

lemma touched_inv_transfer: "touched_inv m0 db \<Longrightarrow> touched_inv m0 (snd (transfer db a b n f))"
proof -
  assume inv: "touched_inv m0 db"
  let ?db1 = "touch (touch db a) b"
  let ?db2 = "snd (get_or_create ?db1 a)"
  have inv2: "touched_inv m0 ?db2" "\<And>x. touched_inv m0 (put_account ?db2 a x)"
    "\<And>x y. touched_inv m0 (put_account (put_account ?db2 a x) a y)"
    using inv by (auto intro!: touched_intros)
  then show ?thesis
    using inv touched_inv_credit
    by (auto simp: transfer_def split_beta split: ok_or_split prod.split result.split)
qed

lemma touched_inv_apply: "touched_inv m0 db \<Longrightarrow> touched_inv m0 (apply_db_op db op)"
proof (cases op)
  case (OpChargeFee a n)
  assume "touched_inv m0 db"
  then show ?thesis
    unfolding OpChargeFee
    by (auto simp: charge_fee_only_def split_beta intro!: touched_intros split: ok_or_split)
qed (auto simp: burn_def store_contract_code_def store_contract_storage_def set_contract_def
    set_balance_def set_nonce_def mark_evm_tx_failed_def apply_block_reward_def split_beta Let_def
    intro!: touched_intros touched_inv_credit touched_inv_transfer split: ok_or_split list.split)

text \<open>A block as a transition system over the operations, started from a cleared set.\<close>

interpretation block_touch: transition_system
  "\<lambda>(m0, db). db = clear_touched_in_block db \<and> m0 = accounts db"
  "\<lambda>(m0, db) op (m0', db'). m0' = m0 \<and> db' = apply_db_op db op"
  "\<lambda>(m0, db). touched_inv m0 db"
proof unfold_locales
  show "case s of (m0, db) \<Rightarrow> touched_inv m0 db"
    if "case s of (m0, db) \<Rightarrow> db = clear_touched_in_block db \<and> m0 = accounts db" for s
    using that by (auto simp: touched_inv_def)
  show "case s' of (m0, db) \<Rightarrow> touched_inv m0 db"
    if "case s of (m0, db) \<Rightarrow> touched_inv m0 db"
      and "(case s of (m0, db) \<Rightarrow> \<lambda>op (m0', db'). m0' = m0 \<and> db' = apply_db_op db op) e s'" for s e s'
    using that by (auto intro: touched_inv_apply)
qed

lemma block_touch_foldl:
  "block_touch.steps (m0, db) ops (m0, foldl apply_db_op db ops)"
proof (induction ops arbitrary: db)
  case Nil
  then show ?case by (simp add: block_touch.steps_Nil)
next
  case (Cons op ops)
  then show ?case
    by (intro block_touch.steps_Cons [of _ _ "(m0, apply_db_op db op)"]) auto
qed

lemma foldl_touched_inv: "touched_inv m0 db \<Longrightarrow> touched_inv m0 (foldl apply_db_op db ops)"
  using block_touch.steps_inv [OF block_touch_foldl] by auto

section \<open>Failed EVM transactions\<close>

text \<open>The set and the queue list the same hashes, the queue without repetition and bounded.\<close>

definition failed_inv :: "account_db \<Rightarrow> bool" where
  [inv_defs]: "failed_inv db \<longleftrightarrow>
     failed_evm_txs db = set (failed_evm_txs_order db) \<and> distinct (failed_evm_txs_order db) \<and>
     length (failed_evm_txs_order db) \<le> MAX_FAILED_EVM_TXS"

lemma mark_failed_inv: "failed_inv db \<Longrightarrow> failed_inv (mark_evm_tx_failed db t)"
  by (cases "failed_evm_txs_order db")
    (auto simp: mark_evm_tx_failed_def failed_inv_def MAX_FAILED_EVM_TXS_def)

section \<open>Properties\<close>

text \<open>
  (C12) A successful transfer debits the sender by amount plus fee, credits the recipient by the
  amount, bumps exactly the sender's nonce by one, leaves every other balance alone (a transfer to
  oneself included), takes exactly the fee out of circulation and adds the ceiling half of the fee to
  the burn counter.
\<close>

theorem transfer_moves_exactly:
  assumes "transfer db from to amount fee = (Ok (), db')"
  shows "get_balance db' a + (if a = from then amount + fee else 0)
           = get_balance db a + (if a = to then amount else 0) \<and>
         get_nonce db' a = get_nonce db a + (if a = from then 1 else 0) \<and>
         sum_balances db' + fee = sum_balances db \<and>
         total_burned db' = min (total_burned db + div_ceil fee 2) U64_MAX"
proof (intro conjI)
  let ?db4 = "debited db from to (amount + fee)"
  let ?db5 = "snd (credit ?db4 to amount)"
  note ok = transfer_Ok [OF assms]
  note cr = credit_Ok [OF ok(2)]
  have acc: "account_or_new db' b = (if b = to then (account_or_new ?db4 to)
        \<lparr>acc_balance := get_balance ?db4 to + amount\<rparr> else account_or_new ?db4 b)" for b
    using cr(1) [of b] by (simp add: ok(3))
  show "get_balance db' a + (if a = from then amount + fee else 0)
           = get_balance db a + (if a = to then amount else 0)"
    using ok(1) by (simp add: get_balance_alt acc debited_account)
  show "get_nonce db' a = get_nonce db a + (if a = from then 1 else 0)"
    by (simp add: get_nonce_alt acc debited_account)
  show "sum_balances db' + fee = sum_balances db"
    using cr(2) debited_supply [OF ok(1), of to] by (simp add: ok(3))
  show "total_burned db' = min (total_burned db + div_ceil fee 2) U64_MAX"
    using cr(3) by (simp add: ok(3) saturating_add_u64_def)
qed

definition example_db :: account_db where
  "example_db = set_balance AccountDB_new ''alice'' 10000"


lemmas db_eval = transfer_def credit_def get_or_create_def put_account_def touch_def
  get_balance_def get_nonce_def set_balance_def AccountDB_new_def Account_new_def
  sum_balances_def map_sum_def checked_add_u64_def checked_sub_def U64_MAX_def div_ceil_def
  saturating_add_u64_def

theorem transfer_moves_exactly_witness:
  "get_balance (snd (transfer example_db ''alice'' ''bob'' 5000 101)) ''alice'' = 4899 \<and>
   get_nonce (snd (transfer example_db ''alice'' ''bob'' 5000 101)) ''alice'' = 1 \<and>
   sum_balances (snd (transfer example_db ''alice'' ''bob'' 5000 101)) = 9899"
proof -
  have run: "transfer example_db ''alice'' ''bob'' 5000 101
        = (Ok (), snd (transfer example_db ''alice'' ''bob'' 5000 101))"
    by (simp add: example_db_def db_eval)
  have b: "get_balance example_db ''alice'' = 10000" "get_nonce example_db ''alice'' = 0"
    "sum_balances example_db = 10000"
    by (simp_all add: example_db_def db_eval)
  show ?thesis
    using transfer_moves_exactly [OF run, of "''alice''"] b by simp
qed

text \<open>
  (C13) Whatever sequence of operations a block applies after its start cleared the touched set, every
  address whose account record differs from the one before the block is in \<open>touched_in_block\<close>, so the
  state trie, which folds in exactly that set, misses none of them.
\<close>

theorem touched_covers_changes:
  assumes "hget (accounts (foldl apply_db_op (clear_touched_in_block db) ops)) a \<noteq> hget (accounts db) a"
  shows "a \<in> touched_in_block (foldl apply_db_op (clear_touched_in_block db) ops)"
proof -
  have "touched_inv (accounts db) (clear_touched_in_block db)"
    by (simp add: touched_inv_def clear_touched_in_block_def)
  then have "touched_inv (accounts db) (foldl apply_db_op (clear_touched_in_block db) ops)"
    by (rule foldl_touched_inv)
  with assms show ?thesis by (auto simp: touched_inv_def)
qed

theorem touched_covers_changes_witness:
  "''bob'' \<in> touched_in_block
     (foldl apply_db_op (clear_touched_in_block example_db) [OpTransfer ''alice'' ''bob'' 5000 101])"
  by (rule touched_covers_changes) (simp add: example_db_def db_eval clear_touched_in_block_def)

text \<open>
  From an empty database, after any number of failed EVM transactions the record of failures is
  consistent: the set and the eviction queue hold the same hashes, the queue repeats none, and at most
  \<open>MAX_FAILED_EVM_TXS\<close> are kept; the most recent failure is always among them.
\<close>

theorem failed_txs_bounded:
  "failed_inv (foldl mark_evm_tx_failed AccountDB_new ts) \<and>
   is_evm_tx_failed (mark_evm_tx_failed (foldl mark_evm_tx_failed AccountDB_new ts) t) t"
proof -
  have "failed_inv db \<Longrightarrow> failed_inv (foldl mark_evm_tx_failed db ts)" for db
    by (induction ts arbitrary: db) (auto intro: mark_failed_inv)
  moreover have "failed_inv AccountDB_new"
    by (simp add: failed_inv_def AccountDB_new_def)
  ultimately have inv: "failed_inv (foldl mark_evm_tx_failed AccountDB_new ts)" (is "failed_inv ?db")
    by blast
  have "is_evm_tx_failed (mark_evm_tx_failed ?db t) t"
    using inv by (cases "failed_evm_txs_order ?db")
      (auto simp: is_evm_tx_failed_def mark_evm_tx_failed_def failed_inv_def MAX_FAILED_EVM_TXS_def)
  with inv show ?thesis by blast
qed

end
