(* ===== verification/Staking.thy ===== *)
theory Staking
  imports Rust_Prelude
begin

text \<open>
  The DPoS stake registry, \<open>sentrix-staking/src/staking.rs\<close>: validators, delegations, the unbonding
  queue, redelegation cooldowns, the active set and the reward accumulators, with every method of
  \<open>StakeRegistry\<close>. The definitions come first; the invariant of the registry and what each operation
  does to it are in \<open>Staking_Inv\<close>.
\<close>

section \<open>Constants\<close>

definition MIN_SELF_STAKE :: u64 where "MIN_SELF_STAKE = 15000 * 100000000"
definition MAX_ACTIVE_VALIDATORS :: usize where "MAX_ACTIVE_VALIDATORS = 21"
definition MIN_BFT_VALIDATORS :: usize where "MIN_BFT_VALIDATORS = 4"
definition UNBONDING_PERIOD :: u64 where "UNBONDING_PERIOD = 201600"
definition MAX_DELEGATIONS_PER_ACCOUNT :: usize where "MAX_DELEGATIONS_PER_ACCOUNT = 10"
definition MAX_UNBONDING_ENTRIES :: usize where "MAX_UNBONDING_ENTRIES = 7"
definition MAX_UNBONDING_PER_VALIDATOR :: usize where "MAX_UNBONDING_PER_VALIDATOR = 10000"
definition REDELEGATE_COOLDOWN :: u64 where "REDELEGATE_COOLDOWN = 201600"
definition MIN_COMMISSION :: u16 where "MIN_COMMISSION = 500"
definition MAX_COMMISSION :: u16 where "MAX_COMMISSION = 2000"
definition MAX_COMMISSION_CHANGE_PER_EPOCH :: u16 where "MAX_COMMISSION_CHANGE_PER_EPOCH = 200"
definition EPOCH_LENGTH :: u64 where "EPOCH_LENGTH = 28800"

section \<open>Data\<close>

record validator_stake =
  vs_address :: string
  self_stake :: u64
  total_delegated :: u64
  commission_rate :: u16
  max_commission_rate :: u16
  is_jailed :: bool
  jail_until :: u64
  is_tombstoned :: bool
  blocks_signed :: u64
  blocks_missed :: u64
  pending_rewards :: u64
  registration_height :: u64
  last_commission_change_height :: u64

definition total_stake :: "validator_stake \<Rightarrow> u64" where
  "total_stake v = saturating_add_u64 (self_stake v) (total_delegated v)"

definition is_active_eligible :: "validator_stake \<Rightarrow> bool" where
  "is_active_eligible v \<longleftrightarrow> \<not> is_jailed v \<and> \<not> is_tombstoned v \<and> MIN_SELF_STAKE \<le> self_stake v"

record delegation_entry =
  de_delegator :: string
  de_validator :: string
  de_amount :: u64
  de_height :: u64

record unbonding_entry =
  ub_delegator :: string
  ub_validator :: string
  ub_amount :: u64
  ub_completion_height :: u64

record stake_registry =
  validators :: "(string, validator_stake) hmap"
  delegations :: "(string, delegation_entry list) hmap"
  unbonding_queue :: "(u64, unbonding_entry list) hmap"
  redelegate_cooldowns :: "(string, u64) hmap"
  active_set :: "string list"
  delegator_rewards :: "(string, u64) hmap"

definition StakeRegistry_new :: stake_registry where
  "StakeRegistry_new =
    \<lparr>validators = [], delegations = [], unbonding_queue = [], redelegate_cooldowns = [],
     active_set = [], delegator_rewards = []\<rparr>"

abbreviation put_validator :: "stake_registry \<Rightarrow> string \<Rightarrow> validator_stake \<Rightarrow> stake_registry" where
  "put_validator r v val \<equiv> r\<lparr>validators := hput (validators r) v val\<rparr>"

abbreviation put_entries :: "stake_registry \<Rightarrow> string \<Rightarrow> delegation_entry list \<Rightarrow> stake_registry" where
  "put_entries r d es \<equiv> r\<lparr>delegations := hput (delegations r) d es\<rparr>"

text \<open>\<open>iter_mut().find(p)\<close> followed by an assignment through the reference it returns.\<close>

fun update_first :: "('a \<Rightarrow> bool) \<Rightarrow> ('a \<Rightarrow> 'a) \<Rightarrow> 'a list \<Rightarrow> 'a list" where
  "update_first p f [] = []"
| "update_first p f (x # xs) = (if p x then f x # xs else x # update_first p f xs)"

text \<open>Insertion into a \<open>BTreeMap\<close>, whose iteration is in key order.\<close>

fun bt_put :: "('k :: linorder, 'v) hmap \<Rightarrow> 'k \<Rightarrow> 'v \<Rightarrow> ('k, 'v) hmap" where
  "bt_put [] k v = [(k, v)]"
| "bt_put ((j, w) # m) k v =
    (if k < j then (k, v) # (j, w) # m else if k = j then (k, v) # m else (j, w) # bt_put m k v)"

section \<open>Active set\<close>

definition stake_order :: "validator_stake \<Rightarrow> validator_stake \<Rightarrow> bool" where
  "stake_order a b \<longleftrightarrow>
    total_stake b < total_stake a \<or> (total_stake a = total_stake b \<and> vs_address a \<le> vs_address b)"

definition compute_active_set :: "stake_registry \<Rightarrow> string list" where
  "compute_active_set r =
    map vs_address
      (take MAX_ACTIVE_VALIDATORS
        (sort_by stake_order (filter is_active_eligible (hvalues (validators r)))))"

definition update_active_set :: "stake_registry \<Rightarrow> stake_registry" where
  "update_active_set r = r\<lparr>active_set := compute_active_set r\<rparr>"

definition is_active :: "stake_registry \<Rightarrow> string \<Rightarrow> bool" where
  "is_active r address \<longleftrightarrow> address \<in> set (active_set r)"

definition active_count :: "stake_registry \<Rightarrow> usize" where
  "active_count r = length (active_set r)"

definition get_validator :: "stake_registry \<Rightarrow> string \<Rightarrow> validator_stake option" where
  "get_validator r address = hget (validators r) address"

definition weighted_proposer :: "stake_registry \<Rightarrow> u64 \<Rightarrow> u32 \<Rightarrow> string option" where
  "weighted_proposer r h rnd =
    (if active_set r = [] then None
     else let n = length (active_set r);
              idx = wrapping_add_u64 h rnd mod n
          in Some (active_set r ! idx))"

section \<open>Registration and delegation\<close>

definition register_validator ::
  "stake_registry \<Rightarrow> string \<Rightarrow> u64 \<Rightarrow> u16 \<Rightarrow> u64 \<Rightarrow> unit result \<times> stake_registry" where
  "register_validator r address stake commission current_height =
    (if hget (validators r) address \<noteq> None
     then (Err (InvalidTransaction ''validator already registered''), r)
     else if stake < MIN_SELF_STAKE
     then (Err (InvalidTransaction (''self-stake '' @ show_nat stake @ '' below minimum '' @
             show_nat MIN_SELF_STAKE)), r)
     else if \<not> (MIN_COMMISSION \<le> commission \<and> commission \<le> MAX_COMMISSION)
     then (Err (InvalidTransaction (''commission '' @ show_nat commission @ '' out of range ['' @
             show_nat MIN_COMMISSION @ '', '' @ show_nat MAX_COMMISSION @ '']'')), r)
     else (Ok (), put_validator r address
            \<lparr>vs_address = address, self_stake = stake, total_delegated = 0,
             commission_rate = commission,
             max_commission_rate =
               min (saturating_add_u16 commission (MAX_COMMISSION_CHANGE_PER_EPOCH * 5)) MAX_COMMISSION,
             is_jailed = False, jail_until = 0, is_tombstoned = False,
             blocks_signed = 0, blocks_missed = 0, pending_rewards = 0,
             registration_height = current_height, last_commission_change_height = 0\<rparr>))"

definition add_self_stake :: "stake_registry \<Rightarrow> string \<Rightarrow> u64 \<Rightarrow> unit result \<times> stake_registry" where
  "add_self_stake r validator amount =
    (if amount = 0 then (Err (InvalidTransaction ''AddSelfStake: amount must be > 0''), r)
     else ok_or (hget (validators r) validator) (InvalidTransaction ''validator not found'') r (\<lambda>val.
       if is_tombstoned val
       then (Err (InvalidTransaction ''AddSelfStake: tombstoned validators cannot add self_stake''), r)
       else ok_or (checked_add_u64 (self_stake val) amount)
              (InvalidTransaction ''AddSelfStake: self_stake overflow'') r (\<lambda>s.
              (Ok (), put_validator r validator (val\<lparr>self_stake := s\<rparr>)))))"

text \<open>The last part of \<open>delegate\<close>: the validator's total.\<close>

definition delegate_total :: "stake_registry \<Rightarrow> string \<Rightarrow> u64 \<Rightarrow> unit result \<times> stake_registry" where
  "delegate_total r validator amount =
    ok_or (hget (validators r) validator) (InvalidTransaction ''validator not found'') r (\<lambda>val.
      ok_or (checked_add_u64 (total_delegated val) amount)
        (InvalidTransaction ''delegated total overflow'') r (\<lambda>t.
        (Ok (), put_validator r validator (val\<lparr>total_delegated := t\<rparr>))))"

definition delegate ::
  "stake_registry \<Rightarrow> string \<Rightarrow> string \<Rightarrow> u64 \<Rightarrow> u64 \<Rightarrow> unit result \<times> stake_registry" where
  "delegate r delegator validator amount current_height =
    (if amount = 0 then (Err (InvalidTransaction ''delegation amount must be > 0''), r)
     else ok_or (hget (validators r) validator) (InvalidTransaction ''validator not found'') r (\<lambda>val.
       if is_tombstoned val
       then (Err (InvalidTransaction ''cannot delegate to tombstoned validator''), r)
       else
         let entries = (case hget (delegations r) delegator of Some es \<Rightarrow> es | None \<Rightarrow> []);
             r1 = put_entries r delegator entries
         in case find (\<lambda>e. de_validator e = validator) entries of
              Some entry \<Rightarrow>
                ok_or (checked_add_u64 (de_amount entry) amount)
                  (InvalidTransaction ''delegation overflow'') r1 (\<lambda>a.
                  delegate_total
                    (put_entries r1 delegator
                      (update_first (\<lambda>e. de_validator e = validator) (\<lambda>e. e\<lparr>de_amount := a\<rparr>) entries))
                    validator amount)
            | None \<Rightarrow>
                if MAX_DELEGATIONS_PER_ACCOUNT \<le> length entries
                then (Err (InvalidTransaction (''max '' @ show_nat MAX_DELEGATIONS_PER_ACCOUNT @
                        '' delegations per account'')), r1)
                else
                  delegate_total
                    (put_entries r1 delegator
                      (entries @ [\<lparr>de_delegator = delegator, de_validator = validator,
                                   de_amount = amount, de_height = current_height\<rparr>]))
                    validator amount))"

text \<open>
  \<open>entry.amount = entry.amount.saturating_sub(amount)\<close> and the removal of emptied entries that
  follows it, shared by \<open>undelegate\<close> and \<open>redelegate\<close>.
\<close>

definition reduce_entry :: "string \<Rightarrow> u64 \<Rightarrow> delegation_entry \<Rightarrow> delegation_entry list \<Rightarrow> delegation_entry list" where
  "reduce_entry validator amount entry entries =
    (let entries1 = update_first (\<lambda>e. de_validator e = validator)
                      (\<lambda>e. e\<lparr>de_amount := saturating_sub (de_amount e) amount\<rparr>) entries
     in if saturating_sub (de_amount entry) amount = 0
        then filter (\<lambda>e. \<not> (de_validator e = validator \<and> de_amount e = 0)) entries1
        else entries1)"

definition unbonding_counts :: "stake_registry \<Rightarrow> string \<Rightarrow> string \<Rightarrow> usize \<times> usize" where
  "unbonding_counts r delegator validator =
    (let us = filter (\<lambda>u. ub_validator u = validator) (concat (hvalues (unbonding_queue r)))
     in foldl (\<lambda>(per_pair, total) u.
          (per_pair + (if ub_delegator u = delegator then 1 else 0), total + 1)) (0, 0) us)"

definition undelegate ::
  "stake_registry \<Rightarrow> string \<Rightarrow> string \<Rightarrow> u64 \<Rightarrow> u64 \<Rightarrow> unit result \<times> stake_registry" where
  "undelegate r delegator validator amount current_height =
    (if amount = 0 then (Err (InvalidTransaction ''undelegation amount must be > 0''), r)
     else ok_or (hget (delegations r) delegator) (InvalidTransaction ''no delegations found'') r (\<lambda>entries.
       ok_or (find (\<lambda>e. de_validator e = validator) entries)
         (InvalidTransaction ''delegation to this validator not found'') r (\<lambda>entry.
         if de_amount entry < amount
         then (Err (InvalidTransaction ''undelegation exceeds delegated amount''), r)
         else
           let r1 = put_entries r delegator (reduce_entry validator amount entry entries);
               (existing_unbonding, per_validator_total) = unbonding_counts r1 delegator validator
           in if MAX_UNBONDING_ENTRIES \<le> existing_unbonding
              then (Err (InvalidTransaction (''max '' @ show_nat MAX_UNBONDING_ENTRIES @
                      '' unbonding entries per delegation'')), r1)
              else if MAX_UNBONDING_PER_VALIDATOR \<le> per_validator_total
              then (Err (InvalidTransaction (''max '' @ show_nat MAX_UNBONDING_PER_VALIDATOR @
                      '' unbonding entries per validator reached'')), r1)
              else ok_or (hget (validators r1) validator) (InvalidTransaction ''validator not found'') r1 (\<lambda>val.
                let r2 = put_validator r1 validator
                           (val\<lparr>total_delegated := saturating_sub (total_delegated val) amount\<rparr>);
                    completion = saturating_add_u64 current_height UNBONDING_PERIOD;
                    queued = (case hget (unbonding_queue r2) completion of Some us \<Rightarrow> us | None \<Rightarrow> [])
                in (Ok (), r2\<lparr>unbonding_queue := bt_put (unbonding_queue r2) completion
                      (queued @ [\<lparr>ub_delegator = delegator, ub_validator = validator,
                                  ub_amount = amount, ub_completion_height = completion\<rparr>])\<rparr>)))))"

text \<open>The last part of \<open>redelegate\<close>: the target validator's total and the cooldown.\<close>

definition redelegate_finish ::
  "stake_registry \<Rightarrow> string \<Rightarrow> string \<Rightarrow> u64 \<Rightarrow> u64 \<Rightarrow> unit result \<times> stake_registry" where
  "redelegate_finish r delegator to_validator amount current_height =
    (let cooled = (\<lambda>r. r\<lparr>redelegate_cooldowns := hput (redelegate_cooldowns r) delegator
                          (saturating_add_u64 current_height REDELEGATE_COOLDOWN)\<rparr>)
     in case hget (validators r) to_validator of
          Some val \<Rightarrow>
            ok_or (checked_add_u64 (total_delegated val) amount)
              (InvalidTransaction ''delegated total overflow'') r (\<lambda>t.
              (Ok (), cooled (put_validator r to_validator (val\<lparr>total_delegated := t\<rparr>))))
        | None \<Rightarrow> (Ok (), cooled r))"

definition redelegate ::
  "stake_registry \<Rightarrow> string \<Rightarrow> string \<Rightarrow> string \<Rightarrow> u64 \<Rightarrow> u64 \<Rightarrow> unit result \<times> stake_registry" where
  "redelegate r delegator from_validator to_validator amount current_height =
    (if from_validator = to_validator
     then (Err (InvalidTransaction ''cannot redelegate to same validator''), r)
     else if amount = 0 then (Err (InvalidTransaction ''redelegate amount must be > 0''), r)
     else if (case hget (redelegate_cooldowns r) delegator of Some lst \<Rightarrow> current_height < lst | None \<Rightarrow> False)
     then (Err (InvalidTransaction (''redelegate cooldown active until height '' @
             show_nat (case hget (redelegate_cooldowns r) delegator of Some lst \<Rightarrow> lst | None \<Rightarrow> 0))), r)
     else if hget (validators r) to_validator = None
     then (Err (InvalidTransaction ''target validator not found''), r)
     else if (case hget (validators r) to_validator of Some v \<Rightarrow> is_tombstoned v | None \<Rightarrow> True)
     then (Err (InvalidTransaction ''cannot redelegate to tombstoned validator''), r)
     else ok_or (hget (delegations r) delegator) (InvalidTransaction ''no delegations found'') r (\<lambda>entries.
       ok_or (find (\<lambda>e. de_validator e = from_validator) entries)
         (InvalidTransaction ''delegation to source validator not found'') r (\<lambda>from_entry.
         if de_amount from_entry < amount
         then (Err (InvalidTransaction ''redelegate exceeds delegated amount''), r)
         else
           let entries1 = reduce_entry from_validator amount from_entry entries;
               r1 = put_entries r delegator entries1;
               r2 = (case hget (validators r1) from_validator of
                       Some val \<Rightarrow> put_validator r1 from_validator
                         (val\<lparr>total_delegated := saturating_sub (total_delegated val) amount\<rparr>)
                     | None \<Rightarrow> r1)
           in case find (\<lambda>e. de_validator e = to_validator) entries1 of
                Some to_entry \<Rightarrow>
                  ok_or (checked_add_u64 (de_amount to_entry) amount)
                    (InvalidTransaction ''delegation overflow'') r2 (\<lambda>a.
                    redelegate_finish
                      (put_entries r2 delegator
                        (update_first (\<lambda>e. de_validator e = to_validator) (\<lambda>e. e\<lparr>de_amount := a\<rparr>) entries1))
                      delegator to_validator amount current_height)
              | None \<Rightarrow>
                  if MAX_DELEGATIONS_PER_ACCOUNT \<le> length entries1
                  then (Err (InvalidTransaction (''max '' @ show_nat MAX_DELEGATIONS_PER_ACCOUNT @
                          '' delegations per account'')), r2)
                  else
                    redelegate_finish
                      (put_entries r2 delegator
                        (entries1 @ [\<lparr>de_delegator = delegator, de_validator = to_validator,
                                      de_amount = amount, de_height = current_height\<rparr>]))
                      delegator to_validator amount current_height)))"

section \<open>Slashing and jailing\<close>

text \<open>The inner loop of \<open>slash\<close> over one delegator's entries.\<close>

fun slash_entries ::
  "string \<Rightarrow> u64 \<Rightarrow> u64 \<Rightarrow> delegation_entry list \<Rightarrow> u128 \<Rightarrow> delegation_entry list \<times> u128" where
  "slash_entries validator remaining den [] acc = ([], acc)"
| "slash_entries validator remaining den (e # es) acc =
    (if de_validator e = validator
     then let num = saturating_mul_u128 (de_amount e) remaining;
              entry_slash = div_ceil num den;
              a = saturating_sub (de_amount e) (as_u64 entry_slash);
              (es', acc') = slash_entries validator remaining den es (saturating_add_u128 acc a)
          in (e\<lparr>de_amount := a\<rparr> # es', acc')
     else let (es', acc') = slash_entries validator remaining den es acc in (e # es', acc'))"

text \<open>The outer loop over the sorted delegator addresses.\<close>

definition slash_delegations ::
  "string \<Rightarrow> u64 \<Rightarrow> u64 \<Rightarrow> (string, delegation_entry list) hmap \<Rightarrow>
     (string, delegation_entry list) hmap \<times> u128" where
  "slash_delegations validator remaining den ds =
    foldl (\<lambda>(ds, acc) key.
        case hget ds key of
          Some entries \<Rightarrow>
            let (entries', acc') = slash_entries validator remaining den entries acc
            in (hput ds key entries', acc')
        | None \<Rightarrow> (ds, acc))
      (ds, 0) (sort (hkeys ds))"

definition slash_unbonding :: "string \<Rightarrow> u16 \<Rightarrow> (u64, unbonding_entry list) hmap \<Rightarrow> (u64, unbonding_entry list) hmap" where
  "slash_unbonding validator basis_points q =
    map (\<lambda>(k, us). (k, map (\<lambda>u.
      if ub_validator u = validator
      then let entry_slash = saturating_mul_u128 (ub_amount u) basis_points div 10000
           in u\<lparr>ub_amount := saturating_sub (ub_amount u) (as_u64 entry_slash)\<rparr>
      else u) us)) q"

definition slash :: "stake_registry \<Rightarrow> string \<Rightarrow> u16 \<Rightarrow> u64 result \<times> stake_registry" where
  "slash r validator basis_points =
    ok_or (hget (validators r) validator) (InvalidTransaction ''validator not found'') r (\<lambda>val.
      ok_or (checked_mul_u128 (total_stake val) basis_points)
        (InvalidTransaction ''slash calculation overflow'') r (\<lambda>prod.
        let slash_amount = as_u64 (prod div 10000);
            from_self = min slash_amount (self_stake val);
            val1 = val\<lparr>self_stake := saturating_sub (self_stake val) from_self\<rparr>;
            remaining = saturating_sub slash_amount from_self;
            (ds, val2) =
              (if 0 < remaining \<and> 0 < total_delegated val1
               then let delegated_before = total_delegated val1;
                        (ds, delegated_after) =
                          slash_delegations validator remaining delegated_before (delegations r)
                    in (ds, val1\<lparr>total_delegated :=
                             (if delegated_after \<le> U64_MAX then delegated_after else U64_MAX)\<rparr>)
               else (delegations r, val1));
            r1 = r\<lparr>validators := hput (validators r) validator val2, delegations := ds,
                   unbonding_queue := slash_unbonding validator basis_points (unbonding_queue r)\<rparr>
        in (Ok slash_amount, update_active_set r1)))"

definition jail :: "stake_registry \<Rightarrow> string \<Rightarrow> u64 \<Rightarrow> u64 \<Rightarrow> unit result \<times> stake_registry" where
  "jail r validator duration current_height =
    ok_or (hget (validators r) validator) (InvalidTransaction ''validator not found'') r (\<lambda>val.
      (Ok (), update_active_set (put_validator r validator
        (val\<lparr>is_jailed := True, jail_until := saturating_add_u64 current_height duration\<rparr>))))"

definition tombstone :: "stake_registry \<Rightarrow> string \<Rightarrow> unit result \<times> stake_registry" where
  "tombstone r validator =
    ok_or (hget (validators r) validator) (InvalidTransaction ''validator not found'') r (\<lambda>val.
      (Ok (), update_active_set (put_validator r validator
        (val\<lparr>is_jailed := True, is_tombstoned := True, jail_until := U64_MAX\<rparr>))))"

definition unjail :: "stake_registry \<Rightarrow> string \<Rightarrow> u64 \<Rightarrow> unit result \<times> stake_registry" where
  "unjail r validator current_height =
    ok_or (hget (validators r) validator) (InvalidTransaction ''validator not found'') r (\<lambda>val.
      if is_tombstoned val
      then (Err (InvalidTransaction ''tombstoned validators cannot unjail''), r)
      else if current_height < jail_until val
      then (Err (InvalidTransaction (''jail period active until height '' @ show_nat (jail_until val))), r)
      else if self_stake val < MIN_SELF_STAKE
      then (Err (InvalidTransaction (''self-stake below minimum after slashing '' @ em_dash @
              '' add more stake first'')), r)
      else (Ok (), update_active_set (put_validator r validator
             (val\<lparr>is_jailed := False, jail_until := 0\<rparr>))))"

definition force_unjail :: "stake_registry \<Rightarrow> string \<Rightarrow> unit result \<times> stake_registry" where
  "force_unjail r validator =
    ok_or (hget (validators r) validator) (InvalidTransaction ''validator not found'') r (\<lambda>val.
      if is_tombstoned val
      then (Err (InvalidTransaction ''tombstoned validators cannot unjail''), r)
      else
        let val1 = (if self_stake val < MIN_SELF_STAKE then val\<lparr>self_stake := MIN_SELF_STAKE\<rparr> else val)
        in (Ok (), put_validator r validator (val1\<lparr>is_jailed := False, jail_until := 0\<rparr>)))"

section \<open>Rewards\<close>

definition distribute_to_single_validator ::
  "stake_registry \<Rightarrow> string \<Rightarrow> u64 \<Rightarrow> unit result \<times> stake_registry" where
  "distribute_to_single_validator r validator_addr total_reward =
    ok_or (hget (validators r) validator_addr)
      (InvalidTransaction ''proposer not found in stake registry'') r (\<lambda>val.
      let commission = as_u64 (saturating_mul_u128 total_reward (commission_rate val) div 10000);
          delegator_pool = saturating_sub total_reward commission;
          val1 = val\<lparr>pending_rewards := saturating_add_u64 (pending_rewards val) commission\<rparr>;
          r1 = put_validator r validator_addr val1
      in if total_stake val = 0 \<or> delegator_pool = 0 then (Ok (), r1)
         else
           let self_share = saturating_mul_u128 delegator_pool (self_stake val) div total_stake val
           in (Ok (), put_validator r1 validator_addr
                 (val1\<lparr>pending_rewards := saturating_add_u64 (pending_rewards val1) (as_u64 self_share)\<rparr>)))"

text \<open>The delegations to one validator, in the order of the sorted delegator addresses.\<close>

definition sorted_delegations_to :: "stake_registry \<Rightarrow> string \<Rightarrow> delegation_entry list" where
  "sorted_delegations_to r validator_addr =
    filter (\<lambda>e. de_validator e = validator_addr)
      (concat (List.map_filter (\<lambda>k. hget (delegations r) k) (sort (hkeys (delegations r)))))"

definition add_delegator_reward :: "stake_registry \<Rightarrow> string \<times> u64 \<Rightarrow> stake_registry" where
  "add_delegator_reward r p =
    (let (delegator, share) = p
     in if share = 0 then r
        else r\<lparr>delegator_rewards := hput (delegator_rewards r) delegator
               (saturating_add_u64 (opt_val id (hget (delegator_rewards r) delegator)) share)\<rparr>)"

definition pay_one_signer :: "stake_registry \<Rightarrow> string \<Rightarrow> u64 \<Rightarrow> unit result \<times> stake_registry" where
  "pay_one_signer r validator_addr signer_share =
    (case hget (validators r) validator_addr of
       None \<Rightarrow> (Ok (), r)
     | Some val \<Rightarrow>
       let commission = as_u64 (saturating_mul_u128 signer_share (commission_rate val) div 10000);
           pool = saturating_sub signer_share commission;
           val1 = val\<lparr>pending_rewards := saturating_add_u64 (pending_rewards val) commission\<rparr>;
           r1 = put_validator r validator_addr val1
       in if total_stake val = 0 \<or> pool = 0 then (Ok (), r1)
          else
            let self_share = as_u64 (saturating_mul_u128 pool (self_stake val) div total_stake val);
                r2 = put_validator r1 validator_addr
                       (val1\<lparr>pending_rewards := saturating_add_u64 (pending_rewards val1) self_share\<rparr>);
                delegator_pool = saturating_sub pool self_share
            in if delegator_pool = 0 then (Ok (), r2)
               else
                 let ds = sorted_delegations_to r2 validator_addr;
                     total = sum_u64 (map de_amount ds)
                 in if total = 0 then (Ok (), r2)
                    else
                      let shares = map (\<lambda>e. (de_delegator e,
                            as_u64 (saturating_mul_u128 delegator_pool (de_amount e) div total))) ds
                      in (Ok (), foldl add_delegator_reward r2 shares))"

fun pay_signers ::
  "stake_registry \<Rightarrow> u64 \<Rightarrow> u64 \<Rightarrow> (string \<times> u64) list \<Rightarrow> unit result \<times> stake_registry" where
  "pay_signers r total_reward total_signer_stake [] = (Ok (), r)"
| "pay_signers r total_reward total_signer_stake ((addr, signer_stake) # signers) =
    (if signer_stake = 0 then pay_signers r total_reward total_signer_stake signers
     else
       let signer_share = as_u64 (saturating_mul_u128 total_reward signer_stake div total_signer_stake)
       in if signer_share = 0 then pay_signers r total_reward total_signer_stake signers
          else case pay_one_signer r addr signer_share of
                 (Err e, r') \<Rightarrow> (Err e, r')
               | (Ok _, r') \<Rightarrow> pay_signers r' total_reward total_signer_stake signers)"

definition distribute_reward ::
  "stake_registry \<Rightarrow> string \<Rightarrow> (string \<times> u64) list \<Rightarrow> u64 \<Rightarrow> u64 \<Rightarrow> unit result \<times> stake_registry" where
  "distribute_reward r proposer signers block_reward validator_fee_share =
    (let total_reward = saturating_add_u64 block_reward validator_fee_share
     in if signers = [] then distribute_to_single_validator r proposer total_reward
        else
          let total_signer_stake = sum_u64 (map snd signers)
          in if total_signer_stake = 0 then distribute_to_single_validator r proposer total_reward
             else pay_signers r total_reward total_signer_stake signers)"

definition take_delegator_rewards :: "stake_registry \<Rightarrow> string \<Rightarrow> u64 \<times> stake_registry" where
  "take_delegator_rewards r delegator =
    (opt_val id (hget (delegator_rewards r) delegator),
     r\<lparr>delegator_rewards := hdel (delegator_rewards r) delegator\<rparr>)"

definition peek_delegator_rewards :: "stake_registry \<Rightarrow> string \<Rightarrow> u64" where
  "peek_delegator_rewards r delegator = opt_val id (hget (delegator_rewards r) delegator)"

section \<open>Unbonding and commission\<close>

definition process_unbonding :: "stake_registry \<Rightarrow> u64 \<Rightarrow> (string \<times> u64) list \<times> stake_registry" where
  "process_unbonding r current_height =
    (let matured_keys = filter (\<lambda>k. k \<le> current_height) (hkeys (unbonding_queue r))
     in foldl (\<lambda>(released, r) key.
          case hget (unbonding_queue r) key of
            Some entries \<Rightarrow>
              (released @ map (\<lambda>u. (ub_delegator u, ub_amount u)) entries,
               r\<lparr>unbonding_queue := hdel (unbonding_queue r) key\<rparr>)
          | None \<Rightarrow> (released, r)) ([], r) matured_keys)"

definition abs_diff :: "nat \<Rightarrow> nat \<Rightarrow> nat" where
  "abs_diff a b = (if a < b then b - a else a - b)"

definition update_commission ::
  "stake_registry \<Rightarrow> string \<Rightarrow> u16 \<Rightarrow> u64 \<Rightarrow> unit result \<times> stake_registry" where
  "update_commission r validator new_rate current_height =
    ok_or (hget (validators r) validator) (InvalidTransaction ''validator not found'') r (\<lambda>val.
      if \<not> (MIN_COMMISSION \<le> new_rate \<and> new_rate \<le> MAX_COMMISSION)
      then (Err (InvalidTransaction (''commission '' @ show_nat new_rate @ '' out of range ['' @
              show_nat MIN_COMMISSION @ '', '' @ show_nat MAX_COMMISSION @ '']'')), r)
      else if max_commission_rate val < new_rate
      then (Err (InvalidTransaction (''commission '' @ show_nat new_rate @ '' exceeds max '' @
              show_nat (max_commission_rate val))), r)
      else
        let diff = abs_diff new_rate (commission_rate val)
        in if MAX_COMMISSION_CHANGE_PER_EPOCH < diff
           then (Err (InvalidTransaction (''commission change '' @ show_nat diff @ '' exceeds max '' @
                   show_nat MAX_COMMISSION_CHANGE_PER_EPOCH @ '' per epoch'')), r)
           else if 0 < last_commission_change_height val \<and>
                   last_commission_change_height val div EPOCH_LENGTH = current_height div EPOCH_LENGTH
           then (Err (InvalidTransaction (''commission already changed in epoch '' @
                   show_nat (current_height div EPOCH_LENGTH) @ '' (at height '' @
                   show_nat (last_commission_change_height val) @ ''); at most one change per epoch'')), r)
           else (Ok (), put_validator r validator
                  (val\<lparr>commission_rate := new_rate, last_commission_change_height := current_height\<rparr>)))"

section \<open>Queries\<close>

definition get_delegations :: "stake_registry \<Rightarrow> string \<Rightarrow> delegation_entry list" where
  "get_delegations r delegator = (case hget (delegations r) delegator of Some es \<Rightarrow> es | None \<Rightarrow> [])"

definition get_pending_unbonding :: "stake_registry \<Rightarrow> string \<Rightarrow> unbonding_entry list" where
  "get_pending_unbonding r delegator =
    filter (\<lambda>u. ub_delegator u = delegator) (concat (hvalues (unbonding_queue r)))"

definition delegations_to :: "stake_registry \<Rightarrow> string \<Rightarrow> delegation_entry list" where
  "delegations_to r validator =
    filter (\<lambda>e. de_validator e = validator) (concat (hvalues (delegations r)))"

end
