(* ===== verification/Staking_Lemmas.thy ===== *)
theory Staking_Lemmas
  imports Staking
begin

text \<open>
  Facts about the data of the stake registry that its proofs share: sums of delegation entries under
  the updates the methods make, the unbonding queue as a sorted map, and the two nested loops of
  \<open>slash\<close>, which are shown to compute the same as a map over all entries.
\<close>

section \<open>Sums of delegation entries\<close>

definition del_amount :: "string \<Rightarrow> delegation_entry list \<Rightarrow> nat" where
  "del_amount v es = sum_list (map de_amount (filter (\<lambda>e. de_validator e = v) es))"

lemma del_amount_simps [simp]:
  "del_amount v [] = 0"
  "del_amount v (e # es) = (if de_validator e = v then de_amount e else 0) + del_amount v es"
  "del_amount v (es @ fs) = del_amount v es + del_amount v fs"
  by (simp_all add: del_amount_def)

lemma update_first_map [simp]:
  "(\<And>x. g (f x) = g x) \<Longrightarrow> map g (update_first p f xs) = map g xs"
  by (induction xs) auto

lemma update_first_length [simp]: "length (update_first p f xs) = length xs"
  by (induction xs) auto

lemma set_update_first:
  "x \<in> set (update_first p f xs) \<Longrightarrow> x \<in> set xs \<or> (\<exists>y \<in> set xs. p y \<and> x = f y)"
  by (induction xs) (auto split: if_splits)

lemma find_SomeD: "find p xs = Some x \<Longrightarrow> x \<in> set xs \<and> p x"
  by (induction xs) (auto split: if_splits)

lemma del_amount_update_first:
  assumes "find (\<lambda>e. de_validator e = v) es = Some e" and "\<And>e. de_validator (f e) = de_validator e"
  shows "del_amount w (update_first (\<lambda>e. de_validator e = v) f es) + (if w = v then de_amount e else 0) =
    del_amount w es + (if w = v then de_amount (f e) else 0)"
  using assms by (induction es) (auto split: if_splits)

lemma del_amount_filter_zero:
  "del_amount w (filter (\<lambda>e. de_validator e = v \<longrightarrow> 0 < de_amount e) es) = del_amount w es"
  by (induction es) auto

lemma del_amount_find_le:
  "find (\<lambda>e. de_validator e = v) es = Some e \<Longrightarrow> de_amount e \<le> del_amount v es"
  by (induction es) (auto split: if_splits)

lemma reduce_entry_amount:
  assumes "find (\<lambda>e. de_validator e = v) es = Some e" and "a \<le> de_amount e"
  shows "del_amount w (reduce_entry v a e es) + (if w = v then a else 0) = del_amount w es"
proof -
  let ?es1 = "update_first (\<lambda>e. de_validator e = v) (\<lambda>e. e\<lparr>de_amount := saturating_sub (de_amount e) a\<rparr>) es"
  have "del_amount w ?es1 + (if w = v then a else 0) = del_amount w es"
    using del_amount_update_first [OF assms(1), of "\<lambda>e. e\<lparr>de_amount := saturating_sub (de_amount e) a\<rparr>" w]
      assms(2) del_amount_find_le [OF assms(1)] by (auto split: if_splits)
  moreover have "del_amount w (reduce_entry v a e es) = del_amount w ?es1"
    by (simp add: reduce_entry_def del_amount_filter_zero)
  ultimately show ?thesis by simp
qed

lemma reduce_entry_set:
  assumes "x \<in> set (reduce_entry v a e es)"
  shows "\<exists>y \<in> set es. de_validator x = de_validator y \<and> de_delegator x = de_delegator y"
  using assms by (auto simp: reduce_entry_def split: if_splits dest!: set_update_first)

lemma reduce_entry_wf:
  assumes "distinct (map de_validator es)"
  shows "distinct (map de_validator (reduce_entry v a e es))" "length (reduce_entry v a e es) \<le> length es"
  using assms length_filter_le [of _ "update_first (\<lambda>e. de_validator e = v)
    (\<lambda>e. e\<lparr>de_amount := de_amount e - a\<rparr>) es"]
  by (auto simp: reduce_entry_def intro: distinct_map_filter)

section \<open>The unbonding queue as a sorted map\<close>

lemma keys_bt_put [simp]: "fst ` set (bt_put m k v) = insert k (fst ` set m)"
  by (induction m k v rule: bt_put.induct) auto

lemma hget_bt_put:
  assumes "sorted_wrt (<) (map fst m)"
  shows "hget (bt_put m k v) j = (if j = k then Some v else hget m j)"
  using assms by (induction m k v rule: bt_put.induct) auto

lemma sorted_bt_put:
  assumes "sorted_wrt (<) (map fst m)"
  shows "sorted_wrt (<) (map fst (bt_put m k v))"
  using assms
proof (induction m)
  case Nil
  then show ?case by simp
next
  case (Cons p m)
  obtain j w where p: "p = (j, w)" by (cases p)
  have "\<forall>i \<in> fst ` set (bt_put m k v). j < i" if "j < k"
    using Cons.prems that p by auto
  with Cons p show ?case by auto
qed

lemma map_sum_bt_put:
  assumes "sorted_wrt (<) (map fst m)"
  shows "map_sum f (bt_put m k v) + opt_val f (hget m k) = map_sum f m + f v"
  using assms
proof (induction m)
  case Nil
  then show ?case by simp
next
  case (Cons p m)
  obtain j w where p: "p = (j, w)" by (cases p)
  have "hget m k = None" if "k < j"
  proof -
    have "k \<notin> fst ` set m" using Cons.prems that p by auto
    then show ?thesis by (simp add: map_of_eq_None_iff)
  qed
  with Cons p show ?case by auto
qed

section \<open>The slashing loops\<close>

definition slashed_amount :: "u64 \<Rightarrow> u64 \<Rightarrow> u64 \<Rightarrow> u64" where
  "slashed_amount remaining den a = a - as_u64 (div_ceil (saturating_mul_u128 a remaining) den)"

definition slash_entry :: "string \<Rightarrow> u64 \<Rightarrow> u64 \<Rightarrow> delegation_entry \<Rightarrow> delegation_entry" where
  "slash_entry v remaining den e =
    (if de_validator e = v then e\<lparr>de_amount := slashed_amount remaining den (de_amount e)\<rparr> else e)"

lemma slash_entry_sel [simp]:
  "de_validator (slash_entry v r d e) = de_validator e"
  "de_delegator (slash_entry v r d e) = de_delegator e"
  by (simp_all add: slash_entry_def)

lemma slashed_amount_le: "slashed_amount r d a \<le> a"
  by (simp add: slashed_amount_def)

lemma del_amount_slash_le: "del_amount w (map (slash_entry v r d) es) \<le> del_amount w es"
  by (induction es) (auto simp: slash_entry_def intro: add_mono slashed_amount_le)

lemma slash_entries_eq:
  assumes "acc + del_amount v es \<le> U128_MAX"
  shows "slash_entries v r d es acc =
    (map (slash_entry v r d) es, acc + del_amount v (map (slash_entry v r d) es))"
  using assms
proof (induction es arbitrary: acc)
  case Nil
  then show ?case by simp
next
  case (Cons e es)
  show ?case
  proof (cases "de_validator e = v")
    case True
    let ?a = "slashed_amount r d (de_amount e)"
    have le: "acc + ?a + del_amount v es \<le> U128_MAX"
      using Cons.prems True slashed_amount_le [of r d "de_amount e"] by simp
    then have "saturating_add_u128 acc ?a = acc + ?a"
      by (simp add: saturating_add_u128_def)
    with Cons.IH [OF le] True show ?thesis
      by (simp add: slash_entry_def slashed_amount_def add.assoc)
  next
    case False
    with Cons show ?thesis by (simp add: slash_entry_def)
  qed
qed

lemma hput_in_place:
  assumes "wf_map m" and "hget m k = Some v"
  shows "hput m k w = map (\<lambda>(j, u). (j, if j = k then w else u)) m"
  using assms
proof (induction m)
  case Nil
  then show ?case by simp
next
  case (Cons p m)
  obtain j u where p: "p = (j, u)" by (cases p)
  show ?case
  proof (cases "j = k")
    case True
    with Cons.prems p have "k \<notin> fst ` set m" by (simp add: wf_map_def)
    then have "map (\<lambda>(j, u). (j, if j = k then w else u)) m = m"
      by (intro map_idI) (force split: prod.splits)
    with True p show ?thesis by simp
  next
    case False
    with Cons p show ?thesis by (simp add: wf_map_def)
  qed
qed

definition slash_map ::
  "string \<Rightarrow> u64 \<Rightarrow> u64 \<Rightarrow> (string, delegation_entry list) hmap \<Rightarrow> (string, delegation_entry list) hmap" where
  "slash_map v r d ds = map (\<lambda>(k, es). (k, map (slash_entry v r d) es)) ds"

lemma hget_slash_map: "hget (slash_map v r d ds) k = map_option (map (slash_entry v r d)) (hget ds k)"
  by (induction ds) (auto simp: slash_map_def)

lemma slash_map_keys [simp]: "map fst (slash_map v r d ds) = map fst ds"
  by (induction ds) (auto simp: slash_map_def)

lemma map_sum_slash_map:
  "map_sum (del_amount w) (slash_map v r d ds) = map_sum (del_amount w \<circ> map (slash_entry v r d)) ds"
  by (induction ds) (auto simp: slash_map_def)

lemma map_sum_mono: "(\<And>x. f x \<le> g x) \<Longrightarrow> map_sum f m \<le> map_sum g m"
  unfolding map_sum_def by (rule sum_list_mono) simp

lemma slash_loop_eq:
  fixes ds :: "(string, delegation_entry list) hmap"
  assumes "wf_map ds" and "distinct ks"
    and "acc + sum_list (map (\<lambda>k. opt_val (del_amount v) (hget ds k)) ks) \<le> U128_MAX"
  shows "foldl (\<lambda>(ds, acc) key.
        case hget ds key of
          Some entries \<Rightarrow>
            let (entries', acc') = slash_entries v r d entries acc in (hput ds key entries', acc')
        | None \<Rightarrow> (ds, acc)) (ds, acc) ks =
    (map (\<lambda>(k, es). (k, if k \<in> set ks then map (slash_entry v r d) es else es)) ds,
     acc + sum_list (map (\<lambda>k. opt_val (del_amount v \<circ> map (slash_entry v r d)) (hget ds k)) ks))"
  using assms
proof (induction ks arbitrary: ds acc)
  case Nil
  have "map (\<lambda>(k, es). (k, es)) ds = ds" by (intro map_idI) auto
  then show ?case by simp
next
  case (Cons k ks)
  show ?case
  proof (cases "hget ds k")
    case None
    then have "k \<notin> fst ` set ds" by (simp add: map_of_eq_None_iff)
    then have "map (\<lambda>(j, es). (j, if j = k \<or> j \<in> set ks then map (slash_entry v r d) es else es)) ds =
      map (\<lambda>(j, es). (j, if j \<in> set ks then map (slash_entry v r d) es else es)) ds"
      by (intro map_cong) (force split: prod.splits)+
    with None Cons show ?thesis by simp
  next
    case (Some es)
    let ?es = "map (slash_entry v r d) es" and ?ds = "hput ds k (map (slash_entry v r d) es)"
    have step: "slash_entries v r d es acc = (?es, acc + del_amount v ?es)"
      using Cons.prems(3) Some by (intro slash_entries_eq) simp
    have other: "hget ?ds j = hget ds j" if "j \<in> set ks" for j
      using that Cons.prems(2) by (auto simp: hget_hput)
    have sums: "map (\<lambda>j. opt_val g (hget ?ds j)) ks = map (\<lambda>j. opt_val g (hget ds j)) ks"
      for g :: "delegation_entry list \<Rightarrow> nat"
      by (intro map_cong) (simp_all add: other)
    have bound: "acc + del_amount v ?es +
      sum_list (map (\<lambda>j. opt_val (del_amount v) (hget ?ds j)) ks) \<le> U128_MAX"
      using Cons.prems(3) Some del_amount_slash_le [of v v r d es] unfolding sums by simp
    have merged: "map (\<lambda>(j, es). (j, if j \<in> set ks then map (slash_entry v r d) es else es)) ?ds =
      map (\<lambda>(j, es). (j, if j = k \<or> j \<in> set ks then map (slash_entry v r d) es else es)) ds"
    proof -
      have "es' = es" if "(k, es') \<in> set ds" for es'
        using that Some Cons.prems(1) by (simp add: set_wf_map)
      with Cons.prems(2) show ?thesis
        unfolding hput_in_place [OF Cons.prems(1) Some] by auto
    qed
    have "distinct ks" using Cons.prems(2) by simp
    from Cons.IH [OF wf_map_hput [OF Cons.prems(1)] this bound] show ?thesis
      using Some by (simp add: step merged sums add.assoc)
  qed
qed

lemma sum_over_keys:
  assumes "wf_map m"
  shows "sum_list (map (\<lambda>k. opt_val g (hget m k)) (hkeys m)) = map_sum g m"
proof -
  have "map ((\<lambda>k. opt_val g (hget m k)) \<circ> fst) m = map (g \<circ> snd) m"
    using assms by (intro map_cong) (auto simp: wf_map_def)
  then show ?thesis unfolding map_sum_def map_map by (rule arg_cong)
qed

lemma sum_over_sorted_keys:
  fixes m :: "('k :: linorder, 'v) hmap"
  assumes "wf_map m"
  shows "sum_list (map (\<lambda>k. opt_val g (hget m k)) (sort (hkeys m))) = map_sum g m"
proof -
  have "mset (map h (sort (hkeys m))) = mset (map h (hkeys m))" for h :: "'k \<Rightarrow> nat"
    unfolding mset_map mset_sort by (rule refl)
  then show ?thesis
    using sum_over_keys [OF assms, of g] by (metis sum_mset_sum_list)
qed

theorem slash_delegations_eq:
  assumes "wf_map ds" and "map_sum (del_amount v) ds \<le> U128_MAX"
  shows "slash_delegations v r d ds = (slash_map v r d ds, map_sum (del_amount v) (slash_map v r d ds))"
proof -
  have dist: "distinct (sort (hkeys ds))" using assms(1) by (simp add: wf_map_def)
  have all: "map (\<lambda>(k, es). (k, if k \<in> fst ` set ds then map (slash_entry v r d) es else es)) ds =
    slash_map v r d ds"
    unfolding slash_map_def by (intro map_cong) force+
  show ?thesis
    unfolding slash_delegations_def
    by (subst slash_loop_eq [OF assms(1) dist])
      (simp_all add: sum_over_sorted_keys [OF assms(1)] assms(2) all map_sum_slash_map)
qed

end
