(* ===== verification/Staking_Inv.thy ===== *)
theory Staking_Inv
  imports Staking_Lemmas
begin

text \<open>
  The invariant of the stake registry and its preservation: every validator's \<open>total_delegated\<close> is the
  sum of the delegation entries that name it, entries are well formed, commissions stay within
  bounds, tombstoned validators are jailed, and the active set holds eligible validators only.
\<close>

section \<open>The invariant\<close>

definition val_ok :: "string \<Rightarrow> validator_stake \<Rightarrow> bool" where
  "val_ok k val \<longleftrightarrow>
    vs_address val = k \<and> self_stake val \<le> U64_MAX \<and> total_delegated val \<le> U64_MAX \<and>
    MIN_COMMISSION \<le> commission_rate val \<and> commission_rate val \<le> max_commission_rate val \<and>
    max_commission_rate val \<le> MAX_COMMISSION \<and> (is_tombstoned val \<longrightarrow> is_jailed val)"

definition entries_ok :: "(string, validator_stake) hmap \<Rightarrow> string \<Rightarrow> delegation_entry list \<Rightarrow> bool" where
  "entries_ok vs k es \<longleftrightarrow>
    length es \<le> MAX_DELEGATIONS_PER_ACCOUNT \<and> distinct (map de_validator es) \<and>
    (\<forall>e \<in> set es. de_delegator e = k \<and> hget vs (de_validator e) \<noteq> None)"

definition queue_ok :: "(u64, unbonding_entry list) hmap \<Rightarrow> bool" where
  "queue_ok q \<longleftrightarrow> sorted_wrt (<) (map fst q) \<and>
    (\<forall>k us. hget q k = Some us \<longrightarrow> (\<forall>u \<in> set us. ub_completion_height u = k))"

definition vals_ok :: "stake_registry \<Rightarrow> bool" where
  "vals_ok r \<longleftrightarrow> wf_map (validators r) \<and>
    (\<forall>k val. hget (validators r) k = Some val \<longrightarrow>
      val_ok k val \<and> total_delegated val = map_sum (del_amount k) (delegations r))"

definition dels_ok :: "stake_registry \<Rightarrow> bool" where
  "dels_ok r \<longleftrightarrow> wf_map (delegations r) \<and>
    (\<forall>k es. hget (delegations r) k = Some es \<longrightarrow> entries_ok (validators r) k es)"

definition active_ok :: "stake_registry \<Rightarrow> bool" where
  "active_ok r \<longleftrightarrow>
    (\<forall>a \<in> set (active_set r). \<exists>val. hget (validators r) a = Some val \<and> is_active_eligible val)"

definition reg_core :: "stake_registry \<Rightarrow> bool" where
  "reg_core r \<longleftrightarrow> vals_ok r \<and> dels_ok r \<and> queue_ok (unbonding_queue r)"

definition reg_inv :: "stake_registry \<Rightarrow> bool" where
  "reg_inv r \<longleftrightarrow> reg_core r \<and> active_ok r"

lemma val_ok_total:
  "val_ok k val \<Longrightarrow> t \<le> U64_MAX \<Longrightarrow> val_ok k (val\<lparr>total_delegated := t\<rparr>)"
  "val_ok k val \<Longrightarrow> val_ok k (val\<lparr>total_delegated := total_delegated val - a\<rparr>)"
  by (auto simp: val_ok_def)

lemmas reg_defs = reg_inv_def reg_core_def vals_ok_def dels_ok_def active_ok_def

lemma reg_coreD:
  assumes "reg_core r"
  shows "wf_map (validators r)" "wf_map (delegations r)" "queue_ok (unbonding_queue r)"
    "hget (validators r) k = Some val \<Longrightarrow> val_ok k val"
    "hget (validators r) k = Some val \<Longrightarrow> total_delegated val = map_sum (del_amount k) (delegations r)"
    "hget (delegations r) d = Some es \<Longrightarrow> entries_ok (validators r) d es"
  using assms by (auto simp: reg_defs)

lemma reg_inv_new: "reg_inv StakeRegistry_new"
  by (simp add: reg_defs StakeRegistry_new_def queue_ok_def)

lemma compute_active_set_eligible:
  assumes "vals_ok r" and "a \<in> set (compute_active_set r)"
  shows "\<exists>val. hget (validators r) a = Some val \<and> is_active_eligible val"
proof -
  from assms(2) obtain val where "vs_address val = a" "is_active_eligible val" "val \<in> set (hvalues (validators r))"
    by (auto simp: compute_active_set_def dest!: in_set_takeD)
  with assms(1) show ?thesis
    by (auto simp: vals_ok_def val_ok_def set_hvalues simp del: set_map)
qed

lemma active_ok_mono:
  assumes "active_ok r" and "active_set r' = active_set r"
    and "\<And>k val. hget (validators r) k = Some val \<Longrightarrow> is_active_eligible val \<Longrightarrow>
      \<exists>val'. hget (validators r') k = Some val' \<and> is_active_eligible val'"
  shows "active_ok r'"
  using assms unfolding active_ok_def by metis

lemma reg_inv_refresh: "reg_core r \<Longrightarrow> reg_inv (update_active_set r)"
proof -
  assume core: "reg_core r"
  have "vals_ok r" using core by (simp add: reg_core_def)
  from compute_active_set_eligible [OF this] core show ?thesis
    by (simp add: reg_defs update_active_set_def)
qed

text \<open>One validator's record changes and its delegated total does not.\<close>

lemma reg_core_put_validator:
  assumes "reg_core r" and "hget (validators r) v = Some val"
    and "val_ok v val'" and "total_delegated val' = total_delegated val"
  shows "reg_core (put_validator r v val')"
  using assms by (auto simp: reg_defs hget_hput entries_ok_def)

lemma active_ok_put_validator:
  assumes "active_ok r" and "hget (validators r) v = Some val"
    and "is_active_eligible val \<Longrightarrow> is_active_eligible val'"
  shows "active_ok (put_validator r v val')"
  using assms by (fastforce simp: active_ok_def hget_hput)

text \<open>
  One delegator's entries change, and each validator's total by the same amount: what \<open>delegate\<close>,
  \<open>undelegate\<close> and \<open>redelegate\<close> do.
\<close>

lemma reg_core_move:
  assumes "reg_core r" and "wf_map vs" and "entries_ok vs d es"
    and dom: "\<And>k. hget vs k = None \<longleftrightarrow> hget (validators r) k = None"
    and vals: "\<And>k val'. hget vs k = Some val' \<Longrightarrow> \<exists>val. hget (validators r) k = Some val \<and> val_ok k val' \<and>
      total_delegated val' + opt_val (del_amount k) (hget (delegations r) d) =
      total_delegated val + del_amount k es"
  shows "reg_core (r\<lparr>validators := vs, delegations := hput (delegations r) d es\<rparr>)"
proof -
  have "total_delegated val' = map_sum (del_amount k) (hput (delegations r) d es)"
    if "hget vs k = Some val'" for k val'
  proof -
    from vals [OF that] obtain val where "hget (validators r) k = Some val"
      and eq: "total_delegated val' + opt_val (del_amount k) (hget (delegations r) d) =
        total_delegated val + del_amount k es" by blast
    then have "total_delegated val = map_sum (del_amount k) (delegations r)"
      using assms(1) by (simp add: reg_coreD)
    with eq map_sum_hput [of "del_amount k" d es "delegations r"] show ?thesis by simp
  qed
  with assms show ?thesis
    by (fastforce simp: reg_defs hget_hput entries_ok_def)
qed

section \<open>Preservation by the operations\<close>

lemma register_validator_inv:
  assumes "reg_inv r" and "s \<le> U64_MAX" and "register_validator r a s c h = (Ok u, r')"
  shows "reg_inv r'"
proof -
  obtain val where new: "hget (validators r) a = None" and r': "r' = put_validator r a val"
    and val: "vs_address val = a" "self_stake val = s" "total_delegated val = 0" "commission_rate val = c"
      "max_commission_rate val = min (saturating_add_u16 c (MAX_COMMISSION_CHANGE_PER_EPOCH * 5)) MAX_COMMISSION"
      "\<not> is_jailed val" "\<not> is_tombstoned val"
    and c: "MIN_COMMISSION \<le> c" "c \<le> MAX_COMMISSION"
    using assms(3) by (auto simp: register_validator_def split: if_splits)
  have zero: "map_sum (del_amount a) (delegations r) = 0"
  proof -
    have "del_amount a es = 0" if "(k, es) \<in> set (delegations r)" for k es
    proof -
      have "hget (delegations r) k = Some es"
        using that assms(1) by (simp add: reg_defs set_wf_map)
      then have "\<forall>e \<in> set es. de_validator e \<noteq> a"
        using assms(1) new by (fastforce simp: reg_defs entries_ok_def)
      then show ?thesis by (simp add: del_amount_def filter_False)
    qed
    then show ?thesis by (auto simp: map_sum_def)
  qed
  have "c \<le> max_commission_rate val"
    using c val(5) by (simp add: saturating_add_u16_def MAX_COMMISSION_def MAX_COMMISSION_CHANGE_PER_EPOCH_def U16_MAX_def)
  with val c assms(2) have "val_ok a val" by (simp add: val_ok_def)
  with assms(1) new zero val(3) show ?thesis
    unfolding r' by (auto simp: reg_defs hget_hput entries_ok_def)
qed

lemma add_self_stake_inv:
  assumes "reg_inv r" and "add_self_stake r v a = (Ok u, r')"
  shows "reg_inv r'"
proof -
  obtain val where val: "hget (validators r) v = Some val" and le: "self_stake val + a \<le> U64_MAX"
    and r': "r' = put_validator r v (val\<lparr>self_stake := self_stake val + a\<rparr>)"
    using assms(2) by (auto simp: add_self_stake_def split: if_splits ok_or_splits)
  let ?val = "val\<lparr>self_stake := self_stake val + a\<rparr>"
  have "val_ok v ?val" "is_active_eligible val \<Longrightarrow> is_active_eligible ?val"
    using reg_coreD(4) [of r v val] assms(1) val le
    by (auto simp: val_ok_def is_active_eligible_def reg_inv_def)
  with assms(1) val show ?thesis
    unfolding r' reg_inv_def by (auto intro: reg_core_put_validator active_ok_put_validator)
qed

lemma delegate_Ok:
  assumes "reg_core r" and "delegate r d v a h = (Ok u, r')"
  obtains val es where "hget (validators r) v = Some val" and "\<not> is_tombstoned val" and "0 < a"
    and "total_delegated val + a \<le> U64_MAX"
    and "r' = r\<lparr>validators := hput (validators r) v (val\<lparr>total_delegated := total_delegated val + a\<rparr>),
                delegations := hput (delegations r) d es\<rparr>"
    and "entries_ok (validators r) d es"
    and "\<And>w. del_amount w es = opt_val (del_amount w) (hget (delegations r) d) + (if w = v then a else 0)"
proof -
  define es0 where "es0 = (case hget (delegations r) d of Some es \<Rightarrow> es | None \<Rightarrow> [])"
  have ok0: "entries_ok (validators r) d es0"
    using reg_coreD(6) [OF assms(1)] by (auto simp: es0_def entries_ok_def split: option.splits)
  have sum0: "opt_val (del_amount w) (hget (delegations r) d) = del_amount w es0" for w
    by (simp add: es0_def split: option.splits)
  obtain val where val: "hget (validators r) v = Some val" "\<not> is_tombstoned val" "0 < a"
    using assms(2) by (auto simp: delegate_def split: if_splits ok_or_splits)
  show thesis
  proof (cases "find (\<lambda>e. de_validator e = v) es0")
    case None
    let ?es = "es0 @ [\<lparr>de_delegator = d, de_validator = v, de_amount = a, de_height = h\<rparr>]"
    have "length es0 < MAX_DELEGATIONS_PER_ACCOUNT"
      using None val assms(2) by (simp add: delegate_def es0_def [symmetric] split: if_splits)
    with ok0 None val have "entries_ok (validators r) d ?es"
      by (auto simp: entries_ok_def find_None_iff)
    with None val assms(2) show thesis
      by (intro that [of val ?es])
        (auto simp: delegate_def delegate_total_def sum0 es0_def [symmetric] split: if_splits ok_or_splits)
  next
    case (Some e)
    let ?es = "update_first (\<lambda>e. de_validator e = v) (\<lambda>e'. e'\<lparr>de_amount := de_amount e + a\<rparr>) es0"
    have "entries_ok (validators r) d ?es"
      using ok0 by (auto simp: entries_ok_def dest!: set_update_first)
    moreover have "del_amount w ?es = del_amount w es0 + (if w = v then a else 0)" for w
      using del_amount_update_first [OF Some, of "\<lambda>e'. e'\<lparr>de_amount := de_amount e + a\<rparr>" w]
      by (auto split: if_splits)
    ultimately show thesis
      using Some val assms(2)
      by (intro that [of val ?es])
        (auto simp: delegate_def delegate_total_def sum0 es0_def [symmetric] split: if_splits ok_or_splits)
  qed
qed

lemma delegate_inv:
  assumes "reg_inv r" and "delegate r d v a h = (Ok u, r')"
  shows "reg_inv r'"
proof -
  have core: "reg_core r" using assms(1) by (simp add: reg_inv_def)
  from delegate_Ok [OF core assms(2)] obtain val es where
    val: "hget (validators r) v = Some val" and le: "total_delegated val + a \<le> U64_MAX"
    and r': "r' = r\<lparr>validators := hput (validators r) v (val\<lparr>total_delegated := total_delegated val + a\<rparr>),
                delegations := hput (delegations r) d es\<rparr>"
    and es: "entries_ok (validators r) d es"
    and sum: "\<And>w. del_amount w es = opt_val (del_amount w) (hget (delegations r) d) + (if w = v then a else 0)"
    by metis
  let ?vs = "hput (validators r) v (val\<lparr>total_delegated := total_delegated val + a\<rparr>)"
  have "reg_core r'" unfolding r'
  proof (rule reg_core_move [OF core])
    show "wf_map ?vs" using reg_coreD(1) [OF core] by simp
    show "entries_ok ?vs d es" using es by (auto simp: entries_ok_def hget_hput)
    show "hget ?vs k = None \<longleftrightarrow> hget (validators r) k = None" for k
      using val by (simp add: hget_hput)
    show "\<exists>val. hget (validators r) k = Some val \<and> val_ok k val' \<and>
      total_delegated val' + opt_val (del_amount k) (hget (delegations r) d) =
      total_delegated val + del_amount k es" if "hget ?vs k = Some val'" for k val'
      using that val le by (auto simp: hget_hput sum intro: val_ok_total reg_coreD(4) [OF core] split: if_splits)
  qed
  moreover have "active_ok r'"
    using assms(1) val unfolding r' by (fastforce simp: reg_inv_def active_ok_def hget_hput is_active_eligible_def)
  ultimately show ?thesis by (simp add: reg_inv_def)
qed

lemma entries_ok_hput: "entries_ok vs d es \<Longrightarrow> entries_ok (hput vs v val) d es"
  by (auto simp: entries_ok_def hget_hput)

lemma reg_core_cooldown: "reg_core r \<Longrightarrow> reg_core (r\<lparr>redelegate_cooldowns := c\<rparr>)"
  by (simp add: reg_defs)

lemma reg_core_queue:
  "reg_core r \<Longrightarrow> queue_ok q \<Longrightarrow> reg_core (r\<lparr>unbonding_queue := q\<rparr>)"
  by (simp add: reg_defs)

lemma queue_ok_push:
  assumes "queue_ok q" and "ub_completion_height x = k"
    and "us = (case hget q k of Some us \<Rightarrow> us | None \<Rightarrow> [])"
  shows "queue_ok (bt_put q k (us @ [x]))"
  using assms by (auto simp: queue_ok_def sorted_bt_put hget_bt_put split: option.splits)

lemma reduce_entry_ok:
  assumes "entries_ok vs d es"
  shows "entries_ok vs d (reduce_entry v a e es)"
  using assms reduce_entry_wf [of es v a e] reduce_entry_set [of _ v a e es]
  by (fastforce simp: entries_ok_def)

lemma undelegate_Ok:
  assumes "reg_core r" and "undelegate r d v a h = (Ok u, r')"
  obtains val es0 es us where "hget (validators r) v = Some val" and "0 < a" and "a \<le> total_delegated val"
    and "hget (delegations r) d = Some es0" and "entries_ok (validators r) d es"
    and "\<And>w. del_amount w es + (if w = v then a else 0) = del_amount w es0"
    and "us = (case hget (unbonding_queue r) (saturating_add_u64 h UNBONDING_PERIOD) of Some us \<Rightarrow> us | None \<Rightarrow> [])"
    and "r' = r\<lparr>validators := hput (validators r) v (val\<lparr>total_delegated := total_delegated val - a\<rparr>),
               delegations := hput (delegations r) d es,
               unbonding_queue := bt_put (unbonding_queue r) (saturating_add_u64 h UNBONDING_PERIOD)
                 (us @ [\<lparr>ub_delegator = d, ub_validator = v, ub_amount = a,
                         ub_completion_height = saturating_add_u64 h UNBONDING_PERIOD\<rparr>])\<rparr>"
proof -
  obtain es0 e where es0: "hget (delegations r) d = Some es0"
    and e: "find (\<lambda>e. de_validator e = v) es0 = Some e" "a \<le> de_amount e" and a: "0 < a"
    using assms(2) by (auto simp: undelegate_def split: if_splits ok_or_splits)
  obtain val where val: "hget (validators r) v = Some val"
    using assms(2) es0 e a
    by (auto simp: undelegate_def split: if_splits prod.splits ok_or_splits)
  have "del_amount v es0 \<le> map_sum (del_amount v) (delegations r)"
    using map_sum_hget_le [of "del_amount v" "delegations r" d] es0 by simp
  with reg_coreD(5) [OF assms(1) val] del_amount_find_le [OF e(1)] e(2)
  have le: "a \<le> total_delegated val" by simp
  show thesis
    using assms(2) es0 e a val
    by (intro that [OF val a le es0 reduce_entry_ok [OF reg_coreD(6) [OF assms(1) es0]]
          reduce_entry_amount [OF e] refl])
      (auto simp: undelegate_def split: if_splits prod.splits)
qed

lemma undelegate_inv:
  assumes "reg_inv r" and "undelegate r d v a h = (Ok u, r')"
  shows "reg_inv r'"
proof -
  have core: "reg_core r" using assms(1) by (simp add: reg_inv_def)
  show ?thesis
  proof (rule undelegate_Ok [OF core assms(2)])
    fix val es0 es us
    let ?c = "saturating_add_u64 h UNBONDING_PERIOD"
    let ?vs = "hput (validators r) v (val\<lparr>total_delegated := total_delegated val - a\<rparr>)"
    let ?q = "bt_put (unbonding_queue r) ?c (us @ [\<lparr>ub_delegator = d, ub_validator = v, ub_amount = a,
      ub_completion_height = ?c\<rparr>])"
    assume val: "hget (validators r) v = Some val" and le: "a \<le> total_delegated val"
      and es0: "hget (delegations r) d = Some es0" and es: "entries_ok (validators r) d es"
      and sum: "\<And>w. del_amount w es + (if w = v then a else 0) = del_amount w es0"
      and us: "us = (case hget (unbonding_queue r) ?c of Some us \<Rightarrow> us | None \<Rightarrow> [])"
      and r': "r' = r\<lparr>validators := ?vs, delegations := hput (delegations r) d es, unbonding_queue := ?q\<rparr>"
    have "reg_core (r\<lparr>validators := ?vs, delegations := hput (delegations r) d es\<rparr>)"
    proof (rule reg_core_move [OF core])
      show "wf_map ?vs" using reg_coreD(1) [OF core] by simp
      show "entries_ok ?vs d es" using es by (auto simp: entries_ok_def hget_hput)
      show "hget ?vs k = None \<longleftrightarrow> hget (validators r) k = None" for k
        using val by (simp add: hget_hput)
      show "\<exists>val. hget (validators r) k = Some val \<and> val_ok k val' \<and>
        total_delegated val' + opt_val (del_amount k) (hget (delegations r) d) =
        total_delegated val + del_amount k es" if "hget ?vs k = Some val'" for k val'
        using that val le sum [of k] es0
        by (auto simp: hget_hput intro: val_ok_total reg_coreD(4) [OF core] split: if_splits)
    qed
    moreover have "queue_ok ?q"
      using queue_ok_push [OF reg_coreD(3) [OF core] _ us] by simp
    ultimately have "reg_core r'"
      unfolding r' using reg_core_queue by fastforce
    moreover have "active_ok r'"
      using assms(1) val unfolding r' by (fastforce simp: reg_inv_def active_ok_def hget_hput is_active_eligible_def)
    ultimately show "reg_inv r'" by (simp add: reg_inv_def)
  qed
qed

lemma redelegate_Ok:
  assumes "reg_core r" and "redelegate r d f t a h = (Ok u, r')"
  obtains vf vt es0 es where "f \<noteq> t" and "0 < a" and "hget (validators r) f = Some vf" and "hget (validators r) t = Some vt"
    and "\<not> is_tombstoned vt" and "a \<le> total_delegated vf" and "total_delegated vt + a \<le> U64_MAX"
    and "hget (delegations r) d = Some es0" and "entries_ok (validators r) d es"
    and "\<And>w. del_amount w es + (if w = f then a else 0) = del_amount w es0 + (if w = t then a else 0)"
    and "r' = r\<lparr>validators := hput (hput (validators r) f (vf\<lparr>total_delegated := total_delegated vf - a\<rparr>)) t
                 (vt\<lparr>total_delegated := total_delegated vt + a\<rparr>),
               delegations := hput (delegations r) d es,
               redelegate_cooldowns := hput (redelegate_cooldowns r) d (saturating_add_u64 h REDELEGATE_COOLDOWN)\<rparr>"
proof -
  have ft: "f \<noteq> t" "0 < a" using assms(2) by (auto simp: redelegate_def split: if_splits)
  have cool: "\<not> (case hget (redelegate_cooldowns r) d of Some lst \<Rightarrow> h < lst | None \<Rightarrow> False)"
    using assms(2) ft by (auto simp: redelegate_def split: if_splits)
  obtain vt where vt: "hget (validators r) t = Some vt" "\<not> is_tombstoned vt"
    using assms(2) ft cool by (auto simp: redelegate_def split: if_splits)
  note red = assms(2) [unfolded redelegate_def, simplified ft cool vt, simplified]
  obtain es0 e where es0: "hget (delegations r) d = Some es0"
    and e: "find (\<lambda>e. de_validator e = f) es0 = Some e" "a \<le> de_amount e"
    using red by (auto split: if_splits ok_or_splits)
  have ok0: "entries_ok (validators r) d es0" by (rule reg_coreD(6) [OF assms(1) es0])
  obtain vf where vf: "hget (validators r) f = Some vf"
    using ok0 find_SomeD [OF e(1)] by (auto simp: entries_ok_def)
  have "del_amount f es0 \<le> map_sum (del_amount f) (delegations r)"
    using map_sum_hget_le [of "del_amount f" "delegations r" d] es0 by simp
  with reg_coreD(5) [OF assms(1) vf] del_amount_find_le [OF e(1)] e(2)
  have le: "a \<le> total_delegated vf" by simp
  define es1 where "es1 = reduce_entry f a e es0"
  have ok1: "entries_ok (validators r) d es1" unfolding es1_def by (rule reduce_entry_ok [OF ok0])
  have sum1: "del_amount w es1 + (if w = f then a else 0) = del_amount w es0" for w
    unfolding es1_def by (rule reduce_entry_amount [OF e])
  note red1 = red [simplified es0 e vf es1_def [symmetric] ok_or_simps not_less, simplified]
  show thesis
  proof (cases "find (\<lambda>e. de_validator e = t) es1")
    case None
    let ?es = "es1 @ [\<lparr>de_delegator = d, de_validator = t, de_amount = a, de_height = h\<rparr>]"
    have len: "length es1 < MAX_DELEGATIONS_PER_ACCOUNT"
      using red1 None ft by (simp split: if_splits)
    with ok1 None vt have ok: "entries_ok (validators r) d ?es"
      by (auto simp: entries_ok_def find_None_iff)
    have sum: "del_amount w ?es + (if w = f then a else 0) = del_amount w es0 + (if w = t then a else 0)" for w
      using sum1 [of w] by auto
    show thesis
      using red1 None len ft vt vf
      by (intro that [OF ft vf vt le _ es0 ok sum])
        (auto simp: redelegate_finish_def hget_hput split: if_splits ok_or_splits)
  next
    case (Some e1)
    let ?es = "update_first (\<lambda>e. de_validator e = t) (\<lambda>e'. e'\<lparr>de_amount := de_amount e1 + a\<rparr>) es1"
    have ok: "entries_ok (validators r) d ?es"
      using ok1 by (auto simp: entries_ok_def dest!: set_update_first)
    have sum: "del_amount w ?es + (if w = f then a else 0) = del_amount w es0 + (if w = t then a else 0)" for w
      using del_amount_update_first [OF Some, of "\<lambda>e'. e'\<lparr>de_amount := de_amount e1 + a\<rparr>" w] sum1 [of w]
      by (auto split: if_splits)
    show thesis
      using red1 Some ft vt vf
      by (intro that [OF ft vf vt le _ es0 ok sum])
        (auto simp: redelegate_finish_def hget_hput split: if_splits ok_or_splits)
  qed
qed

lemma redelegate_inv:
  assumes "reg_inv r" and "redelegate r d f t a h = (Ok u, r')"
  shows "reg_inv r'"
proof -
  have core: "reg_core r" using assms(1) by (simp add: reg_inv_def)
  show ?thesis
  proof (rule redelegate_Ok [OF core assms(2)])
    fix vf vt es0 es
    let ?vs = "hput (hput (validators r) f (vf\<lparr>total_delegated := total_delegated vf - a\<rparr>)) t
      (vt\<lparr>total_delegated := total_delegated vt + a\<rparr>)"
    let ?r = "r\<lparr>validators := ?vs, delegations := hput (delegations r) d es\<rparr>"
    assume ft: "f \<noteq> t" and vf: "hget (validators r) f = Some vf" and vt: "hget (validators r) t = Some vt"
      and le: "a \<le> total_delegated vf" "total_delegated vt + a \<le> U64_MAX"
      and es0: "hget (delegations r) d = Some es0" and es: "entries_ok (validators r) d es"
      and sum: "\<And>w. del_amount w es + (if w = f then a else 0) = del_amount w es0 + (if w = t then a else 0)"
      and r': "r' = r\<lparr>validators := ?vs, delegations := hput (delegations r) d es,
        redelegate_cooldowns := hput (redelegate_cooldowns r) d (saturating_add_u64 h REDELEGATE_COOLDOWN)\<rparr>"
    have "reg_core ?r"
    proof (rule reg_core_move [OF core])
      show "wf_map ?vs" using reg_coreD(1) [OF core] by simp
      show "entries_ok ?vs d es" using es by (intro entries_ok_hput)
      show "hget ?vs k = None \<longleftrightarrow> hget (validators r) k = None" for k
        using vf vt by (simp add: hget_hput)
      show "\<exists>val. hget (validators r) k = Some val \<and> val_ok k val' \<and>
        total_delegated val' + opt_val (del_amount k) (hget (delegations r) d) =
        total_delegated val + del_amount k es" if upd: "hget ?vs k = Some val'" for k val'
      proof -
        consider (to) "k = t" "val' = vt\<lparr>total_delegated := total_delegated vt + a\<rparr>"
          | (src) "k = f" "val' = vf\<lparr>total_delegated := total_delegated vf - a\<rparr>"
          | (other) "k \<noteq> t" "k \<noteq> f" "hget (validators r) k = Some val'"
          using upd by (auto simp: hget_hput split: if_splits)
        then show ?thesis
        proof cases
          case to
          with sum [of k] es0 vt ft val_ok_total(1) [OF reg_coreD(4) [OF core vt] le(2)]
          show ?thesis by simp
        next
          case src
          with sum [of k] es0 vf ft le(1) val_ok_total(2) [OF reg_coreD(4) [OF core vf]]
          show ?thesis by simp
        next
          case other
          with sum [of k] es0 reg_coreD(4) [OF core other(3)] show ?thesis by simp
        qed
      qed
    qed
    moreover have "active_ok r'"
    proof (rule active_ok_mono)
      show "active_ok r" using assms(1) by (simp add: reg_inv_def)
      show "active_set r' = active_set r" unfolding r' by simp
      show "\<exists>val'. hget (validators r') k = Some val' \<and> is_active_eligible val'"
        if "hget (validators r) k = Some val" "is_active_eligible val" for k val
        using that vf vt unfolding r'
        by (cases "k = t"; cases "k = f") (simp_all add: hget_hput is_active_eligible_def)
    qed
    ultimately show "reg_inv r'"
      using reg_core_cooldown [of ?r] unfolding reg_inv_def r' by simp
  qed
qed

text \<open>What \<open>slash\<close> leaves, with its loops replaced by the map over all entries.\<close>

lemma slash_Ok:
  assumes "reg_core r" and "slash r v bp = (Ok amt, r')"
  obtains val rem ds where "hget (validators r) v = Some val"
    and "amt = as_u64 (total_stake val * bp div 10000)" and "rem = amt - min amt (self_stake val)"
    and "ds = (if 0 < rem \<and> 0 < total_delegated val then slash_map v rem (total_delegated val) (delegations r)
               else delegations r)"
    and "r' = update_active_set (r\<lparr>validators := hput (validators r) v
                 (val\<lparr>self_stake := self_stake val - min amt (self_stake val),
                      total_delegated := map_sum (del_amount v) ds\<rparr>),
               delegations := ds, unbonding_queue := slash_unbonding v bp (unbonding_queue r)\<rparr>)"
proof -
  obtain val where val: "hget (validators r) v = Some val" and le: "total_stake val * bp \<le> U128_MAX"
    using assms(2) by (auto simp: slash_def split: ok_or_splits)
  have tot: "total_delegated val = map_sum (del_amount v) (delegations r)" "total_delegated val \<le> U64_MAX"
    using reg_coreD(4,5) [OF assms(1) val] by (simp_all add: val_ok_def)
  have big: "U64_MAX \<le> U128_MAX" by (simp add: U64_MAX_def U128_MAX_def)
  have eq: "slash_delegations v rem den (delegations r) =
      (slash_map v rem den (delegations r), map_sum (del_amount v) (slash_map v rem den (delegations r)))"
    for rem den
    using tot big reg_coreD(2) [OF assms(1)] by (intro slash_delegations_eq) auto
  have "map_sum (del_amount v) (slash_map v rem den (delegations r)) \<le> map_sum (del_amount v) (delegations r)"
    for rem den
    unfolding map_sum_slash_map by (rule map_sum_mono) (simp add: del_amount_slash_le)
  then have fits: "map_sum (del_amount v) (slash_map v rem den (delegations r)) \<le> U64_MAX" for rem den
    using tot by (metis le_trans)
  define amt' where "amt' = as_u64 (total_stake val * bp div 10000)"
  define rem where "rem = amt' - min amt' (self_stake val)"
  have checked: "checked_mul_u128 (total_stake val) bp = Some (total_stake val * bp)"
    using le by simp
  note run = assms(2) [unfolded slash_def val checked ok_or_simps Let_def amt'_def [symmetric]]
  have amt: "amt = amt'"
    using run by (simp add: case_prod_beta)
  note fits = that [OF val amt [unfolded amt'_def] refl refl] fits
  show thesis
  proof (cases "0 < rem \<and> 0 < total_delegated val")
    case True
    then show thesis
      using run by (intro fits(1)) (simp add: amt rem_def eq fits(2))
  next
    case False
    have "val\<lparr>self_stake := s, total_delegated := map_sum (del_amount v) (delegations r)\<rparr> = val\<lparr>self_stake := s\<rparr>" for s
      using tot(1) by (cases val) simp
    with False show thesis
      using run by (intro fits(1), cases "rem = 0") (simp_all add: amt rem_def)
  qed
qed

lemma queue_ok_slash: "queue_ok q \<Longrightarrow> queue_ok (slash_unbonding v bp q)"
proof -
  assume ok: "queue_ok q"
  have keys: "map fst (slash_unbonding v bp q) = map fst q"
    by (auto simp: slash_unbonding_def)
  have "hget (slash_unbonding v bp q) k = map_option (map (\<lambda>u.
      if ub_validator u = v then u\<lparr>ub_amount := ub_amount u - as_u64 (saturating_mul_u128 (ub_amount u) bp div 10000)\<rparr>
      else u)) (hget q k)" for k
    unfolding slash_unbonding_def by (induction q) auto
  with ok show ?thesis
    unfolding queue_ok_def keys by (auto split: if_splits)
qed

lemma slash_map_other: "w \<noteq> v \<Longrightarrow> map_sum (del_amount w) (slash_map v r d ds) = map_sum (del_amount w) ds"
proof -
  assume ne: "w \<noteq> v"
  have "del_amount w (map (slash_entry v r d) es) = del_amount w es" for es
    using ne by (induction es) (auto simp: slash_entry_def)
  then have "del_amount w \<circ> map (slash_entry v r d) = del_amount w" by auto
  then show ?thesis by (simp add: map_sum_slash_map)
qed

lemma entries_ok_slash: "entries_ok vs k es \<Longrightarrow> entries_ok vs k (map (slash_entry v r d) es)"
  by (auto simp: entries_ok_def comp_def)

lemma slash_inv:
  assumes "reg_inv r" and "slash r v bp = (Ok amt, r')"
  shows "reg_inv r'"
proof -
  have core: "reg_core r" using assms(1) by (simp add: reg_inv_def)
  show ?thesis
  proof (rule slash_Ok [OF core assms(2)])
    fix val :: validator_stake and rem and ds :: "(string, delegation_entry list) hmap"
    let ?val = "val\<lparr>self_stake := self_stake val - min amt (self_stake val), total_delegated := map_sum (del_amount v) ds\<rparr>"
    let ?r = "r\<lparr>validators := hput (validators r) v ?val, delegations := ds,
      unbonding_queue := slash_unbonding v bp (unbonding_queue r)\<rparr>"
    assume val: "hget (validators r) v = Some val"
      and ds: "ds = (if 0 < rem \<and> 0 < total_delegated val
        then slash_map v rem (total_delegated val) (delegations r) else delegations r)"
      and r': "r' = update_active_set ?r"
    have le: "map_sum (del_amount v) ds \<le> map_sum (del_amount v) (delegations r)"
      unfolding ds by (auto simp: map_sum_slash_map del_amount_slash_le intro: map_sum_mono)
    have other: "map_sum (del_amount w) ds = map_sum (del_amount w) (delegations r)" if "w \<noteq> v" for w
      unfolding ds using that by (simp add: slash_map_other)
    have "val_ok v ?val"
      using reg_coreD(4,5) [OF core val] le by (auto simp: val_ok_def)
    then have "vals_ok ?r"
      using reg_coreD(1,4,5) [OF core] other by (simp add: vals_ok_def hget_hput)
    moreover have "wf_map ds"
      using reg_coreD(2) [OF core] by (simp add: ds wf_map_def)
    moreover have "entries_ok (validators r) k es" if "hget ds k = Some es" for k es
      using that reg_coreD(6) [OF core] by (auto simp: ds hget_slash_map intro: entries_ok_slash split: if_splits)
    ultimately have "reg_core ?r"
      using queue_ok_slash [OF reg_coreD(3) [OF core]] by (simp add: reg_core_def dels_ok_def entries_ok_hput)
    then show "reg_inv r'" unfolding r' by (rule reg_inv_refresh)
  qed
qed

end
