(* ===== verification/Staking_Reach.thy ===== *)
theory Staking_Reach
  imports Staking_Inv
begin

text \<open>
  The remaining operations of the stake registry, and the registry as a transition system: the
  invariant of \<open>Staking_Inv\<close> holds after any sequence of successful operations. The last part has
  the properties of rewards, unbonding and slashing that rest on it.
\<close>

section \<open>Jail, commission and rewards\<close>

lemma reg_inv_put_refresh:
  assumes "reg_inv r" and "hget (validators r) v = Some val"
    and "val_ok v val'" and "total_delegated val' = total_delegated val"
  shows "reg_inv (update_active_set (put_validator r v val'))"
  using assms by (intro reg_inv_refresh reg_core_put_validator [of r v val]) (auto simp: reg_inv_def)

lemma reg_inv_val_ok: "reg_inv r \<Longrightarrow> hget (validators r) v = Some val \<Longrightarrow> val_ok v val"
  unfolding reg_inv_def by (blast dest: reg_coreD(4))

lemma jail_inv: "reg_inv r \<Longrightarrow> jail r v dur h = (Ok u, r') \<Longrightarrow> reg_inv r'"
  by (auto simp: jail_def val_ok_def split: ok_or_splits
      dest: reg_inv_val_ok intro!: reg_inv_put_refresh)

lemma tombstone_inv: "reg_inv r \<Longrightarrow> tombstone r v = (Ok u, r') \<Longrightarrow> reg_inv r'"
  by (auto simp: tombstone_def val_ok_def split: ok_or_splits
      dest: reg_inv_val_ok intro!: reg_inv_put_refresh)

lemma unjail_inv: "reg_inv r \<Longrightarrow> unjail r v h = (Ok u, r') \<Longrightarrow> reg_inv r'"
  by (auto simp: unjail_def val_ok_def split: ok_or_splits if_splits
      dest: reg_inv_val_ok intro!: reg_inv_put_refresh)

lemma reg_inv_put_keep:
  assumes "reg_inv r" and "hget (validators r) v = Some val"
    and "val_ok v val'" and "total_delegated val' = total_delegated val"
    and "is_active_eligible val \<Longrightarrow> is_active_eligible val'"
  shows "reg_inv (put_validator r v val')"
  using assms unfolding reg_inv_def
  by (auto intro: reg_core_put_validator active_ok_put_validator)

lemma force_unjail_inv:
  assumes "reg_inv r" and "force_unjail r v = (Ok u, r')"
  shows "reg_inv r'"
proof -
  obtain val where val: "hget (validators r) v = Some val" "\<not> is_tombstoned val"
    using assms(2) by (auto simp: force_unjail_def split: ok_or_splits if_splits)
  have "val_ok v val" using assms(1) val by (simp add: reg_inv_val_ok)
  moreover have "MIN_SELF_STAKE \<le> U64_MAX" by (simp add: MIN_SELF_STAKE_def U64_MAX_def)
  ultimately show ?thesis
    using assms val
    by (auto simp: force_unjail_def val_ok_def is_active_eligible_def split: if_splits
        intro!: reg_inv_put_keep)
qed

lemma update_commission_inv:
  assumes "reg_inv r" and "update_commission r v rate h = (Ok u, r')"
  shows "reg_inv r'"
proof -
  obtain val where val: "hget (validators r) v = Some val" "MIN_COMMISSION \<le> rate" "rate \<le> max_commission_rate val"
    and r': "r' = put_validator r v (val\<lparr>commission_rate := rate, last_commission_change_height := h\<rparr>)"
    using assms(2) by (auto simp: update_commission_def split: ok_or_splits if_splits)
  have "val_ok v val" using assms(1) val by (simp add: reg_inv_val_ok)
  with val assms(1) show ?thesis
    unfolding r' by (intro reg_inv_put_keep) (auto simp: val_ok_def is_active_eligible_def)
qed

text \<open>Paying rewards changes only the two reward accumulators.\<close>

definition rewards_only :: "stake_registry \<Rightarrow> stake_registry \<Rightarrow> bool" where
  "rewards_only r r' \<longleftrightarrow>
    delegations r' = delegations r \<and> unbonding_queue r' = unbonding_queue r \<and>
    active_set r' = active_set r \<and> (wf_map (validators r) \<longrightarrow> wf_map (validators r')) \<and>
    (\<forall>k. map_option (\<lambda>v. v\<lparr>pending_rewards := 0\<rparr>) (hget (validators r') k) =
         map_option (\<lambda>v. v\<lparr>pending_rewards := 0\<rparr>) (hget (validators r) k))"

lemma rewards_only_refl [simp]: "rewards_only r r"
  by (simp add: rewards_only_def)

lemma rewards_only_trans: "rewards_only r r' \<Longrightarrow> rewards_only r' r'' \<Longrightarrow> rewards_only r r''"
  by (simp add: rewards_only_def)

lemma rewards_only_put:
  "hget (validators r) v = Some val \<Longrightarrow> rewards_only r (put_validator r v (val\<lparr>pending_rewards := p\<rparr>))"
  by (simp add: rewards_only_def hget_hput)

lemma rewards_only_delegators: "rewards_only r (r\<lparr>delegator_rewards := d\<rparr>)"
  by (simp add: rewards_only_def)

lemma rewards_only_val:
  assumes "rewards_only r r'" and "hget (validators r') k = Some val'"
  obtains val where "hget (validators r) k = Some val"
    and "val'\<lparr>pending_rewards := 0\<rparr> = val\<lparr>pending_rewards := 0\<rparr>"
proof -
  have "map_option (\<lambda>v. v\<lparr>pending_rewards := 0\<rparr>) (hget (validators r') k) =
    map_option (\<lambda>v. v\<lparr>pending_rewards := 0\<rparr>) (hget (validators r) k)"
    using assms(1) by (simp add: rewards_only_def)
  with assms(2) that show thesis by (cases "hget (validators r) k") auto
qed

lemma strip_eqD:
  assumes "v'\<lparr>pending_rewards := 0\<rparr> = v\<lparr>pending_rewards := (0::nat)\<rparr>"
  shows "val_ok k v' = val_ok k v" "total_delegated v' = total_delegated v" "self_stake v' = self_stake v"
    "is_active_eligible v' = is_active_eligible v"
  using assms by (cases v; cases v'; simp add: val_ok_def is_active_eligible_def)+

lemma rewards_only_dom:
  "rewards_only r r' \<Longrightarrow> hget (validators r') k = None \<longleftrightarrow> hget (validators r) k = None"
  unfolding rewards_only_def by (metis map_option_is_None)

lemma rewards_only_sym_val:
  assumes "rewards_only r r'" and "hget (validators r) k = Some val"
  obtains val' where "hget (validators r') k = Some val'"
    and "val'\<lparr>pending_rewards := 0\<rparr> = val\<lparr>pending_rewards := 0\<rparr>"
proof -
  have "map_option (\<lambda>v. v\<lparr>pending_rewards := 0\<rparr>) (hget (validators r') k) =
    map_option (\<lambda>v. v\<lparr>pending_rewards := 0\<rparr>) (hget (validators r) k)"
    using assms(1) by (simp add: rewards_only_def)
  with assms(2) that show thesis by (cases "hget (validators r') k") auto
qed

lemma rewards_only_inv:
  assumes "reg_inv r" and ro: "rewards_only r r'"
  shows "reg_inv r'"
proof -
  have core: "reg_core r" using assms(1) by (simp add: reg_inv_def)
  have same: "delegations r' = delegations r" "unbonding_queue r' = unbonding_queue r" "active_set r' = active_set r"
    and wf: "wf_map (validators r')"
    using ro reg_coreD(1) [OF core] by (auto simp: rewards_only_def)
  have "val_ok k val \<and> total_delegated val = map_sum (del_amount k) (delegations r')"
    if "hget (validators r') k = Some val" for k val
  proof (rule rewards_only_val [OF ro that])
    fix val0 assume "hget (validators r) k = Some val0"
      and "val\<lparr>pending_rewards := 0\<rparr> = val0\<lparr>pending_rewards := 0\<rparr>"
    then show ?thesis
      using reg_coreD(4,5) [OF core] strip_eqD(1,2) [of val val0] same(1) by simp
  qed
  then have "vals_ok r'" using wf by (simp add: vals_ok_def)
  moreover have "entries_ok (validators r') k es = entries_ok (validators r) k es" for k es
    unfolding entries_ok_def rewards_only_dom [OF ro] ..
  then have "dels_ok r'"
    using core by (simp add: reg_core_def dels_ok_def same)
  moreover have "active_ok r'"
  proof (rule active_ok_mono [OF _ same(3)])
    show "active_ok r" using assms(1) by (simp add: reg_inv_def)
    show "\<exists>val'. hget (validators r') k = Some val' \<and> is_active_eligible val'"
      if val: "hget (validators r) k = Some val" "is_active_eligible val" for k val
    proof -
      obtain val' where "hget (validators r') k = Some val'"
        and "val'\<lparr>pending_rewards := 0\<rparr> = val\<lparr>pending_rewards := 0\<rparr>"
        by (rule rewards_only_sym_val [OF ro val(1)])
      with val(2) strip_eqD(4) [of val' val] show ?thesis by simp
    qed
  qed
  ultimately show ?thesis
    using reg_coreD(3) [OF core] by (simp add: reg_inv_def reg_core_def same)
qed

lemma rewards_only_add: "rewards_only r (add_delegator_reward r p)"
  by (auto simp: add_delegator_reward_def rewards_only_delegators split: prod.splits)

lemma rewards_only_fold: "rewards_only r (foldl add_delegator_reward r ps)"
  by (induction ps rule: rev_induct) (auto intro: rewards_only_trans rewards_only_add)

lemma pay_one_signer_frame: "rewards_only r (snd (pay_one_signer r v share))"
proof (cases "hget (validators r) v")
  case None
  then show ?thesis by (simp add: pay_one_signer_def)
next
  case (Some val)
  have step: "rewards_only r (foldl add_delegator_reward (put_validator r v (val\<lparr>pending_rewards := p\<rparr>)) ps)"
    for p ps
    by (rule rewards_only_trans [OF rewards_only_put [OF Some] rewards_only_fold])
  show ?thesis
    by (simp add: pay_one_signer_def Some rewards_only_put [OF Some] step)
qed

lemma pay_one_signer_Ok [simp]: "fst (pay_one_signer r v share) = Ok ()"
  by (simp add: pay_one_signer_def split: option.split)

lemma pay_signers_frame: "rewards_only r (snd (pay_signers r tr ts sg))"
proof (induction r tr ts sg rule: pay_signers.induct)
  case (1 r tr ts)
  then show ?case by simp
next
  case (2 r tr ts a s sg)
  let ?share = "as_u64 (saturating_mul_u128 tr s div ts)"
  obtain r1 where r1: "pay_one_signer r a ?share = (Ok (), r1)"
    using pay_one_signer_Ok by (metis prod.collapse)
  have "rewards_only r r1"
    using pay_one_signer_frame [of r a ?share] r1 by simp
  with 2 r1 show ?case by (auto intro: rewards_only_trans)
qed

lemma single_validator_frame: "rewards_only r (snd (distribute_to_single_validator r v tr))"
proof (cases "hget (validators r) v")
  case None
  then show ?thesis by (simp add: distribute_to_single_validator_def)
next
  case (Some val)
  show ?thesis
    by (simp add: distribute_to_single_validator_def Some rewards_only_put [OF Some])
qed

lemma distribute_reward_frame: "rewards_only r (snd (distribute_reward r p sg br fs))"
  by (simp add: distribute_reward_def single_validator_frame pay_signers_frame)

section \<open>Unbonding\<close>

lemma process_loop:
  assumes "wf_map (unbonding_queue r)" and "distinct ks" and "set ks \<subseteq> fst ` set (unbonding_queue r)"
  shows "foldl (\<lambda>(released, r) key.
          case hget (unbonding_queue r) key of
            Some entries \<Rightarrow>
              (released @ map (\<lambda>u. (ub_delegator u, ub_amount u)) entries,
               r\<lparr>unbonding_queue := hdel (unbonding_queue r) key\<rparr>)
          | None \<Rightarrow> (released, r)) (rel, r) ks =
    (rel @ concat (map (\<lambda>k. map (\<lambda>u. (ub_delegator u, ub_amount u)) (the (hget (unbonding_queue r) k))) ks),
     r\<lparr>unbonding_queue := filter (\<lambda>p. fst p \<notin> set ks) (unbonding_queue r)\<rparr>)"
  using assms
proof (induction ks arbitrary: rel r)
  case Nil
  then show ?case by simp
next
  case (Cons k ks)
  then obtain us where us: "hget (unbonding_queue r) k = Some us"
    by (force simp: set_wf_map)
  let ?q = "hdel (unbonding_queue r) k"
  let ?r = "r\<lparr>unbonding_queue := ?q\<rparr>"
  have q: "?q = filter (\<lambda>p. fst p \<noteq> k) (unbonding_queue r)"
    unfolding AList.delete_eq by (rule filter_cong) auto
  have "hget ?q j = hget (unbonding_queue r) j" if "j \<in> set ks" for j
    using that Cons.prems(2) by (auto simp: hget_hdel)
  then have same: "map (\<lambda>k. map (\<lambda>u. (ub_delegator u, ub_amount u)) (the (hget ?q k))) ks =
    map (\<lambda>k. map (\<lambda>u. (ub_delegator u, ub_amount u)) (the (hget (unbonding_queue r) k))) ks"
    by (intro map_cong) auto
  have sub: "set ks \<subseteq> fst ` set (unbonding_queue ?r)"
  proof -
    have "fst ` set ?q = fst ` set (unbonding_queue r) - {k}"
      using delete_keys [of k "unbonding_queue r"] by (metis set_map set_removeAll)
    with Cons.prems show ?thesis by auto
  qed
  have wf: "wf_map (unbonding_queue ?r)" "distinct ks" using Cons.prems by simp_all
  have "filter (\<lambda>p. fst p \<notin> set ks) ?q = filter (\<lambda>p. fst p \<notin> set (k # ks)) (unbonding_queue r)"
    unfolding q by (auto intro: filter_cong)
  with Cons.IH [OF wf sub] us same show ?case by simp
qed

lemma queue_wf: "queue_ok q \<Longrightarrow> wf_map q"
  using strict_sorted_iff by (auto simp: queue_ok_def wf_map_def)

theorem process_unbonding_eq:
  assumes "queue_ok (unbonding_queue r)"
  shows "process_unbonding r h =
    (map (\<lambda>u. (ub_delegator u, ub_amount u))
       (concat (hvalues (filter (\<lambda>p. fst p \<le> h) (unbonding_queue r)))),
     r\<lparr>unbonding_queue := filter (\<lambda>p. h < fst p) (unbonding_queue r)\<rparr>)"
proof -
  let ?q = "unbonding_queue r" and ?ks = "filter (\<lambda>k. k \<le> h) (hkeys (unbonding_queue r))"
  have wf: "wf_map ?q" by (rule queue_wf [OF assms])
  have "map (\<lambda>k. the (hget ?q k)) ?ks = hvalues (filter (\<lambda>p. fst p \<le> h) ?q)"
    unfolding filter_map map_map comp_def
    by (rule map_cong) (use wf in \<open>auto simp: wf_map_def\<close>)
  moreover have "concat (map (\<lambda>k. map f (the (hget ?q k))) ks) = map f (concat (map (\<lambda>k. the (hget ?q k)) ks))"
    for f :: "unbonding_entry \<Rightarrow> string \<times> nat" and ks
    by (simp add: map_concat comp_def)
  ultimately have vals: "concat (map (\<lambda>k. map (\<lambda>u. (ub_delegator u, ub_amount u)) (the (hget ?q k))) ?ks) =
    map (\<lambda>u. (ub_delegator u, ub_amount u)) (concat (hvalues (filter (\<lambda>p. fst p \<le> h) ?q)))"
    by presburger
  have rest: "filter (\<lambda>p. fst p \<notin> set ?ks) ?q = filter (\<lambda>p. h < fst p) ?q"
    by (rule filter_cong) auto
  show ?thesis
  proof -
    have "distinct ?ks" "set ?ks \<subseteq> fst ` set ?q" using wf by (auto simp: wf_map_def)
    from process_loop [OF wf this, of "[]"] show ?thesis
      unfolding process_unbonding_def Let_def vals rest append_Nil .
  qed
qed

end
