(* ===== verification/Staking_Flow.thy ===== *)
theory Staking_Flow
  imports Staking_Props
begin

text \<open>
  Flows of stake and rewards: what runs of the registry's operations take in, release and pay out.
\<close>

section \<open>Reward distribution\<close>

lemma pay_signers_le:
  assumes "reg_inv r"
  shows "rewards_total (snd (pay_signers r tr ts sg)) \<le>
    rewards_total r + sum_list (map (\<lambda>s. as_u64 (saturating_mul_u128 tr s div ts)) (map snd sg))"
  using assms
proof (induction r tr ts sg rule: pay_signers.induct)
  case (1 r tr ts)
  then show ?case by simp
next
  case (2 r tr ts a s sg)
  let ?share = "as_u64 (saturating_mul_u128 tr s div ts)"
  obtain r1 where r1: "pay_one_signer r a ?share = (Ok (), r1)"
    using pay_one_signer_Ok by (metis prod.collapse)
  have inv: "reg_inv r1"
    using rewards_only_inv [OF 2(4) pay_one_signer_frame [of r a ?share]] r1 by simp
  have le: "rewards_total r1 \<le> rewards_total r + ?share"
    using pay_one_signer_le [of r a ?share] 2(4) r1 by (simp add: reg_inv_def)
  show ?case
  proof (cases "s = 0 \<or> ?share = 0")
    case True
    then show ?thesis using 2(1,2) 2(4) by (auto simp: add.assoc intro: le_trans)
  next
    case False
    then have "rewards_total (snd (pay_signers r1 tr ts sg)) \<le>
      rewards_total r1 + sum_list (map (\<lambda>s. as_u64 (saturating_mul_u128 tr s div ts)) (map snd sg))"
      using 2(3) r1 inv by simp
    with False r1 le show ?thesis by simp
  qed
qed

lemma single_validator_le:
  assumes "reg_inv r"
  shows "rewards_total (snd (distribute_to_single_validator r v tr)) \<le> rewards_total r + tr"
proof (cases "hget (validators r) v")
  case None
  then show ?thesis by (simp add: distribute_to_single_validator_def)
next
  case (Some val)
  have ok: "val_ok v val" using assms Some by (rule reg_inv_val_ok)
  define c where "c = as_u64 (saturating_mul_u128 tr (commission_rate val) div 10000)"
  define s where "s = as_u64 (saturating_mul_u128 (tr - c) (self_stake val) div total_stake val)"
  have "c \<le> tr" unfolding c_def by (rule part_le [OF commission_le [OF ok]])
  moreover have "s \<le> tr - c" unfolding s_def by (rule part_le [OF self_le_total [OF ok]])
  moreover have "snd (distribute_to_single_validator r v tr) =
    (if total_stake val = 0 \<or> tr - c = 0
     then put_validator r v (val\<lparr>pending_rewards := saturating_add_u64 (pending_rewards val) c\<rparr>)
     else put_validator r v (val\<lparr>pending_rewards := saturating_add_u64 (saturating_add_u64 (pending_rewards val) c) s\<rparr>))"
    by (simp add: distribute_to_single_validator_def Some c_def s_def)
  ultimately show ?thesis
    using put_pending_le(1) [OF Some, of c s] put_pending_le(2) [OF Some, of c] by auto
qed

lemma distribute_reward_le:
  assumes "reg_inv r" and "sum_list (map snd sg) \<le> U64_MAX"
  shows "rewards_total (snd (distribute_reward r p sg br fs)) \<le> rewards_total r + saturating_add_u64 br fs"
proof (cases "sg = [] \<or> sum_u64 (map snd sg) = 0")
  case True
  then show ?thesis
    using single_validator_le [OF assms(1)] by (auto simp: distribute_reward_def)
next
  case False
  let ?t = "sum_u64 (map snd sg)" and ?tr = "saturating_add_u64 br fs"
  have "sum_list (map (\<lambda>s. as_u64 (saturating_mul_u128 ?tr s div ?t)) (map snd sg)) \<le> ?tr"
    using False assms(2) by (intro sum_shares_le) (simp_all add: sum_u64_id del: sum_list_eq_0_iff)
  with pay_signers_le [OF assms(1), of ?tr ?t sg] False show ?thesis
    by (simp add: distribute_reward_def)
qed

section \<open>Conservation of stake\<close>

definition unbonding_amount :: "unbonding_entry list \<Rightarrow> nat" where
  "unbonding_amount us = sum_list (map ub_amount us)"

text \<open>Everything bonded: each validator's self stake and delegated total, and what is unbonding.\<close>

definition stake_total :: "stake_registry \<Rightarrow> nat" where
  "stake_total r = map_sum (\<lambda>v. self_stake v + total_delegated v) (validators r) +
    map_sum unbonding_amount (unbonding_queue r)"

fun stake_deposit :: "stake_op \<Rightarrow> nat" where
  "stake_deposit (OpRegister a s c h) = s"
| "stake_deposit (OpAddSelfStake v a) = a"
| "stake_deposit (OpDelegate d v a h) = a"
| "stake_deposit _ = 0"

fun stake_release :: "stake_registry \<Rightarrow> stake_op \<Rightarrow> nat" where
  "stake_release r (OpProcessUnbonding h) = sum_list (map snd (fst (process_unbonding r h)))"
| "stake_release r _ = 0"

fun is_slash :: "stake_op \<Rightarrow> bool" where
  "is_slash (OpSlash v bp) = True"
| "is_slash _ = False"

text \<open>
  \<open>force_unjail\<close> tops the self stake up to the minimum with no deposit behind it.
\<close>

fun stake_granted :: "stake_registry \<Rightarrow> stake_op \<Rightarrow> nat" where
  "stake_granted r (OpForceUnjail v) =
    (case get_validator r v of Some val \<Rightarrow> MIN_SELF_STAKE - self_stake val | None \<Rightarrow> 0)"
| "stake_granted r _ = 0"

fun run_released :: "stake_registry \<Rightarrow> stake_op list \<Rightarrow> nat" where
  "run_released r [] = 0"
| "run_released r (op # ops) = stake_release r op + run_released (snd (run_stake_op r op)) ops"

fun run_granted :: "stake_registry \<Rightarrow> stake_op list \<Rightarrow> nat" where
  "run_granted r [] = 0"
| "run_granted r (op # ops) = stake_granted r op + run_granted (snd (run_stake_op r op)) ops"

lemma stake_total_put:
  assumes "hget (validators r) v = Some val"
  shows "stake_total (put_validator r v val') + (self_stake val + total_delegated val) =
    stake_total r + (self_stake val' + total_delegated val')"
  using map_sum_hput_upd [OF assms, of "\<lambda>v. self_stake v + total_delegated v" val']
  by (simp add: stake_total_def)

lemma stake_total_frame:
  "validators r' = validators r \<Longrightarrow> unbonding_queue r' = unbonding_queue r \<Longrightarrow> stake_total r' = stake_total r"
  by (simp add: stake_total_def)

lemma stake_total_refresh [simp]: "stake_total (update_active_set r) = stake_total r"
  by (simp add: stake_total_def update_active_set_def)

lemma unbonding_amount_simps [simp]:
  "unbonding_amount [] = 0"
  "unbonding_amount (us @ [u]) = unbonding_amount us + ub_amount u"
  by (simp_all add: unbonding_amount_def)

lemma register_total:
  "register_validator r a s c h = (Ok u, r') \<Longrightarrow> stake_total r' = stake_total r + s"
  by (auto simp: register_validator_def stake_total_def map_sum_hput_new split: if_splits)

lemma add_self_stake_total:
  assumes "add_self_stake r v a = (Ok u, r')"
  shows "stake_total r' = stake_total r + a"
proof -
  obtain val where "hget (validators r) v = Some val"
    and "r' = put_validator r v (val\<lparr>self_stake := self_stake val + a\<rparr>)"
    using assms by (auto simp: add_self_stake_def split: ok_or_splits if_splits)
  with stake_total_put [of r v val "val\<lparr>self_stake := self_stake val + a\<rparr>"] show ?thesis by simp
qed

lemma delegate_total_change:
  assumes "reg_core r" and "delegate r d v a h = (Ok u, r')"
  shows "stake_total r' = stake_total r + a"
proof (rule delegate_Ok [OF assms])
  fix val es
  assume val: "hget (validators r) v = Some val"
    and r': "r' = r\<lparr>validators := hput (validators r) v (val\<lparr>total_delegated := total_delegated val + a\<rparr>),
                delegations := hput (delegations r) d es\<rparr>"
  show ?thesis
    using stake_total_put [OF val, of "val\<lparr>total_delegated := total_delegated val + a\<rparr>"]
    unfolding r' by (simp add: stake_total_def)
qed

lemma undelegate_total:
  assumes "reg_core r" and "undelegate r d v a h = (Ok u, r')"
  shows "stake_total r' = stake_total r"
proof (rule undelegate_Ok [OF assms])
  fix val :: validator_stake and es0 es us
  let ?c = "saturating_add_u64 h UNBONDING_PERIOD"
  let ?u = "\<lparr>ub_delegator = d, ub_validator = v, ub_amount = a, ub_completion_height = ?c\<rparr>"
  let ?val = "val\<lparr>total_delegated := total_delegated val - a\<rparr>"
  assume val: "hget (validators r) v = Some val" and le: "a \<le> total_delegated val"
    and us: "us = (case hget (unbonding_queue r) ?c of Some us \<Rightarrow> us | None \<Rightarrow> [])"
    and r': "r' = r\<lparr>validators := hput (validators r) v ?val, delegations := hput (delegations r) d es,
      unbonding_queue := bt_put (unbonding_queue r) ?c (us @ [?u])\<rparr>"
  have sorted: "sorted_wrt (<) (map fst (unbonding_queue r))"
    using reg_coreD(3) [OF assms(1)] by (simp add: queue_ok_def)
  have "unbonding_amount us = opt_val unbonding_amount (hget (unbonding_queue r) ?c)"
    by (simp add: us split: option.splits)
  then have "map_sum unbonding_amount (bt_put (unbonding_queue r) ?c (us @ [?u])) =
    map_sum unbonding_amount (unbonding_queue r) + a"
    using map_sum_bt_put [OF sorted, of unbonding_amount ?c "us @ [?u]"] by simp
  with stake_total_put [OF val, of ?val] le show ?thesis
    unfolding r' by (simp add: stake_total_def)
qed

lemma redelegate_total:
  assumes "reg_core r" and "redelegate r d f t a h = (Ok u, r')"
  shows "stake_total r' = stake_total r"
proof (rule redelegate_Ok [OF assms])
  fix vf vt :: validator_stake and es0 es
  let ?vf = "vf\<lparr>total_delegated := total_delegated vf - a\<rparr>" and ?vt = "vt\<lparr>total_delegated := total_delegated vt + a\<rparr>"
  assume ft: "f \<noteq> t" and vf: "hget (validators r) f = Some vf" and vt: "hget (validators r) t = Some vt"
    and le: "a \<le> total_delegated vf"
    and r': "r' = r\<lparr>validators := hput (hput (validators r) f ?vf) t ?vt, delegations := hput (delegations r) d es,
      redelegate_cooldowns := hput (redelegate_cooldowns r) d (saturating_add_u64 h REDELEGATE_COOLDOWN)\<rparr>"
  have "hget (validators (put_validator r f ?vf)) t = Some vt"
    using ft vt by (simp add: hget_hput)
  from stake_total_put [OF this, of ?vt] stake_total_put [OF vf, of ?vf] le show ?thesis
    unfolding r' by (simp add: stake_total_def)
qed

lemma process_unbonding_total:
  assumes "reg_core r"
  shows "stake_total (snd (process_unbonding r h)) + sum_list (map snd (fst (process_unbonding r h))) = stake_total r"
proof -
  have "sum_list (map ub_amount (concat (hvalues (filter (\<lambda>p. fst p \<le> h) q)))) +
    map_sum unbonding_amount (filter (\<lambda>p. h < fst p) q) = map_sum unbonding_amount q"
    for q :: "(nat, unbonding_entry list) hmap"
    by (induction q) (auto simp: unbonding_amount_def)
  from this [of "unbonding_queue r"] show ?thesis
    by (simp add: process_unbonding_eq [OF reg_coreD(3) [OF assms]] stake_total_def comp_def)
qed

lemma slash_total:
  assumes "reg_core r" and "slash r v bp = (Ok amt, r')"
  shows "stake_total r' \<le> stake_total r"
proof (rule slash_Ok [OF assms])
  fix val :: validator_stake and rem and ds :: "(string, delegation_entry list) hmap"
  let ?val = "val\<lparr>self_stake := self_stake val - min amt (self_stake val), total_delegated := map_sum (del_amount v) ds\<rparr>"
  assume val: "hget (validators r) v = Some val"
    and ds: "ds = (if 0 < rem \<and> 0 < total_delegated val
      then slash_map v rem (total_delegated val) (delegations r) else delegations r)"
    and r': "r' = update_active_set (r\<lparr>validators := hput (validators r) v ?val,
      delegations := ds, unbonding_queue := slash_unbonding v bp (unbonding_queue r)\<rparr>)"
  have "map_sum (del_amount v) ds \<le> total_delegated val"
    unfolding ds reg_coreD(5) [OF assms(1) val]
    by (auto simp: map_sum_slash_map del_amount_slash_le intro: map_sum_mono)
  then have "stake_total (put_validator r v ?val) \<le> stake_total r"
    using stake_total_put [OF val, of ?val] by simp
  moreover have "map_sum unbonding_amount (slash_unbonding v bp q) \<le> map_sum unbonding_amount q" for q
  proof (induction q)
    case Nil
    then show ?case by (simp add: slash_unbonding_def)
  next
    case (Cons p q)
    have "unbonding_amount (map (\<lambda>u. if ub_validator u = v
        then u\<lparr>ub_amount := ub_amount u - as_u64 (saturating_mul_u128 (ub_amount u) bp div 10000)\<rparr> else u) us)
      \<le> unbonding_amount us" for us
      unfolding unbonding_amount_def map_map by (rule sum_list_mono) simp
    from add_mono [OF this Cons] show ?case
      by (cases p) (simp add: slash_unbonding_def cong: if_cong)
  qed
  ultimately show ?thesis
    unfolding r' stake_total_refresh by (simp add: stake_total_def add_mono)
qed

lemma rewards_only_total:
  assumes "reg_inv r" and "rewards_only r r'"
  shows "stake_total r' = stake_total r"
proof -
  let ?f = "\<lambda>v. self_stake v + total_delegated v"
  let ?g = "\<lambda>m k. map_option (\<lambda>v. v\<lparr>pending_rewards := 0\<rparr>) (hget m k)"
  let ?strip = "map (\<lambda>(k, v). (k, v\<lparr>pending_rewards := (0 :: nat)\<rparr>))"
  have wf: "wf_map (validators r)" "wf_map (validators r')"
    using assms by (auto simp: reg_inv_def rewards_only_def dest: reg_coreD(1))
  have strip: "hget (?strip m) k = ?g m k" "map fst (?strip m) = map fst m" "map_sum ?f (?strip m) = map_sum ?f m"
    for m :: "(string, validator_stake) hmap" and k
    by (induction m) auto
  have "same_map (?strip (validators r')) (?strip (validators r))"
    using assms(2) wf unfolding same_map_def wf_map_def strip(2)
    by (auto simp: rewards_only_def strip(1))
  from same_map_sum [OF this, of ?f] assms(2) show ?thesis
    by (simp add: strip(3) stake_total_def rewards_only_def)
qed

text \<open>One step: what was bonded and came in is what is bonded and went out, less what was slashed.\<close>

lemma jail_ops_total:
  "jail r v dur h = (Ok u, r') \<Longrightarrow> stake_total r' = stake_total r"
  "tombstone r v = (Ok u, r') \<Longrightarrow> stake_total r' = stake_total r"
  "unjail r v h = (Ok u, r') \<Longrightarrow> stake_total r' = stake_total r"
  "update_commission r v c h = (Ok u, r') \<Longrightarrow> stake_total r' = stake_total r"
proof -
  have keep: "stake_total (put_validator r v val') = stake_total r"
    if "hget (validators r) v = Some val" "self_stake val' = self_stake val" "total_delegated val' = total_delegated val"
    for val val'
    using stake_total_put [OF that(1), of val'] that(2,3) by simp
  show "jail r v dur h = (Ok u, r') \<Longrightarrow> stake_total r' = stake_total r"
    by (auto simp: jail_def keep split: ok_or_splits)
  show "tombstone r v = (Ok u, r') \<Longrightarrow> stake_total r' = stake_total r"
    by (auto simp: tombstone_def keep split: ok_or_splits)
  show "unjail r v h = (Ok u, r') \<Longrightarrow> stake_total r' = stake_total r"
    by (auto simp: unjail_def keep split: ok_or_splits if_splits)
  show "update_commission r v c h = (Ok u, r') \<Longrightarrow> stake_total r' = stake_total r"
    by (auto simp: update_commission_def keep split: ok_or_splits if_splits)
qed

lemma force_unjail_total:
  assumes "force_unjail r v = (Ok u, r')"
  shows "stake_total r' = stake_total r + stake_granted r (OpForceUnjail v)"
proof -
  obtain val where val: "hget (validators r) v = Some val" and "\<not> is_tombstoned val"
    using assms by (auto simp: force_unjail_def split: ok_or_splits if_splits)
  let ?val = "(if self_stake val < MIN_SELF_STAKE then val\<lparr>self_stake := MIN_SELF_STAKE\<rparr> else val)\<lparr>is_jailed := False, jail_until := 0\<rparr>"
  have "r' = put_validator r v ?val"
    using assms val \<open>\<not> is_tombstoned val\<close> by (simp add: force_unjail_def)
  with stake_total_put [OF val, of ?val] show ?thesis
    by (auto simp: get_validator_def val split: if_splits)
qed

lemma stake_step_flow:
  assumes "reg_inv r" and "stake_step r op r'"
  shows "stake_total r' + stake_release r op \<le> stake_total r + stake_deposit op + stake_granted r op \<and>
    (\<not> is_slash op \<longrightarrow>
      stake_total r' + stake_release r op = stake_total r + stake_deposit op + stake_granted r op)"
proof -
  have core: "reg_core r" using assms(1) by (simp add: reg_inv_def)
  have run: "run_stake_op r op = (True, r')" using assms(2) by (simp add: stake_step_def)
  show ?thesis
  proof (cases op)
    case (OpReward p sg br fs)
    with run have "r' = snd (distribute_reward r p sg br fs)" by (auto dest!: map_prod_is_ok)
    with rewards_only_total [OF assms(1) distribute_reward_frame] OpReward show ?thesis by simp
  next
    case (OpTakeRewards d)
    with run show ?thesis by (auto simp: take_delegator_rewards_def stake_total_def)
  next
    case (OpProcessUnbonding h)
    with run process_unbonding_total [OF core, of h] show ?thesis by auto
  next
    case OpUpdateActiveSet
    with run show ?thesis by auto
  next
    case (OpSlash v bp)
    with run slash_total [OF core] show ?thesis by (auto dest!: map_prod_is_ok)
  next
    case (OpForceUnjail v)
    with run force_unjail_total [of r v] show ?thesis by (auto dest!: map_prod_is_ok)
  qed (use run in \<open>auto dest!: map_prod_is_ok register_total add_self_stake_total
      delegate_total_change [OF core] undelegate_total [OF core] redelegate_total [OF core]
      jail_ops_total\<close>)
qed

lemma run_stake_flow:
  assumes "reg_inv r" and "run_stake_ops r ops = Some r'" and "list_all stake_op_in_range ops"
  shows "stake_total r' + run_released r ops \<le> stake_total r + sum_list (map stake_deposit ops) + run_granted r ops \<and>
    (list_all (\<lambda>op. \<not> is_slash op) ops \<longrightarrow>
      stake_total r' + run_released r ops = stake_total r + sum_list (map stake_deposit ops) + run_granted r ops)"
  using assms
proof (induction ops arbitrary: r)
  case Nil
  then show ?case by simp
next
  case (Cons op ops)
  then obtain r1 where r1: "run_stake_op r op = (True, r1)" and ops: "run_stake_ops r1 ops = Some r'"
    by (auto split: prod.splits bool.splits)
  then have step: "stake_step r op r1" using Cons.prems(3) by (simp add: stake_step_def)
  have "reg_inv r1" by (rule stake_step_inv [OF Cons.prems(1) step])
  then have IH: "stake_total r' + run_released r1 ops \<le> stake_total r1 + sum_list (map stake_deposit ops) + run_granted r1 ops \<and>
    (list_all (\<lambda>op. \<not> is_slash op) ops \<longrightarrow>
      stake_total r' + run_released r1 ops = stake_total r1 + sum_list (map stake_deposit ops) + run_granted r1 ops)"
    using Cons ops by simp
  with stake_step_flow [OF Cons.prems(1) step] r1 show ?case by auto
qed

end
