(* ===== verification/Staking_Thms.thy ===== *)
theory Staking_Thms
  imports Staking_Flow
begin

text \<open>
  The properties of the stake registry, each with an evaluation of the operations on a concrete
  registry where its hypotheses hold.
\<close>

section \<open>Determinism\<close>

lemma stake_order_total: "stake_order a b \<or> stake_order b a"
  by (auto simp: stake_order_def)

lemma stake_order_trans: "stake_order a b \<Longrightarrow> stake_order b c \<Longrightarrow> stake_order a c"
  by (auto simp: stake_order_def)

lemma stake_order_antisym: "stake_order a b \<Longrightarrow> stake_order b a \<Longrightarrow> vs_address a = vs_address b"
  by (auto simp: stake_order_def)

lemma compute_active_set_same:
  assumes "vals_ok r" and "same_map (validators r) (validators r')"
  shows "compute_active_set r' = compute_active_set r"
proof -
  let ?e = "\<lambda>r. filter is_active_eligible (hvalues (validators r))"
  have ms: "mset (?e r) = mset (?e r')"
    using same_map_mset [OF assms(2)] by (metis mset_filter mset_map)
  have anti: "a = b" if "a \<in> set (sort_by stake_order (?e r))" "b \<in> set (sort_by stake_order (?e r))"
    "stake_order a b" "stake_order b a" for a b
  proof -
    have wf: "wf_map (validators r)" using assms(1) by (simp add: vals_ok_def)
    from that(1,2) have "a \<in> set (hvalues (validators r))" "b \<in> set (hvalues (validators r))" by auto
    then obtain j k where "hget (validators r) j = Some a" "hget (validators r) k = Some b"
      unfolding set_hvalues [OF wf] by blast
    moreover from this have "vs_address a = j" "vs_address b = k"
      using assms(1) by (auto simp: vals_ok_def val_ok_def)
    ultimately show "a = b" using stake_order_antisym [OF that(3,4)] by simp
  qed
  have "sort_by stake_order (?e r) = sort_by stake_order (?e r')"
    using sorted_sort_by [of stake_order, OF stake_order_total stake_order_trans] anti ms
    by (intro sorted_wrt_unique [of stake_order]) auto
  then show ?thesis by (simp add: compute_active_set_def)
qed

lemma reg_core_same:
  assumes "reg_core r" and "same_map (delegations r) ds"
  shows "reg_core (r\<lparr>delegations := ds\<rparr>)"
  using assms same_map_sum [OF assms(2)] by (auto simp: reg_defs same_map_def)

lemma slash_returns:
  assumes "hget (validators r) v = Some val" and "total_stake val * bp \<le> U128_MAX"
  obtains amt r' where "slash r v bp = (Ok amt, r')"
proof -
  have "checked_mul_u128 (total_stake val) bp = Some (total_stake val * bp)" using assms(2) by simp
  with assms(1) that show thesis by (simp add: slash_def case_prod_beta)
qed

lemma same_map_slash: "same_map m m' \<Longrightarrow> same_map (slash_map v r d m) (slash_map v r d m')"
proof -
  assume same: "same_map m m'"
  then have "hget (slash_map v r d m) = hget (slash_map v r d m')"
    unfolding same_map_def by (intro ext) (simp add: hget_slash_map)
  with same show ?thesis by (simp add: same_map_def wf_map_def)
qed

section \<open>Tombstones\<close>

definition tombstoned_in :: "stake_registry \<Rightarrow> string \<Rightarrow> bool" where
  "tombstoned_in r v \<longleftrightarrow> (\<exists>val. hget (validators r) v = Some val \<and> is_tombstoned val)"

lemma tombstoned_put:
  assumes "tombstoned_in r v" and "hget (validators r) w = Some val"
    and "is_tombstoned val \<Longrightarrow> is_tombstoned val'"
  shows "tombstoned_in (put_validator r w val') v"
  using assms by (auto simp: tombstoned_in_def hget_hput)

lemma tombstoned_frame: "validators r' = validators r \<Longrightarrow> tombstoned_in r' v = tombstoned_in r v"
  by (simp add: tombstoned_in_def)

lemma tombstoned_refresh [simp]: "tombstoned_in (update_active_set r) v = tombstoned_in r v"
  by (rule tombstoned_frame) (simp add: update_active_set_def)

lemma tombstoned_rewards:
  assumes "tombstoned_in r v" and "rewards_only r r'"
  shows "tombstoned_in r' v"
proof -
  obtain val where val: "hget (validators r) v = Some val" "is_tombstoned val"
    using assms(1) by (auto simp: tombstoned_in_def)
  obtain val' where "hget (validators r') v = Some val'" "val'\<lparr>pending_rewards := 0\<rparr> = val\<lparr>pending_rewards := 0\<rparr>"
    by (rule rewards_only_sym_val [OF assms(2) val(1)])
  moreover from this(2) have "is_tombstoned val' = is_tombstoned val" by (cases val; cases val') simp
  ultimately show ?thesis using val by (simp add: tombstoned_in_def)
qed

lemma tombstoned_step:
  assumes "reg_inv r" and "tombstoned_in r v" and "stake_step r op r'"
  shows "tombstoned_in r' v"
proof -
  have core: "reg_core r" using assms(1) by (simp add: reg_inv_def)
  have run: "run_stake_op r op = (True, r')" using assms(3) by (simp add: stake_step_def)
  show ?thesis
  proof (cases op)
    case (OpReward p sg br fs)
    with run have "r' = snd (distribute_reward r p sg br fs)" by (auto dest!: map_prod_is_ok)
    with tombstoned_rewards [OF assms(2) distribute_reward_frame] show ?thesis by simp
  next
    case (OpTakeRewards d)
    with run assms(2) show ?thesis by (auto simp: take_delegator_rewards_def tombstoned_in_def)
  next
    case (OpProcessUnbonding h)
    with run assms(2) show ?thesis
      by (auto simp: process_unbonding_eq [OF reg_coreD(3) [OF core]] tombstoned_in_def)
  next
    case (OpDelegate d w a h)
    with run obtain u where ok: "delegate r d w a h = (Ok u, r')" by (auto dest!: map_prod_is_ok)
    show ?thesis
      by (rule delegate_Ok [OF core ok]) (use assms(2) in \<open>auto simp: tombstoned_in_def hget_hput\<close>)
  next
    case (OpUndelegate d w a h)
    with run obtain u where ok: "undelegate r d w a h = (Ok u, r')" by (auto dest!: map_prod_is_ok)
    show ?thesis
      by (rule undelegate_Ok [OF core ok]) (use assms(2) in \<open>auto simp: tombstoned_in_def hget_hput\<close>)
  next
    case (OpRedelegate d f t a h)
    with run obtain u where red: "redelegate r d f t a h = (Ok u, r')" by (auto dest!: map_prod_is_ok)
    show ?thesis
    proof (rule redelegate_Ok [OF core red])
      fix vf vt :: validator_stake and es0 es
      assume vf: "hget (validators r) f = Some vf" and vt: "hget (validators r) t = Some vt" and "f \<noteq> t"
        and r': "r' = r\<lparr>validators := hput (hput (validators r) f (vf\<lparr>total_delegated := total_delegated vf - a\<rparr>)) t
                 (vt\<lparr>total_delegated := total_delegated vt + a\<rparr>), delegations := hput (delegations r) d es,
               redelegate_cooldowns := hput (redelegate_cooldowns r) d (saturating_add_u64 h REDELEGATE_COOLDOWN)\<rparr>"
      let ?r = "put_validator r f (vf\<lparr>total_delegated := total_delegated vf - a\<rparr>)"
      have to: "hget (validators ?r) t = Some vt" using \<open>f \<noteq> t\<close> vt by (simp add: hget_hput)
      have src: "tombstoned_in ?r v" by (rule tombstoned_put [OF assms(2) vf]) simp
      have "tombstoned_in (put_validator ?r t (vt\<lparr>total_delegated := total_delegated vt + a\<rparr>)) v"
        by (rule tombstoned_put [OF src to]) simp
      then show ?thesis unfolding r' by (simp add: tombstoned_in_def)
    qed
  next
    case (OpSlash w bp)
    with run obtain amt where sl: "slash r w bp = (Ok amt, r')" by (auto dest!: map_prod_is_ok)
    show ?thesis
      by (rule slash_Ok [OF core sl]) (use assms(2) in \<open>auto simp: tombstoned_in_def update_active_set_def hget_hput\<close>)
  qed (use run assms(2) in \<open>auto dest!: map_prod_is_ok intro!: tombstoned_put
      simp: register_validator_def add_self_stake_def jail_def tombstone_def unjail_def force_unjail_def
        update_commission_def update_active_set_def tombstoned_in_def hget_hput split: ok_or_splits if_splits\<close>)
qed

lemma run_tombstoned:
  assumes "reg_inv r" and "tombstoned_in r v" and "run_stake_ops r ops = Some r'" and "list_all stake_op_in_range ops"
  shows "tombstoned_in r' v"
  using assms
proof (induction ops arbitrary: r)
  case Nil
  then show ?case by simp
next
  case (Cons op ops)
  then obtain r1 where r1: "run_stake_op r op = (True, r1)" and ops: "run_stake_ops r1 ops = Some r'"
    by (auto split: prod.splits bool.splits)
  then have step: "stake_step r op r1" using Cons.prems(4) by (simp add: stake_step_def)
  from stake_step_inv [OF Cons.prems(1) step] tombstoned_step [OF Cons.prems(1,2) step] ops Cons
  show ?case by simp
qed

section \<open>A concrete registry\<close>

definition example_ops :: "stake_op list" where
  "example_ops =
    [OpRegister ''a'' 2000000000000 1000 1, OpRegister ''b'' 1500000000000 500 1,
     OpDelegate ''d'' ''a'' 300 2, OpDelegate ''e'' ''b'' 40 2, OpUpdateActiveSet, OpUndelegate ''d'' ''a'' 100 3]"

definition example_reg :: stake_registry where
  "example_reg =
    \<lparr>validators =
       [(''a'', \<lparr>vs_address = ''a'', self_stake = 2000000000000, total_delegated = 200, commission_rate = 1000,
          max_commission_rate = 2000, is_jailed = False, jail_until = 0, is_tombstoned = False,
          blocks_signed = 0, blocks_missed = 0, pending_rewards = 0, registration_height = 1,
          last_commission_change_height = 0\<rparr>),
        (''b'', \<lparr>vs_address = ''b'', self_stake = 1500000000000, total_delegated = 40, commission_rate = 500,
          max_commission_rate = 1500, is_jailed = False, jail_until = 0, is_tombstoned = False,
          blocks_signed = 0, blocks_missed = 0, pending_rewards = 0, registration_height = 1,
          last_commission_change_height = 0\<rparr>)],
     delegations = [(''d'', [\<lparr>de_delegator = ''d'', de_validator = ''a'', de_amount = 200, de_height = 2\<rparr>]),
       (''e'', [\<lparr>de_delegator = ''e'', de_validator = ''b'', de_amount = 40, de_height = 2\<rparr>])],
     unbonding_queue = [(201603, [\<lparr>ub_delegator = ''d'', ub_validator = ''a'', ub_amount = 100,
       ub_completion_height = 201603\<rparr>])],
     redelegate_cooldowns = [], active_set = [''a'', ''b''], delegator_rewards = []\<rparr>"

lemmas stake_consts =
  MIN_SELF_STAKE_def MAX_ACTIVE_VALIDATORS_def UNBONDING_PERIOD_def MAX_DELEGATIONS_PER_ACCOUNT_def
  MAX_UNBONDING_ENTRIES_def MAX_UNBONDING_PER_VALIDATOR_def REDELEGATE_COOLDOWN_def MIN_COMMISSION_def
  MAX_COMMISSION_def MAX_COMMISSION_CHANGE_PER_EPOCH_def EPOCH_LENGTH_def U16_MAX_def U64_MAX_def U128_MAX_def

lemmas stake_eval =
  stake_consts StakeRegistry_new_def register_validator_def delegate_def delegate_total_def undelegate_def
  reduce_entry_def unbonding_counts_def update_active_set_def compute_active_set_def is_active_eligible_def
  sort_by_def stake_order_def total_stake_def saturating_add_u64_def saturating_add_u16_def checked_add_u64_def

lemmas slash_eval =
  stake_eval get_validator_def slash_def slash_unbonding_def checked_mul_u128_def U128_MAX_def as_u64_def
  saturating_sub_def

text \<open>A validator slashed of everything and put back by the operator.\<close>

definition granted_ops :: "stake_op list" where
  "granted_ops = [OpRegister ''a'' 2000000000000 1000 2, OpSlash ''a'' 10000, OpForceUnjail ''a'']"

lemma example_run: "run_stake_ops StakeRegistry_new example_ops = Some example_reg"
  by (simp add: example_ops_def example_reg_def stake_eval)

lemma example_in_range: "list_all stake_op_in_range example_ops"
  by (simp add: example_ops_def U64_MAX_def)

lemma example_inv: "reg_inv example_reg"
  by (rule run_stake_ops_inv [OF example_run example_in_range])

section \<open>Properties\<close>

text \<open>
  (C14) After any sequence of successful registry operations, every validator's delegated total is the
  sum of the delegation entries that name it, its commission lies within the protocol bounds and its
  own ceiling, and it is jailed if it is tombstoned.
\<close>

theorem registry_totals_exact:
  assumes "run_stake_ops StakeRegistry_new ops = Some r" and "list_all stake_op_in_range ops"
    and "get_validator r v = Some val"
  shows "total_delegated val = sum_list (map de_amount (delegations_to r v)) \<and>
    MIN_COMMISSION \<le> commission_rate val \<and> commission_rate val \<le> max_commission_rate val \<and>
    max_commission_rate val \<le> MAX_COMMISSION \<and> (is_tombstoned val \<longrightarrow> is_jailed val)"
  using run_stake_ops_inv [OF assms(1,2)] assms(3) reg_coreD(4,5) [of r v val]
  by (simp add: reg_inv_def get_validator_def delegations_to_sum val_ok_def)

theorem registry_totals_exact_witness:
  "\<exists>val. get_validator example_reg ''a'' = Some val \<and> total_delegated val = 200 \<and>
    sum_list (map de_amount (delegations_to example_reg ''a'')) = 200"
proof -
  obtain val where val: "get_validator example_reg ''a'' = Some val" and tot: "total_delegated val = 200"
    by (simp add: get_validator_def example_reg_def)
  with registry_totals_exact [OF example_run example_in_range val] show ?thesis by simp
qed

text \<open>
  After any sequence of successful registry operations, whoever is selected to propose a block is
  a registered validator that is neither jailed nor tombstoned and has the minimum self stake.
\<close>

theorem proposer_eligible:
  assumes "run_stake_ops StakeRegistry_new ops = Some r" and "list_all stake_op_in_range ops"
    and "weighted_proposer r h rnd = Some a"
  shows "\<exists>val. get_validator r a = Some val \<and> \<not> is_jailed val \<and> \<not> is_tombstoned val \<and>
    MIN_SELF_STAKE \<le> self_stake val"
proof -
  have "a \<in> set (active_set r)"
    using assms(3) by (auto simp: weighted_proposer_def split: if_splits)
  then show ?thesis
    using run_stake_ops_inv [OF assms(1,2)]
    by (simp add: reg_inv_def active_ok_def is_active_eligible_def get_validator_def)
qed

theorem proposer_eligible_witness:
  "weighted_proposer example_reg 7 0 = Some ''b'' \<and>
    (\<exists>val. get_validator example_reg ''b'' = Some val \<and> MIN_SELF_STAKE \<le> self_stake val)"
proof -
  have "weighted_proposer example_reg 7 0 = Some ''b''"
    by (simp add: weighted_proposer_def example_reg_def wrapping_add_u64_def flip: numeral_2_eq_2)
  with proposer_eligible [OF example_run example_in_range this] show ?thesis by blast
qed

text \<open>
  (C15) Over any sequence of successful operations, what is bonded at the end plus everything the
  unbonding queue released is at most what was deposited plus what \<open>force_unjail\<close> granted, and is
  exactly that when nothing was slashed: delegating, undelegating and redelegating neither create
  nor lose stake. The grants are the only source of stake besides deposits: each raises one
  validator's self stake from below the minimum to the minimum.
\<close>

theorem stake_conserved:
  assumes "run_stake_ops StakeRegistry_new ops = Some r" and "list_all stake_op_in_range ops"
  shows "stake_total r + run_released StakeRegistry_new ops \<le>
      sum_list (map stake_deposit ops) + run_granted StakeRegistry_new ops \<and>
    (list_all (\<lambda>op. \<not> is_slash op) ops \<longrightarrow>
      stake_total r + run_released StakeRegistry_new ops =
        sum_list (map stake_deposit ops) + run_granted StakeRegistry_new ops)"
proof -
  have "stake_total StakeRegistry_new = 0" by (simp add: stake_total_def StakeRegistry_new_def)
  with run_stake_flow [OF reg_inv_new assms] show ?thesis by simp
qed

theorem stake_conserved_witness:
  "stake_total example_reg + run_released StakeRegistry_new example_ops = 3500000000340 \<and>
   run_granted StakeRegistry_new granted_ops = MIN_SELF_STAKE \<and>
   (\<exists>r. run_stake_ops StakeRegistry_new granted_ops = Some r \<and>
     stake_total r + run_released StakeRegistry_new granted_ops \<le> 2000000000000 + MIN_SELF_STAKE)"
proof (intro conjI)
  show "stake_total example_reg + run_released StakeRegistry_new example_ops = 3500000000340"
    using stake_conserved [OF example_run example_in_range] by (simp add: example_ops_def)
  show granted: "run_granted StakeRegistry_new granted_ops = MIN_SELF_STAKE"
    by (simp add: granted_ops_def slash_eval)
  obtain r where run: "run_stake_ops StakeRegistry_new granted_ops = Some r"
    by (simp add: granted_ops_def slash_eval force_unjail_def)
  have "list_all stake_op_in_range granted_ops" by (simp add: granted_ops_def U64_MAX_def)
  from stake_conserved [OF run this] run granted
  show "\<exists>r. run_stake_ops StakeRegistry_new granted_ops = Some r \<and>
     stake_total r + run_released StakeRegistry_new granted_ops \<le> 2000000000000 + MIN_SELF_STAKE"
    by (simp add: granted_ops_def)
qed

text \<open>
  (C16) A successful slash of at most the whole stake takes at least the stated rate from the
  validator's own and delegated stake together, and over it at most one unit per delegation to the
  validator, the rounding of the ceiling division.
\<close>

theorem slash_takes_rate:
  assumes "reg_inv r" and "slash r v bp = (Ok amt, r')" and "get_validator r v = Some val"
    and "bp \<le> 10000" and "self_stake val + total_delegated val \<le> U64_MAX"
  shows "\<exists>val'. get_validator r' v = Some val' \<and>
    amt = (self_stake val + total_delegated val) * bp div 10000 \<and>
    self_stake val' + total_delegated val' + amt \<le> self_stake val + total_delegated val \<and>
    self_stake val + total_delegated val \<le>
      self_stake val' + total_delegated val' + amt + length (delegations_to r v)"
  using slash_rate [OF _ assms(2) _ assms(4,5)] assms(1,3)
  by (simp add: reg_inv_def get_validator_def)

theorem slash_takes_rate_witness:
  "\<exists>r' val'. slash example_reg ''a'' 10000 = (Ok 2000000000200, r') \<and> get_validator r' ''a'' = Some val' \<and>
    self_stake val' + total_delegated val' = 0"
proof -
  let ?val = "the (get_validator example_reg ''a'')"
  have val: "get_validator example_reg ''a'' = Some ?val" "self_stake ?val = 2000000000000" "total_delegated ?val = 200"
    by (simp_all add: get_validator_def example_reg_def)
  have le: "self_stake ?val + total_delegated ?val \<le> U64_MAX"
    by (simp add: val(2,3) U64_MAX_def)
  obtain amt r' where sl: "slash example_reg ''a'' 10000 = (Ok amt, r')"
    by (rule slash_returns [of example_reg "''a''" ?val 10000])
      (use val in \<open>simp_all add: get_validator_def total_stake_def saturating_add_u64_def U64_MAX_def U128_MAX_def\<close>)
  from slash_takes_rate [OF example_inv sl val(1) order_refl le] sl show ?thesis
    unfolding val(2,3) by auto
qed

lemma slash_fits:
  "hget (validators r) v = Some val \<Longrightarrow> slash r v bp = (Ok amt, r') \<Longrightarrow> total_stake val * bp \<le> U128_MAX"
  by (auto simp: slash_def split: ok_or_splits)

text \<open>
  (C19) The outcome of a slash does not depend on the iteration order of the delegation map: two
  registries that differ only in that order give the same amount, the same validators, active set
  and unbonding queue, and delegation maps with the same entries.
\<close>

theorem slash_order_independent:
  assumes "reg_inv r" and "same_map (delegations r) ds" and "slash r v bp = (Ok amt, r1)"
  shows "\<exists>r2. slash (r\<lparr>delegations := ds\<rparr>) v bp = (Ok amt, r2) \<and> validators r2 = validators r1 \<and>
    active_set r2 = active_set r1 \<and> unbonding_queue r2 = unbonding_queue r1 \<and>
    same_map (delegations r1) (delegations r2)"
proof -
  let ?r = "r\<lparr>delegations := ds\<rparr>"
  have core: "reg_core r" using assms(1) by (simp add: reg_inv_def)
  have core': "reg_core ?r" by (rule reg_core_same [OF core assms(2)])
  show ?thesis
  proof (rule slash_Ok [OF core assms(3)])
    fix val :: validator_stake and rem and ds1 :: "(string, delegation_entry list) hmap"
    let ?ds = "\<lambda>ds. if 0 < rem \<and> 0 < total_delegated val then slash_map v rem (total_delegated val) ds else ds"
    assume val: "hget (validators r) v = Some val"
      and amt: "amt = as_u64 (total_stake val * bp div 10000)" and rem: "rem = amt - min amt (self_stake val)"
      and ds1: "ds1 = ?ds (delegations r)"
      and r1: "r1 = update_active_set (r\<lparr>validators := hput (validators r) v
          (val\<lparr>self_stake := self_stake val - min amt (self_stake val), total_delegated := map_sum (del_amount v) ds1\<rparr>),
        delegations := ds1, unbonding_queue := slash_unbonding v bp (unbonding_queue r)\<rparr>)"
    have same: "same_map ds1 (?ds ds)"
      unfolding ds1 using assms(2) by (simp add: same_map_slash)
    have sums: "map_sum (del_amount v) (?ds ds) = map_sum (del_amount v) ds1"
      using same_map_sum [OF same] by simp
    have val': "hget (validators ?r) v = Some val" using val by simp
    obtain amt' r2 where sl: "slash ?r v bp = (Ok amt', r2)"
      by (rule slash_returns [OF val' slash_fits [OF val assms(3)]])
    show ?thesis
    proof (rule slash_Ok [OF core' sl])
      fix val2 :: validator_stake and rem2 and ds2 :: "(string, delegation_entry list) hmap"
      assume "hget (validators ?r) v = Some val2" and a2: "amt' = as_u64 (total_stake val2 * bp div 10000)"
        and rem2: "rem2 = amt' - min amt' (self_stake val2)"
        and ds2: "ds2 = (if 0 < rem2 \<and> 0 < total_delegated val2
          then slash_map v rem2 (total_delegated val2) (delegations ?r) else delegations ?r)"
        and r2: "r2 = update_active_set (?r\<lparr>validators := hput (validators ?r) v
            (val2\<lparr>self_stake := self_stake val2 - min amt' (self_stake val2), total_delegated := map_sum (del_amount v) ds2\<rparr>),
          delegations := ds2, unbonding_queue := slash_unbonding v bp (unbonding_queue ?r)\<rparr>)"
      then have eqs: "val2 = val" "amt' = amt" using val' amt by simp_all
      then have "ds2 = ?ds ds" using ds2 rem rem2 by simp
      with eqs sums have "validators r2 = validators r1"
        unfolding r1 r2 by (simp add: update_active_set_def)
      moreover from this have "active_set r2 = active_set r1"
        unfolding r1 r2 by (simp add: update_active_set_def compute_active_set_def)
      ultimately show ?thesis
        using sl eqs same \<open>ds2 = ?ds ds\<close> unfolding r1 r2 by (simp add: update_active_set_def)
    qed
  qed
qed

theorem slash_order_independent_witness:
  "\<exists>amt r1 r2. slash example_reg ''a'' 100 = (Ok amt, r1) \<and>
    slash (example_reg\<lparr>delegations := rev (delegations example_reg)\<rparr>) ''a'' 100 = (Ok amt, r2) \<and>
    validators r2 = validators r1"
proof -
  have same: "same_map (delegations example_reg) (rev (delegations example_reg))"
    by (auto simp: same_map_def wf_map_def example_reg_def)
  have val: "hget (validators example_reg) ''a'' = Some (the (hget (validators example_reg) ''a''))"
    by (simp add: example_reg_def)
  obtain amt r1 where sl: "slash example_reg ''a'' 100 = (Ok amt, r1)"
    by (rule slash_returns [OF val, of 100])
      (simp_all add: example_reg_def total_stake_def saturating_add_u64_def U64_MAX_def U128_MAX_def)
  from slash_order_independent [OF example_inv same sl] sl show ?thesis by blast
qed

text \<open>
  (C18) Distributing a block's reward and fee share credits validators and delegators together with at
  most the two amounts, whoever the signers are.
\<close>

theorem rewards_bounded:
  assumes "reg_inv r" and "sum_list (map snd signers) \<le> U64_MAX"
    and "distribute_reward r proposer signers block_reward fee_share = (res, r')"
  shows "rewards_total r' \<le> rewards_total r + (block_reward + fee_share)"
  using distribute_reward_le [OF assms(1,2), of proposer block_reward fee_share] assms(3)
    saturating_add_le [of block_reward fee_share] by simp

theorem rewards_bounded_witness:
  "rewards_total (snd (distribute_reward example_reg ''a'' [(''a'', 3), (''b'', 1)] 1000 7)) \<le>
    rewards_total example_reg + 1007"
  using rewards_bounded [OF example_inv _ prod.collapse [symmetric],
      of "[(''a'', 3), (''b'', 1)]" "''a''" 1000 7]
  by (simp add: U64_MAX_def)

text \<open>
  (C17) A tombstoned validator stays tombstoned and outside the active set over every later sequence of
  successful operations, the operator's \<open>force_unjail\<close> included.
\<close>

theorem tombstone_permanent:
  assumes "reg_inv r" and "tombstone r v = (Ok u, r1)"
    and "run_stake_ops r1 ops = Some r2" and "list_all stake_op_in_range ops"
  shows "(\<exists>val. get_validator r2 v = Some val \<and> is_tombstoned val) \<and> \<not> is_active r2 v"
proof -
  have inv1: "reg_inv r1" by (rule tombstone_inv [OF assms(1,2)])
  have "tombstoned_in r1 v"
    using assms(2) by (auto simp: tombstone_def tombstoned_in_def update_active_set_def hget_hput split: ok_or_splits)
  from run_tombstoned [OF inv1 this assms(3,4)] have tomb: "tombstoned_in r2 v" .
  have "reg_inv r2"
    using stake.steps_inv [OF run_stake_ops_steps [OF assms(3,4)] inv1] .
  with tomb show ?thesis
    by (auto simp: tombstoned_in_def get_validator_def is_active_def reg_inv_def active_ok_def is_active_eligible_def)
qed

theorem tombstone_permanent_witness:
  "\<exists>r1 r2. tombstone example_reg ''b'' = (Ok (), r1) \<and>
    run_stake_ops r1 [OpAddSelfStake ''a'' 5, OpUpdateActiveSet] = Some r2 \<and> \<not> is_active r2 ''b''"
proof -
  let ?r1 = "snd (tombstone example_reg ''b'')" and ?ops = "[OpAddSelfStake ''a'' 5, OpUpdateActiveSet]"
  have ok: "tombstone example_reg ''b'' = (Ok (), ?r1)"
    by (simp add: tombstone_def example_reg_def)
  obtain r2 where run: "run_stake_ops ?r1 ?ops = Some r2"
    by (simp add: tombstone_def example_reg_def update_active_set_def add_self_stake_def checked_add_u64_def U64_MAX_def)
  from tombstone_permanent [OF example_inv ok run] ok run show ?thesis by auto
qed

end
