(* ===== verification/Staking_Sets.thy ===== *)
theory Staking_Sets
  imports Staking_Thms
begin

text \<open>
  Properties of the active set, of proposer rotation, of the unbonding queue and of commission changes.
\<close>

section \<open>The active set\<close>

text \<open>
  The ranking the active set is read from: eligible validators by total stake, ties by address.
\<close>

definition eligible :: "stake_registry \<Rightarrow> string set" where
  "eligible r = {a. \<exists>val. get_validator r a = Some val \<and> is_active_eligible val}"

definition outranks :: "stake_registry \<Rightarrow> string \<Rightarrow> string \<Rightarrow> bool" where
  "outranks r a b \<longleftrightarrow> (\<exists>va vb. get_validator r a = Some va \<and> get_validator r b = Some vb \<and>
    (total_stake vb < total_stake va \<or> (total_stake va = total_stake vb \<and> a < b)))"

definition top_ranked :: "stake_registry \<Rightarrow> nat \<Rightarrow> string list \<Rightarrow> bool" where
  "top_ranked r n as \<longleftrightarrow> sorted_wrt (outranks r) as \<and> set as \<subseteq> eligible r \<and>
    length as = min n (card (eligible r)) \<and> (\<forall>a \<in> set as. \<forall>b \<in> eligible r - set as. outranks r a b)"

lemma outranks_irrefl: "\<not> outranks r a a" and outranks_trans: "outranks r a b \<Longrightarrow> outranks r b c \<Longrightarrow> outranks r a c"
  by (auto simp: outranks_def)

lemma outranks_sorted_distinct: "sorted_wrt (outranks r) as \<Longrightarrow> distinct as"
  by (induction as) (auto simp: outranks_irrefl)

lemma top_ranked_unique:
  assumes "top_ranked r n as" and "top_ranked r n bs"
  shows "as = bs"
proof -
  have dist: "distinct as" "distinct bs"
    using assms outranks_sorted_distinct by (auto simp: top_ranked_def)
  then have card: "card (set as) = card (set bs)"
    using assms by (simp add: distinct_card top_ranked_def)
  have "set as = set bs"
  proof (rule ccontr)
    assume "set as \<noteq> set bs"
    then obtain x y where "x \<in> set as - set bs" "y \<in> set bs - set as"
      using card_subset_eq [OF finite_set, of "set as" bs] card_subset_eq [OF finite_set, of "set bs" as] card by auto
    then have "outranks r x y" "outranks r y x"
      using assms by (auto simp: top_ranked_def)
    then show False using outranks_trans outranks_irrefl by blast
  qed
  then have "mset as = mset bs" using dist by (simp add: set_eq_iff_mset_eq_distinct)
  moreover have "a = b" if "outranks r a b" "outranks r b a" for a b
    using outranks_trans [OF that] outranks_irrefl by blast
  moreover have "sorted_wrt (outranks r) as" "sorted_wrt (outranks r) bs"
    using assms by (simp_all add: top_ranked_def)
  ultimately show ?thesis using sorted_wrt_unique [of "outranks r" as bs] by blast
qed

text \<open>The sorted list of eligible validators that \<open>compute_active_set\<close> cuts.\<close>

definition ranking :: "stake_registry \<Rightarrow> validator_stake list" where
  "ranking r = sort_by stake_order (filter is_active_eligible (hvalues (validators r)))"

lemma ranking_member:
  assumes "vals_ok r"
  shows "val \<in> set (ranking r) \<longleftrightarrow> get_validator r (vs_address val) = Some val \<and> is_active_eligible val"
proof -
  have wf: "wf_map (validators r)" using assms by (simp add: vals_ok_def)
  have "vs_address val = k" if "hget (validators r) k = Some val" for k
    using assms that by (auto simp: vals_ok_def val_ok_def)
  then show ?thesis
    using set_hvalues [OF wf, of val] by (auto simp: ranking_def get_validator_def)
qed

lemma ranking_addresses:
  assumes "vals_ok r"
  shows "vs_address ` set (ranking r) = eligible r" and "distinct (map vs_address (ranking r))"
proof -
  have addr: "vs_address val = k" if "get_validator r k = Some val" for k val
    using assms that by (auto simp: vals_ok_def val_ok_def get_validator_def)
  then show "vs_address ` set (ranking r) = eligible r"
    by (force simp: ranking_member [OF assms] eligible_def)
  have "inj_on vs_address (set (ranking r))"
    by (rule inj_onI) (auto simp: ranking_member [OF assms])
  moreover have "map vs_address (filter P (hvalues m)) = map fst (filter (\<lambda>p. P (snd p)) m)"
    if "\<forall>p \<in> set m. vs_address (snd p) = fst p" for P and m :: "(string, validator_stake) hmap"
    using that by (induction m) auto
  moreover have "\<forall>p \<in> set (validators r). vs_address (snd p) = fst p"
    using assms by (auto simp: vals_ok_def val_ok_def wf_map_def)
  ultimately have "distinct (map vs_address (filter is_active_eligible (hvalues (validators r))))"
    using assms by (simp add: vals_ok_def wf_map_def distinct_map_filter)
  then show "distinct (map vs_address (ranking r))"
    using \<open>inj_on vs_address (set (ranking r))\<close> by (simp add: distinct_map ranking_def)
qed

lemma ranking_sorted:
  assumes "vals_ok r"
  shows "sorted_wrt (outranks r) (map vs_address (ranking r))"
proof -
  have "sorted_wrt (\<lambda>x y. stake_order x y \<and> vs_address x \<noteq> vs_address y) (ranking r)"
    using sorted_sort_by [of stake_order, OF stake_order_total stake_order_trans] ranking_addresses(2) [OF assms]
    unfolding ranking_def sorted_wrt_iff_nth_less by (auto simp: distinct_conv_nth)
  then show ?thesis
    unfolding sorted_wrt_map
    by (rule sorted_wrt_mono_rel [rotated]) (auto simp: ranking_member [OF assms] outranks_def stake_order_def)
qed

lemma compute_active_set_top:
  assumes "vals_ok r"
  shows "top_ranked r MAX_ACTIVE_VALIDATORS (compute_active_set r)"
proof -
  let ?as = "map vs_address (ranking r)" and ?n = MAX_ACTIVE_VALIDATORS
  have cut: "compute_active_set r = take ?n ?as"
    by (simp add: compute_active_set_def ranking_def take_map)
  have "card (eligible r) = length ?as"
    using distinct_card [OF ranking_addresses(2) [OF assms]] ranking_addresses(1) [OF assms] by simp
  moreover have elig: "eligible r = set (take ?n ?as) \<union> set (drop ?n ?as)"
    using ranking_addresses(1) [OF assms] set_append [of "take ?n ?as" "drop ?n ?as"] by simp
  moreover have "sorted_wrt (outranks r) (take ?n ?as @ drop ?n ?as)"
    using ranking_sorted [OF assms] by simp
  then have "sorted_wrt (outranks r) (take ?n ?as)"
    and "\<forall>a \<in> set (take ?n ?as). \<forall>b \<in> set (drop ?n ?as). outranks r a b"
    unfolding sorted_wrt_append by blast+
  ultimately show ?thesis unfolding top_ranked_def cut by auto
qed

text \<open>
  (C20) The active set is exactly the top 21 of the ranking of eligible validators. It is the one list
  that holds only eligible validators, has 21 of them or all when there are fewer, is ordered by
  decreasing total stake with ties by address, and has every member outrank every eligible validator
  left out. It does not depend on the iteration order of the validator map.
\<close>

theorem active_set_canonical:
  assumes "reg_inv r"
  shows "(as = compute_active_set r \<longleftrightarrow>
      sorted_wrt (outranks r) as \<and> set as \<subseteq> eligible r \<and>
      length as = min MAX_ACTIVE_VALIDATORS (card (eligible r)) \<and>
      (\<forall>a \<in> set as. \<forall>b \<in> eligible r - set as. outranks r a b)) \<and>
    (\<forall>r'. same_map (validators r) (validators r') \<longrightarrow> compute_active_set r' = compute_active_set r)"
proof -
  have vals: "vals_ok r" using assms by (simp add: reg_inv_def reg_core_def)
  have "as = compute_active_set r \<longleftrightarrow> top_ranked r MAX_ACTIVE_VALIDATORS as"
    using compute_active_set_top [OF vals] top_ranked_unique by blast
  then show ?thesis
    using compute_active_set_same [OF vals] unfolding top_ranked_def by blast
qed

theorem active_set_canonical_witness:
  "compute_active_set example_reg = [''a'', ''b''] \<and> eligible example_reg = {''a'', ''b''} \<and>
    outranks example_reg ''a'' ''b'' \<and>
    compute_active_set (example_reg\<lparr>validators := rev (validators example_reg)\<rparr>) = compute_active_set example_reg"
proof -
  have elig: "eligible example_reg = {''a'', ''b''}"
    by (auto simp: eligible_def get_validator_def example_reg_def is_active_eligible_def MIN_SELF_STAKE_def split: if_splits)
  moreover have rank: "outranks example_reg ''a'' ''b''"
    by (simp add: outranks_def get_validator_def example_reg_def total_stake_def saturating_add_u64_def U64_MAX_def)
  moreover have "[''a'', ''b''] = compute_active_set example_reg"
    using active_set_canonical [OF example_inv, of "[''a'', ''b'']"] elig rank
    by (simp add: MAX_ACTIVE_VALIDATORS_def)
  moreover have "same_map (validators example_reg) (validators (example_reg\<lparr>validators := rev (validators example_reg)\<rparr>))"
    by (auto simp: same_map_def wf_map_def example_reg_def)
  ultimately show ?thesis
    using active_set_canonical [OF example_inv] by metis
qed

text \<open>
  (C21) Proposer rotation is fair: at every height, within any window of as many consecutive rounds as
  there are active validators, each active validator is selected.
\<close>

theorem proposer_rotation:
  assumes "is_active r a" and "h + k + active_count r \<le> U64_MAX"
  shows "\<exists>rnd. k \<le> rnd \<and> rnd < k + active_count r \<and> weighted_proposer r h rnd = Some a"
proof -
  let ?n = "length (active_set r)"
  from assms(1) obtain i where i: "i < ?n" "active_set r ! i = a"
    by (auto simp: is_active_def in_set_conv_nth)
  define off where "off = (i + ?n - (h + k) mod ?n) mod ?n"
  have n: "0 < ?n" by (rule le_less_trans [OF le0 i(1)])
  then have lt: "off < ?n" by (simp add: off_def)
  have "(h + k + off) mod ?n = ((h + k) mod ?n + (i + ?n - (h + k) mod ?n)) mod ?n"
    unfolding off_def by (simp add: mod_simps)
  also have "(h + k) mod ?n + (i + ?n - (h + k) mod ?n) = i + ?n"
    using mod_less_divisor [OF n, of "h + k"] by linarith
  finally have idx: "(h + (k + off)) mod ?n = i" using i(1) by (simp add: add.assoc)
  have "wrapping_add_u64 h (k + off) = h + (k + off)"
    using assms(2) lt by (simp add: wrapping_add_u64_def active_count_def U64_MAX_def)
  then have "weighted_proposer r h (k + off) = Some a"
    using idx i n by (simp add: weighted_proposer_def)
  with lt show ?thesis by (intro exI [of _ "k + off"]) (simp add: active_count_def)
qed

theorem proposer_rotation_witness:
  "\<exists>rnd. 4 \<le> rnd \<and> rnd < 4 + active_count example_reg \<and> weighted_proposer example_reg 10 rnd = Some ''b''"
  by (rule proposer_rotation) (simp_all add: is_active_def active_count_def example_reg_def U64_MAX_def)

section \<open>The unbonding queue\<close>

text \<open>
  What is left of a queued amount after operations: every slash of its validator cuts it by the
  slash's rate, and nothing else changes it. Processing a height at or after the completion height
  empties its slot.
\<close>

fun unbonding_left :: "string \<Rightarrow> u64 \<Rightarrow> stake_op list \<Rightarrow> u64" where
  "unbonding_left v a [] = a"
| "unbonding_left v a (OpSlash w bp # ops) =
    unbonding_left v (if w = v then a - as_u64 (saturating_mul_u128 a bp div 10000) else a) ops"
| "unbonding_left v a (op # ops) = unbonding_left v a ops"

fun pays_out :: "u64 \<Rightarrow> stake_op \<Rightarrow> bool" where
  "pays_out c (OpProcessUnbonding h) \<longleftrightarrow> c \<le> h"
| "pays_out c _ \<longleftrightarrow> False"

definition queued :: "stake_registry \<Rightarrow> string \<Rightarrow> string \<Rightarrow> u64 \<Rightarrow> u64 \<Rightarrow> bool" where
  "queued r d v a c \<longleftrightarrow> (\<exists>us. hget (unbonding_queue r) c = Some us \<and>
    \<lparr>ub_delegator = d, ub_validator = v, ub_amount = a, ub_completion_height = c\<rparr> \<in> set us)"

lemma undelegate_queued:
  assumes "reg_core r" and "undelegate r d v a h = (Ok u, r')"
  shows "queued r' d v a (saturating_add_u64 h UNBONDING_PERIOD)"
proof (rule undelegate_Ok [OF assms])
  fix val es0 es us
  assume "r' = r\<lparr>validators := hput (validators r) v (val\<lparr>total_delegated := total_delegated val - a\<rparr>),
             delegations := hput (delegations r) d es,
             unbonding_queue := bt_put (unbonding_queue r) (saturating_add_u64 h UNBONDING_PERIOD)
               (us @ [\<lparr>ub_delegator = d, ub_validator = v, ub_amount = a,
                       ub_completion_height = saturating_add_u64 h UNBONDING_PERIOD\<rparr>])\<rparr>"
  then show ?thesis
    using reg_coreD(3) [OF assms(1)] by (simp add: queued_def hget_bt_put queue_ok_def)
qed

lemma undelegate_keeps_queued:
  assumes "reg_core r" and "undelegate r d' v' a' h = (Ok u, r')" and "queued r d v a c"
  shows "queued r' d v a c"
proof (rule undelegate_Ok [OF assms(1,2)])
  fix val es0 es us
  let ?c = "saturating_add_u64 h UNBONDING_PERIOD"
  assume us: "us = (case hget (unbonding_queue r) ?c of Some us \<Rightarrow> us | None \<Rightarrow> [])"
    and r': "r' = r\<lparr>validators := hput (validators r) v' (val\<lparr>total_delegated := total_delegated val - a'\<rparr>),
             delegations := hput (delegations r) d' es,
             unbonding_queue := bt_put (unbonding_queue r) ?c
               (us @ [\<lparr>ub_delegator = d', ub_validator = v', ub_amount = a', ub_completion_height = ?c\<rparr>])\<rparr>"
  show ?thesis
    using assms(3) reg_coreD(3) [OF assms(1)] unfolding r' us
    by (auto simp: queued_def hget_bt_put queue_ok_def)
qed

lemma process_keeps_queued:
  assumes "reg_core r" and "queued r d v a c" and "h < c"
  shows "queued (snd (process_unbonding r h)) d v a c"
proof -
  have "hget (filter (\<lambda>p. h < fst p) q) c = hget q c" for q :: "(u64, unbonding_entry list) hmap"
    using assms(3) by (induction q) auto
  with assms(2) show ?thesis
    by (simp add: queued_def process_unbonding_eq [OF reg_coreD(3) [OF assms(1)]])
qed

lemma slash_cuts_queued:
  assumes "reg_core r" and "slash r w bp = (Ok amt, r')" and "queued r d v a c"
  shows "queued r' d v (unbonding_left v a [OpSlash w bp]) c"
proof (rule slash_Ok [OF assms(1,2)])
  fix val rem ds
  assume r': "r' = update_active_set (r\<lparr>validators := hput (validators r) w
      (val\<lparr>self_stake := self_stake val - min amt (self_stake val), total_delegated := map_sum (del_amount w) ds\<rparr>),
    delegations := ds, unbonding_queue := slash_unbonding w bp (unbonding_queue r)\<rparr>)"
  let ?cut = "\<lambda>u. if ub_validator u = w
    then u\<lparr>ub_amount := ub_amount u - as_u64 (saturating_mul_u128 (ub_amount u) bp div 10000)\<rparr> else u"
  have "hget (slash_unbonding w bp q) c = map_option (map ?cut) (hget q c)" for q
    by (induction q) (auto simp: slash_unbonding_def saturating_sub_def cong: if_cong)
  moreover obtain us where us: "hget (unbonding_queue r) c = Some us"
    and e: "\<lparr>ub_delegator = d, ub_validator = v, ub_amount = a, ub_completion_height = c\<rparr> \<in> set us"
    using assms(3) by (auto simp: queued_def)
  ultimately show ?thesis
    using imageI [OF e, of ?cut] by (auto simp: r' queued_def update_active_set_def us)
qed

lemma same_queue:
  assumes "run_stake_op r op = (True, r')"
    and "\<forall>d v a h. op \<noteq> OpUndelegate d v a h" and "\<forall>v bp. op \<noteq> OpSlash v bp" and "\<forall>h. op \<noteq> OpProcessUnbonding h"
  shows "unbonding_queue r' = unbonding_queue r"
proof (cases op)
  case (OpReward p sg br fs)
  with assms(1) distribute_reward_frame [of r p sg br fs] show ?thesis
    by (auto simp: rewards_only_def dest!: map_prod_is_ok)
next
  case (OpDelegate d v a h)
  with assms(1) show ?thesis
    by (auto simp: delegate_def delegate_total_def dest!: map_prod_is_ok split: ok_or_splits if_splits option.splits)
next
  case (OpRedelegate d f t a h)
  with assms(1) show ?thesis
    by (auto simp: redelegate_def redelegate_finish_def dest!: map_prod_is_ok split: ok_or_splits if_splits option.splits)
qed (use assms in \<open>auto simp: register_validator_def add_self_stake_def jail_def tombstone_def unjail_def
  force_unjail_def update_commission_def take_delegator_rewards_def update_active_set_def
  dest!: map_prod_is_ok split: ok_or_splits if_splits\<close>)

lemma queued_step:
  assumes "reg_inv r" and "stake_step r op r'" and "queued r d v a c" and "\<not> pays_out c op"
  shows "queued r' d v (unbonding_left v a [op]) c"
proof -
  have core: "reg_core r" using assms(1) by (simp add: reg_inv_def)
  have run: "run_stake_op r op = (True, r')" using assms(2) by (simp add: stake_step_def)
  show ?thesis
  proof (cases op)
    case (OpUndelegate d' v' a' h)
    with run undelegate_keeps_queued [OF core _ assms(3)] show ?thesis by (auto dest!: map_prod_is_ok)
  next
    case (OpSlash w bp)
    with run obtain amt where "slash r w bp = (Ok amt, r')" by (auto dest!: map_prod_is_ok)
    from slash_cuts_queued [OF core this assms(3)] OpSlash show ?thesis by simp
  next
    case (OpProcessUnbonding h)
    with run assms(4) process_keeps_queued [OF core assms(3)] show ?thesis by auto
  qed (use same_queue [OF run] assms(3) in \<open>simp_all add: queued_def\<close>)
qed

lemma unbonding_left_Cons: "unbonding_left v a (op # ops) = unbonding_left v (unbonding_left v a [op]) ops"
  by (cases op) simp_all

lemma queued_run:
  assumes "reg_inv r" and "run_stake_ops r ops = Some r'" and "list_all stake_op_in_range ops"
    and "list_all (\<lambda>op. \<not> pays_out c op) ops" and "queued r d v a c"
  shows "queued r' d v (unbonding_left v a ops) c \<and> reg_inv r'"
  using assms
proof (induction ops arbitrary: r a)
  case Nil
  then show ?case by simp
next
  case (Cons op ops)
  then obtain r1 where r1: "run_stake_op r op = (True, r1)" and ops: "run_stake_ops r1 ops = Some r'"
    by (auto split: prod.splits bool.splits)
  then have step: "stake_step r op r1" using Cons.prems(3) by (simp add: stake_step_def)
  have "queued r1 d v (unbonding_left v a [op]) c"
    using queued_step [OF Cons.prems(1) step Cons.prems(5)] Cons.prems(4) by simp
  then show ?case
    using Cons.IH [OF stake_step_inv [OF Cons.prems(1) step] ops] Cons.prems(3,4)
    by (subst unbonding_left_Cons) simp
qed

lemma queued_pending:
  assumes "queued r d v a c"
  shows "\<lparr>ub_delegator = d, ub_validator = v, ub_amount = a, ub_completion_height = c\<rparr> \<in>
    set (get_pending_unbonding r d)"
  using assms by (force simp: queued_def get_pending_unbonding_def dest: map_of_SomeD)

lemma queued_paid:
  assumes "reg_core r" and "queued r d v a c" and "c \<le> h"
  shows "(d, a) \<in> set (fst (process_unbonding r h))"
proof -
  obtain us where "(c, us) \<in> set (unbonding_queue r)"
    and "\<lparr>ub_delegator = d, ub_validator = v, ub_amount = a, ub_completion_height = c\<rparr> \<in> set us"
    using assms(2) by (auto simp: queued_def dest: map_of_SomeD)
  with assms(3) show ?thesis
    by (force simp: process_unbonding_eq [OF reg_coreD(3) [OF assms(1)]])
qed

lemma paid_leaves_queue:
  assumes "reg_core r" and "e \<in> set (get_pending_unbonding (snd (process_unbonding r h)) d)"
  shows "h < ub_completion_height e"
proof -
  have q: "queue_ok (unbonding_queue r)" by (rule reg_coreD(3) [OF assms(1)])
  then have "ub_completion_height u = k" if "(k, us) \<in> set (unbonding_queue r)" "u \<in> set us" for k us u
    using that map_of_is_SomeI [of "unbonding_queue r" k us] queue_wf [OF q]
    by (auto simp: queue_ok_def wf_map_def)
  with assms(2) show ?thesis
    by (auto simp: process_unbonding_eq [OF q] get_pending_unbonding_def)
qed

text \<open>
  (C22) Undelegated stake is held for the whole unbonding period and then paid. After an undelegation,
  whatever successful operations follow, as long as the queue is not processed at the completion
  height or later, the entry is still queued, with the undelegated amount cut only by slashes of its
  validator. Processing a height from the completion height on pays exactly that amount to the
  delegator and leaves no entry due by that height in the queue.
\<close>

theorem unbonding_waits:
  assumes "reg_inv r" and "undelegate r d v a h = (Ok u, r0)" and "h + UNBONDING_PERIOD \<le> U64_MAX"
    and "run_stake_ops r0 ops = Some r'" and "list_all stake_op_in_range ops"
    and "list_all (\<lambda>op. \<not> pays_out (h + UNBONDING_PERIOD) op) ops"
  shows "\<lparr>ub_delegator = d, ub_validator = v, ub_amount = unbonding_left v a ops,
      ub_completion_height = h + UNBONDING_PERIOD\<rparr> \<in> set (get_pending_unbonding r' d) \<and>
    (\<forall>h' \<ge> h + UNBONDING_PERIOD. (d, unbonding_left v a ops) \<in> set (fst (process_unbonding r' h')) \<and>
      (\<forall>e \<in> set (get_pending_unbonding (snd (process_unbonding r' h')) d). h' < ub_completion_height e))"
proof -
  let ?c = "h + UNBONDING_PERIOD"
  have "queued r0 d v a ?c"
    using undelegate_queued [OF _ assms(2)] assms(1) saturating_add_u64_id [OF assms(3)] by (simp add: reg_inv_def)
  then have "queued r' d v (unbonding_left v a ops) ?c" and "reg_core r'"
    using queued_run [OF undelegate_inv [OF assms(1,2)] assms(4-6)] by (simp_all add: reg_inv_def)
  then show ?thesis
    using queued_pending queued_paid paid_leaves_queue by blast
qed

theorem unbonding_waits_witness:
  "\<exists>r0 r'. undelegate example_reg ''d'' ''a'' 50 10 = (Ok (), r0) \<and>
    run_stake_ops r0 [OpSlash ''a'' 1000, OpProcessUnbonding 201609] = Some r' \<and>
    (''d'', 45) \<in> set (fst (process_unbonding r' 201610))"
proof -
  let ?r = "snd (undelegate example_reg ''d'' ''a'' 50 10)" and ?ops = "[OpSlash ''a'' 1000, OpProcessUnbonding 201609]"
  have ok: "undelegate example_reg ''d'' ''a'' 50 10 = (Ok (), ?r)"
    by (simp add: example_reg_def stake_eval)
  have le: "10 + UNBONDING_PERIOD \<le> U64_MAX" by (simp add: UNBONDING_PERIOD_def U64_MAX_def)
  obtain r' where run: "run_stake_ops ?r ?ops = Some r'"
    by (simp add: example_reg_def stake_eval slash_def checked_mul_u128_def U128_MAX_def split: prod.split)
  have "unbonding_left ''a'' 50 ?ops = 45"
    by (simp add: as_u64_def saturating_mul_u128_def U128_MAX_def)
  then have "(''d'', 45) \<in> set (fst (process_unbonding r' 201610))"
    using unbonding_waits [OF example_inv ok le run] by (simp add: UNBONDING_PERIOD_def)
  with ok run show ?thesis by blast
qed

section \<open>Commission\<close>

text \<open>
  A validator changes its commission by at most the per-epoch step, and at most once per epoch:
  after a change at a positive height every further request in the same epoch fails and leaves the
  registry as it is.
\<close>

theorem commission_once_per_epoch:
  assumes "update_commission r v c1 h1 = (Ok u, r1)" and "get_validator r v = Some val"
    and "0 < h1" and "h2 div EPOCH_LENGTH = h1 div EPOCH_LENGTH"
  shows "abs_diff c1 (commission_rate val) \<le> MAX_COMMISSION_CHANGE_PER_EPOCH \<and>
    (\<exists>e. update_commission r1 v c2 h2 = (Err e, r1))"
proof -
  have diff: "abs_diff c1 (commission_rate val) \<le> MAX_COMMISSION_CHANGE_PER_EPOCH"
    and r1: "r1 = put_validator r v (val\<lparr>commission_rate := c1, last_commission_change_height := h1\<rparr>)"
    using assms(1,2) by (auto simp: update_commission_def get_validator_def split: if_splits)
  then show ?thesis
    using assms(3,4) unfolding r1 update_commission_def by (simp add: hget_hput)
qed

theorem commission_once_per_epoch_witness:
  "\<exists>r1 e. update_commission example_reg ''a'' 1100 5 = (Ok (), r1) \<and> update_commission r1 ''a'' 1200 6 = (Err e, r1)"
proof -
  let ?r = "snd (update_commission example_reg ''a'' 1100 5)" and ?val = "the (get_validator example_reg ''a'')"
  have ok: "update_commission example_reg ''a'' 1100 5 = (Ok (), ?r)"
    by (simp add: update_commission_def example_reg_def stake_consts abs_diff_def)
  have val: "get_validator example_reg ''a'' = Some ?val" by (simp add: get_validator_def example_reg_def)
  have "\<exists>e. update_commission ?r ''a'' 1200 6 = (Err e, ?r)"
    using commission_once_per_epoch [OF ok val, of 6 1200] by (simp add: EPOCH_LENGTH_def)
  with ok show ?thesis by blast
qed

end
