(* ===== verification/Slashing.thy ===== *)
theory Slashing
  imports Staking
begin

text \<open>
  The slashing engine, \<open>sentrix-staking/src/slashing.rs\<close> with \<open>slashing/liveness.rs\<close> and
  \<open>slashing/double_sign.rs\<close>: the sliding window of block signatures, the double-sign detector, and
  the engine that slashes, jails and tombstones through the stake registry. Log output is left out.
\<close>

section \<open>Constants and data\<close>

definition LIVENESS_WINDOW :: u64 where "LIVENESS_WINDOW = 14400"
definition MIN_SIGNED_PER_WINDOW :: u64 where "MIN_SIGNED_PER_WINDOW = 4320"
definition DOWNTIME_SLASH_BP :: u16 where "DOWNTIME_SLASH_BP = 10"
definition DOWNTIME_JAIL_BLOCKS :: u64 where "DOWNTIME_JAIL_BLOCKS = 600"
definition DOUBLE_SIGN_SLASH_BP :: u16 where "DOUBLE_SIGN_SLASH_BP = 2000"

record liveness_record =
  lr_height :: u64
  lr_signed :: bool

record liveness_tracker =
  lt_records :: "(string, liveness_record list) hmap"
  first_seen :: "(string, u64) hmap"

record double_sign_evidence =
  ev_validator :: string
  ev_height :: u64
  block_hash_a :: string
  block_hash_b :: string
  signature_a :: string
  signature_b :: string

record double_sign_detector =
  recent_blocks :: "(string \<times> u64, string) hmap"
  max_entries :: usize
  processed :: "string list"

record slashing_engine =
  liveness :: liveness_tracker
  double_sign :: double_sign_detector
  total_slashed :: u64

record jail_evidence =
  je_validator :: string
  je_signed_count :: u64
  je_missed_count :: u64
  justification_hashes :: "string list"

section \<open>Liveness tracker\<close>

definition LivenessTracker_new :: liveness_tracker where
  "LivenessTracker_new = \<lparr>lt_records = [], first_seen = []\<rparr>"

text \<open>\<open>entry(k).or_insert(v)\<close>.\<close>

definition or_insert :: "('k, 'v) hmap \<Rightarrow> 'k \<Rightarrow> 'v \<Rightarrow> ('k, 'v) hmap" where
  "or_insert m k v = (case hget m k of Some _ \<Rightarrow> m | None \<Rightarrow> hput m k v)"

definition entries_of :: "liveness_tracker \<Rightarrow> string \<Rightarrow> liveness_record list" where
  "entries_of t validator = (case hget (lt_records t) validator of Some es \<Rightarrow> es | None \<Rightarrow> [])"

text \<open>The trim that drops what exceeds the window from the front.\<close>

definition trim_window :: "'a list \<Rightarrow> 'a list" where
  "trim_window es = (if LIVENESS_WINDOW < length es then drop (length es - LIVENESS_WINDOW) es else es)"

definition record_signed :: "liveness_tracker \<Rightarrow> string \<Rightarrow> u64 \<Rightarrow> liveness_tracker" where
  "record_signed t validator height =
    (let t1 = t\<lparr>first_seen := or_insert (first_seen t) validator height\<rparr>;
         es = entries_of t1 validator
     in if es \<noteq> [] \<and> lr_height (last es) = height
        then t1\<lparr>lt_records := hput (lt_records t1) validator es\<rparr>
        else t1\<lparr>lt_records := hput (lt_records t1) validator
               (trim_window (es @ [\<lparr>lr_height = height, lr_signed = True\<rparr>]))\<rparr>)"

definition record_liveness :: "liveness_tracker \<Rightarrow> string \<Rightarrow> u64 \<Rightarrow> bool \<Rightarrow> liveness_tracker" where
  "record_liveness t validator height signed =
    (let t1 = (if signed then t\<lparr>first_seen := or_insert (first_seen t) validator height\<rparr> else t);
         es = entries_of t1 validator
     in t1\<lparr>lt_records := hput (lt_records t1) validator
          (trim_window (es @ [\<lparr>lr_height = height, lr_signed = signed\<rparr>]))\<rparr>)"

definition is_downtime_at :: "liveness_tracker \<Rightarrow> string \<Rightarrow> u64 \<Rightarrow> bool" where
  "is_downtime_at t validator current_height =
    (if current_height < LIVENESS_WINDOW then False
     else case hget (first_seen t) validator of
       None \<Rightarrow> False
     | Some seen \<Rightarrow>
         if current_height - LIVENESS_WINDOW < seen then False
         else
           let cutoff = current_height - LIVENESS_WINDOW;
               signed_in_window =
                 (case hget (lt_records t) validator of
                    Some es \<Rightarrow> length (filter (\<lambda>e. lr_signed e \<and> cutoff < lr_height e) es)
                  | None \<Rightarrow> 0)
           in signed_in_window < MIN_SIGNED_PER_WINDOW)"

definition is_downtime :: "liveness_tracker \<Rightarrow> string \<Rightarrow> bool" where
  "is_downtime t validator =
    (case hget (lt_records t) validator of
       None \<Rightarrow> False
     | Some es \<Rightarrow>
         if length es < LIVENESS_WINDOW then False
         else length (filter lr_signed es) < MIN_SIGNED_PER_WINDOW)"

definition get_stats :: "liveness_tracker \<Rightarrow> string \<Rightarrow> u64 \<times> u64" where
  "get_stats t validator =
    (case hget (lt_records t) validator of
       None \<Rightarrow> (0, 0)
     | Some es \<Rightarrow> (length (filter lr_signed es), length (filter (\<lambda>e. \<not> lr_signed e) es)))"

definition reset_liveness :: "liveness_tracker \<Rightarrow> string \<Rightarrow> liveness_tracker" where
  "reset_liveness t validator = t\<lparr>lt_records := hdel (lt_records t) validator\<rparr>"

section \<open>Double-sign detector\<close>

definition DoubleSignDetector_new :: double_sign_detector where
  "DoubleSignDetector_new = \<lparr>recent_blocks = [], max_entries = 10000, processed = []\<rparr>"

text \<open>The derived \<open>Default\<close>.\<close>

definition DoubleSignDetector_default :: double_sign_detector where
  "DoubleSignDetector_default = \<lparr>recent_blocks = [], max_entries = 0, processed = []\<rparr>"

definition record_block ::
  "double_sign_detector \<Rightarrow> string \<Rightarrow> u64 \<Rightarrow> string \<Rightarrow> string \<Rightarrow> double_sign_evidence option \<times> double_sign_detector" where
  "record_block det validator height block_hash signature =
    (case hget (recent_blocks det) (validator, height) of
       Some existing_hash \<Rightarrow>
         if existing_hash \<noteq> block_hash
         then (Some \<lparr>ev_validator = validator, ev_height = height, block_hash_a = existing_hash,
                block_hash_b = block_hash, signature_a = '''', signature_b = signature\<rparr>, det)
         else (None, det)
     | None \<Rightarrow>
         let blocks = hput (recent_blocks det) (validator, height) block_hash
         in if max_entries det < length blocks
            then let cutoff_height = saturating_sub height (LIVENESS_WINDOW * 10)
                 in (None, det\<lparr>recent_blocks := filter (\<lambda>((v, h), b). cutoff_height < h) blocks\<rparr>)
            else (None, det\<lparr>recent_blocks := blocks\<rparr>))"

definition evidence_id :: "double_sign_evidence \<Rightarrow> string" where
  "evidence_id ev =
    ev_validator ev @ '':'' @ show_nat (ev_height ev) @ '':'' @ block_hash_a ev @ '':'' @ block_hash_b ev"

definition process_evidence ::
  "double_sign_detector \<Rightarrow> double_sign_evidence \<Rightarrow> bool result \<times> double_sign_detector" where
  "process_evidence det ev =
    (if block_hash_a ev = block_hash_b ev
     then (Err (InvalidTransaction ''evidence hashes must differ''), det)
     else if ev_validator ev = ''''
     then (Err (InvalidTransaction ''evidence missing validator''), det)
     else if evidence_id ev \<in> set (processed det) then (Ok False, det)
     else
       let ps = processed det @ [evidence_id ev]
       in (Ok True, det\<lparr>processed := (if 1000 < length ps then drop 500 ps else ps)\<rparr>))"

section \<open>Engine\<close>

definition SlashingEngine_new :: slashing_engine where
  "SlashingEngine_new =
    \<lparr>liveness = LivenessTracker_new, double_sign = DoubleSignDetector_default, total_slashed = 0\<rparr>"

fun check_liveness ::
  "slashing_engine \<Rightarrow> stake_registry \<Rightarrow> string list \<Rightarrow> u64 \<Rightarrow>
     (string \<times> u64) list \<times> slashing_engine \<times> stake_registry" where
  "check_liveness eng r [] current_height = ([], eng, r)"
| "check_liveness eng r (validator # vs) current_height =
    (if \<not> is_downtime_at (liveness eng) validator current_height
     then check_liveness eng r vs current_height
     else if (case get_validator r validator of Some v \<Rightarrow> is_jailed v | None \<Rightarrow> False)
     then check_liveness eng r vs current_height
     else case slash r validator DOWNTIME_SLASH_BP of
       (Err e, r1) \<Rightarrow> check_liveness eng r1 vs current_height
     | (Ok amount, r1) \<Rightarrow>
         let r2 = snd (jail r1 validator DOWNTIME_JAIL_BLOCKS current_height);
             eng1 = eng\<lparr>liveness := reset_liveness (liveness eng) validator,
                        total_slashed := saturating_add_u64 (total_slashed eng) amount\<rparr>;
             (slashed, eng2, r3) = check_liveness eng1 r2 vs current_height
         in ((validator, amount) # slashed, eng2, r3))"

definition process_double_sign ::
  "slashing_engine \<Rightarrow> stake_registry \<Rightarrow> double_sign_evidence \<Rightarrow> u64 result \<times> slashing_engine \<times> stake_registry" where
  "process_double_sign eng r ev =
    (if (case get_validator r (ev_validator ev) of Some v \<Rightarrow> is_tombstoned v | None \<Rightarrow> False)
     then (Err (InvalidTransaction ''validator already tombstoned''), eng, r)
     else case process_evidence (double_sign eng) ev of
       (Err e, det) \<Rightarrow> (Err e, eng\<lparr>double_sign := det\<rparr>, r)
     | (Ok is_new, det) \<Rightarrow>
         let eng1 = eng\<lparr>double_sign := det\<rparr>
         in if \<not> is_new then (Ok 0, eng1, r)
            else case slash r (ev_validator ev) DOUBLE_SIGN_SLASH_BP of
              (Err e, r1) \<Rightarrow> (Err e, eng1, r1)
            | (Ok amount, r1) \<Rightarrow>
                case tombstone r1 (ev_validator ev) of
                  (Err e, r2) \<Rightarrow> (Err e, eng1, r2)
                | (Ok _, r2) \<Rightarrow>
                    (Ok amount, eng1\<lparr>total_slashed := saturating_add_u64 (total_slashed eng1) amount\<rparr>, r2))"

definition record_block_signatures :: "slashing_engine \<Rightarrow> string list \<Rightarrow> string list \<Rightarrow> u64 \<Rightarrow> slashing_engine" where
  "record_block_signatures eng active signers height =
    eng\<lparr>liveness := foldl (\<lambda>t signer. record_signed t signer height) (liveness eng) signers\<rparr>"

definition compute_jail_evidence :: "slashing_engine \<Rightarrow> string list \<Rightarrow> u64 \<Rightarrow> jail_evidence list" where
  "compute_jail_evidence eng active current_height =
    map (\<lambda>validator. let (signed_count, missed_count) = get_stats (liveness eng) validator
         in \<lparr>je_validator = validator, je_signed_count = signed_count, je_missed_count = missed_count,
             justification_hashes = []\<rparr>)
      (filter (\<lambda>validator. is_downtime_at (liveness eng) validator current_height) active)"

end
