(* ===== verification/Slashing_Liveness.thy ===== *)
theory Slashing_Liveness
  imports Slashing
begin

text \<open>
  The liveness window against its specification: replaying a chain's blocks gives a tracker whose
  downtime verdict is the count of blocks the validator signed among the last \<open>LIVENESS_WINDOW\<close>
  heights.
\<close>

section \<open>The window\<close>

lemma trim_window_eq: "trim_window es = drop (length es - LIVENESS_WINDOW) es"
  by (simp add: trim_window_def)

lemma trim_window_Nil [simp]: "trim_window [] = []"
  by (simp add: trim_window_eq)

lemma trim_window_snoc: "trim_window (trim_window es @ [e]) = trim_window (es @ [e])"
proof -
  have "length es - (length es - 14400 + 14399) + (length es - 14400) = length es - 14399" by arith
  then show ?thesis by (simp add: trim_window_eq LIVENESS_WINDOW_def)
qed

lemma last_trim_snoc: "trim_window (es @ [e]) \<noteq> []" "last (trim_window (es @ [e])) = e"
  by (simp_all add: trim_window_eq LIVENESS_WINDOW_def)

lemma entries_of_put [simp]:
  "entries_of (t\<lparr>lt_records := hput m v es\<rparr>) w = (if w = v then es else entries_of (t\<lparr>lt_records := m\<rparr>) w)"
  by (simp add: entries_of_def hget_hput)

lemma entries_of_frame [simp]: "entries_of (t\<lparr>first_seen := m\<rparr>) w = entries_of t w"
  by (simp add: entries_of_def)

lemma hget_or_insert:
  "hget (or_insert m k v) j = (if j = k \<and> hget m k = None then Some v else hget m j)"
  by (auto simp: or_insert_def hget_hput split: option.splits)

lemma record_signed_entries:
  "entries_of (record_signed t s h) v =
    (if v = s \<and> \<not> (entries_of t s \<noteq> [] \<and> lr_height (last (entries_of t s)) = h)
     then trim_window (entries_of t s @ [\<lparr>lr_height = h, lr_signed = True\<rparr>]) else entries_of t v)"
  by (auto simp: record_signed_def)

lemma record_signed_first_seen:
  "hget (first_seen (record_signed t s h)) v =
    (if v = s \<and> hget (first_seen t) s = None then Some h else hget (first_seen t) v)"
  by (simp add: record_signed_def hget_or_insert)

text \<open>Recording a block's signers, in any order and with repetitions, adds the height once to each.\<close>

lemma record_signers_entries:
  assumes "\<And>v. entries_of t v = [] \<or> lr_height (last (entries_of t v)) \<noteq> h"
  shows "entries_of (foldl (\<lambda>t s. record_signed t s h) t sg) v =
    (if v \<in> set sg then trim_window (entries_of t v @ [\<lparr>lr_height = h, lr_signed = True\<rparr>])
     else entries_of t v)"
proof (induction sg arbitrary: v rule: rev_induct)
  case Nil
  then show ?case by simp
next
  case (snoc s sg)
  show ?case
  proof (cases "s \<in> set sg")
    case True
    then show ?thesis
      using snoc by (auto simp: record_signed_entries last_trim_snoc)
  next
    case False
    then show ?thesis
      using snoc assms [of s] by (auto simp: record_signed_entries)
  qed
qed

lemma record_signers_first_seen:
  "hget (first_seen (foldl (\<lambda>t s. record_signed t s h) t sg)) v =
    (if v \<in> set sg \<and> hget (first_seen t) v = None then Some h else hget (first_seen t) v)"
  by (induction sg rule: rev_induct) (auto simp: record_signed_first_seen)

section \<open>Replaying a chain\<close>

type_synonym block_signers = "u64 \<times> string list \<times> string list"

definition replay_signatures :: "block_signers list \<Rightarrow> slashing_engine" where
  "replay_signatures hist =
    foldl (\<lambda>eng (h, active, signers). record_block_signatures eng active signers h) SlashingEngine_new hist"

definition signed_heights :: "string \<Rightarrow> block_signers list \<Rightarrow> u64 list" where
  "signed_heights v hist = map fst (filter (\<lambda>(h, active, signers). v \<in> set signers) hist)"

definition signed_record :: "u64 \<Rightarrow> liveness_record" where
  "signed_record h = \<lparr>lr_height = h, lr_signed = True\<rparr>"

lemma signed_record_height [simp]: "lr_height (signed_record h) = h" "lr_signed (signed_record h)"
  by (simp_all add: signed_record_def)

lemma signed_heights_snoc:
  "signed_heights v (hist @ [(h, act, sg)]) = signed_heights v hist @ (if v \<in> set sg then [h] else [])"
  by (simp add: signed_heights_def)

lemma signed_heights_subset: "set (signed_heights v hist) \<subseteq> fst ` set hist"
  by (auto simp: signed_heights_def)

lemma signed_heights_sorted:
  "sorted_wrt (<) (map fst hist) \<Longrightarrow> sorted_wrt (<) (signed_heights v hist)"
  by (induction hist) (auto simp: signed_heights_def)

lemma replay_snoc:
  "replay_signatures (hist @ [(h, act, sg)]) = record_block_signatures (replay_signatures hist) act sg h"
  by (simp add: replay_signatures_def)

lemma replay_state:
  assumes "sorted_wrt (<) (map fst hist)"
  shows "(\<forall>v. entries_of (liveness (replay_signatures hist)) v =
      trim_window (map signed_record (signed_heights v hist))) \<and>
    (\<forall>v. hget (first_seen (liveness (replay_signatures hist))) v =
      (case signed_heights v hist of [] \<Rightarrow> None | h # _ \<Rightarrow> Some h))"
  using assms
proof (induction hist rule: rev_induct)
  case Nil
  then show ?case
    by (simp add: replay_signatures_def SlashingEngine_new_def LivenessTracker_new_def entries_of_def signed_heights_def)
next
  case (snoc b hist)
  obtain h act sg where b: "b = (h, act, sg)" by (cases b)
  let ?t = "liveness (replay_signatures hist)"
  have lt: "\<forall>g \<in> set (map fst hist). g < h" and sorted: "sorted_wrt (<) (map fst hist)"
    using snoc.prems b by (auto simp: sorted_wrt_append)
  note IH = snoc.IH [OF sorted]
  have fresh: "entries_of ?t v = [] \<or> lr_height (last (entries_of ?t v)) \<noteq> h" for v
  proof (cases "signed_heights v hist = []")
    case True
    with IH show ?thesis by simp
  next
    case False
    then obtain hs g where hs: "signed_heights v hist = hs @ [g]" by (metis rev_exhaust)
    then have "g < h" using signed_heights_subset [of v hist] lt by auto
    then show ?thesis
      using IH hs last_trim_snoc(2) [of "map signed_record hs" "signed_record g"] by simp
  qed
  have entries: "entries_of (liveness (replay_signatures (hist @ [b]))) v =
    trim_window (map signed_record (signed_heights v (hist @ [b])))" for v
    using IH trim_window_snoc [of "map signed_record (signed_heights v hist)" "signed_record h"]
    unfolding b replay_snoc signed_heights_snoc
    by (simp add: record_block_signatures_def record_signers_entries [OF fresh] flip: signed_record_def)
  have "hget (first_seen (liveness (replay_signatures (hist @ [b])))) v =
    (case signed_heights v (hist @ [b]) of [] \<Rightarrow> None | h # _ \<Rightarrow> Some h)" for v
    using IH unfolding b replay_snoc signed_heights_snoc
    by (simp add: record_block_signatures_def record_signers_first_seen split: list.splits)
  with entries show ?case by blast
qed

section \<open>The downtime verdict\<close>

lemma is_downtime_at_entries:
  "is_downtime_at t v h \<longleftrightarrow> LIVENESS_WINDOW \<le> h \<and>
    (\<exists>f. hget (first_seen t) v = Some f \<and> f \<le> h - LIVENESS_WINDOW) \<and>
    length (filter (\<lambda>e. lr_signed e \<and> h - LIVENESS_WINDOW < lr_height e) (entries_of t v)) < MIN_SIGNED_PER_WINDOW"
  by (auto simp: is_downtime_at_def entries_of_def split: option.splits)

lemma strict_gap:
  assumes "sorted_wrt (<) (hs :: nat list)" and "i \<le> j" and "j < length hs"
  shows "hs ! i + (j - i) \<le> hs ! j"
  using assms(2,3)
proof (induction j rule: dec_induct)
  case base
  then show ?case by simp
next
  case (step j)
  have "hs ! j < hs ! Suc j" using assms(1) step.prems by (simp add: sorted_wrt_nth_less)
  with step show ?case by simp
qed

lemma window_count:
  assumes "sorted_wrt (<) hs" and "\<forall>x \<in> set hs. x \<le> (h :: nat)"
  shows "length (filter (\<lambda>x. h - w < x) (drop (length hs - w) hs)) = length (filter (\<lambda>x. h - w < x) hs)"
proof -
  have "x \<le> h - w" if "x \<in> set (take (length hs - w) hs)" for x
  proof -
    from that obtain i where i: "i < length hs - w" "x = hs ! i"
      by (auto simp: in_set_conv_nth)
    then have "hs ! i + (length hs - 1 - i) \<le> hs ! (length hs - 1)"
      by (intro strict_gap [OF assms(1)]) auto
    moreover have "hs ! (length hs - 1) \<le> h" using assms(2) i(1) by (intro bspec [OF assms(2)] nth_mem) auto
    ultimately show ?thesis using i by linarith
  qed
  then have "filter (\<lambda>x. h - w < x) (take (length hs - w) hs) = []"
    by (auto simp: filter_empty_conv not_less)
  then show ?thesis
    by (metis append_Nil append_take_drop_id filter_append)
qed

section \<open>Properties\<close>

text \<open>
  (C24) The downtime verdict is exact: after replaying a chain's blocks in height order, a validator is
  down at a height exactly when the chain is a full window old, its first signed block is at least a
  window ago, and it signed fewer than the minimum of the blocks in the window. The verdict depends
  only on who signed which block, not on the active sets the nodes saw nor on trimmed records.
\<close>

theorem downtime_exact:
  assumes "sorted_wrt (<) (map fst hist)" and "\<forall>b \<in> set hist. fst b \<le> h"
  shows "is_downtime_at (liveness (replay_signatures hist)) v h \<longleftrightarrow>
    LIVENESS_WINDOW \<le> h \<and>
    (\<exists>f hs. signed_heights v hist = f # hs \<and> f \<le> h - LIVENESS_WINDOW) \<and>
    length (filter (\<lambda>x. h - LIVENESS_WINDOW < x) (signed_heights v hist)) < MIN_SIGNED_PER_WINDOW"
proof -
  let ?hs = "signed_heights v hist" and ?t = "liveness (replay_signatures hist)"
  have entries: "entries_of ?t v = map signed_record (drop (length ?hs - LIVENESS_WINDOW) ?hs)"
    and seen: "hget (first_seen ?t) v = (case ?hs of [] \<Rightarrow> None | h # _ \<Rightarrow> Some h)"
    using replay_state [OF assms(1)] by (simp_all add: trim_window_eq drop_map)
  have "\<forall>x \<in> set ?hs. x \<le> h" using assms(2) signed_heights_subset [of v hist] by auto
  from window_count [OF signed_heights_sorted [OF assms(1)] this]
  have "length (filter (\<lambda>e. lr_signed e \<and> h - LIVENESS_WINDOW < lr_height e) (entries_of ?t v)) =
    length (filter (\<lambda>x. h - LIVENESS_WINDOW < x) ?hs)"
    by (simp add: entries filter_map comp_def)
  then show ?thesis
    unfolding is_downtime_at_entries seen by (auto split: list.splits)
qed

theorem downtime_exact_witness:
  "is_downtime_at (liveness (replay_signatures [(1, [], [''a'', ''b'']), (20000, [''a''], [''b''])])) ''a'' 20000"
proof -
  let ?hist = "[(1, [], [''a'', ''b'']), (20000, [''a''], [''b''])] :: block_signers list"
  have "sorted_wrt (<) (map fst ?hist)" "\<forall>b \<in> set ?hist. fst b \<le> 20000" by simp_all
  from downtime_exact [OF this, of "''a''"] show ?thesis
    by (simp add: signed_heights_def LIVENESS_WINDOW_def MIN_SIGNED_PER_WINDOW_def)
qed

text \<open>
  (C25) A validator that never signed a block is never reported as down, at any height, and is never in
  the evidence a proposer computes: complete non-participation from the start is not punished.
\<close>

theorem silent_validator_immune:
  assumes "\<forall>(g, active, signers) \<in> set hist. v \<notin> set signers"
  shows "\<not> is_downtime_at (liveness (replay_signatures hist)) v h \<and>
    (\<forall>e \<in> set (compute_jail_evidence (replay_signatures hist) active h). je_validator e \<noteq> v)"
proof -
  have "hget (first_seen (liveness (replay_signatures hist))) v = None"
    using assms
  proof (induction hist rule: rev_induct)
    case Nil
    then show ?case
      by (simp add: replay_signatures_def SlashingEngine_new_def LivenessTracker_new_def)
  next
    case (snoc b hist)
    then show ?case
      by (cases b) (simp add: replay_snoc record_block_signatures_def record_signers_first_seen)
  qed
  then have "\<not> is_downtime_at (liveness (replay_signatures hist)) v h"
    by (simp add: is_downtime_at_entries)
  then show ?thesis by (auto simp: compute_jail_evidence_def case_prod_beta)
qed

theorem silent_validator_immune_witness:
  "\<not> is_downtime_at (liveness (replay_signatures [(1, [''c''], [''a'', ''b''])])) ''c'' 1000000"
  using silent_validator_immune [of "[(1, [''c''], [''a'', ''b''])]" "''c''" 1000000] by simp

text \<open>
  Resetting a validator's records after a downtime slash does not give it a new window: a
  validator found down at a height is still down after the reset, at that height and every later one,
  until it signs again.
\<close>

theorem reset_still_downtime:
  assumes "is_downtime_at t v h" and "h \<le> h'"
  shows "is_downtime_at (reset_liveness t v) v h'"
proof -
  have "entries_of (reset_liveness t v) v = []"
    by (simp add: reset_liveness_def entries_of_def hget_hdel)
  with assms show ?thesis
    by (auto simp: is_downtime_at_entries reset_liveness_def MIN_SIGNED_PER_WINDOW_def)
qed

theorem reset_still_downtime_witness:
  "is_downtime_at (reset_liveness \<lparr>lt_records = [], first_seen = [(''a'', 1)]\<rparr> ''a'') ''a'' 20001"
  by (rule reset_still_downtime [of _ _ 20000])
    (simp_all add: is_downtime_at_def LIVENESS_WINDOW_def MIN_SIGNED_PER_WINDOW_def)

end
