(* ===== verification/Slashing_Thms.thy ===== *)
theory Slashing_Thms
  imports Slashing_Liveness Staking_Sets
begin

text \<open>
  What the slashing engine does to the stake registry: double signing is punished once and for good,
  downtime jails, and the detector reports conflicting blocks.
\<close>

section \<open>Double signing\<close>

lemma process_double_sign_new:
  assumes "process_double_sign eng r ev = (Ok amt, eng1, r1)"
    and "evidence_id ev \<notin> set (processed (double_sign eng))"
  obtains r0 u where "slash r (ev_validator ev) DOUBLE_SIGN_SLASH_BP = (Ok amt, r0)"
    and "tombstone r0 (ev_validator ev) = (Ok u, r1)"
    and "total_slashed eng1 = saturating_add_u64 (total_slashed eng) amt"
  using assms
  by (auto simp: process_double_sign_def process_evidence_def split: if_splits result.splits prod.splits)

lemma tombstone_sets:
  assumes "tombstone r v = (Ok u, r')"
  shows "\<exists>val. hget (validators r') v = Some val \<and> is_tombstoned val \<and> is_jailed val"
  using assms by (auto simp: tombstone_def update_active_set_def hget_hput split: ok_or_splits)

text \<open>
  (C23) Fresh evidence that the engine accepts slashes the validator by a fifth of its stake, adds the
  amount to the total, and removes it for good: it is jailed, tombstoned and inactive, and after any
  later registry operations every further evidence against it is refused without effect, so a
  validator is slashed for double signing at most once.
\<close>

theorem double_sign_punished_once:
  assumes "reg_inv r" and "process_double_sign eng r ev = (Ok amt, eng1, r1)"
    and "evidence_id ev \<notin> set (processed (double_sign eng))"
    and "get_validator r (ev_validator ev) = Some val"
    and "run_stake_ops r1 ops = Some r2" and "list_all stake_op_in_range ops"
    and "ev_validator ev2 = ev_validator ev"
  shows "amt = total_stake val div 5 \<and> total_slashed eng1 = saturating_add_u64 (total_slashed eng) amt \<and>
    (\<exists>val1. get_validator r1 (ev_validator ev) = Some val1 \<and> is_jailed val1 \<and> is_tombstoned val1) \<and>
    \<not> is_active r2 (ev_validator ev) \<and>
    process_double_sign eng2 r2 ev2 = (Err (InvalidTransaction ''validator already tombstoned''), eng2, r2)"
proof (rule process_double_sign_new [OF assms(2,3)])
  let ?v = "ev_validator ev"
  fix r0 u
  assume sl: "slash r ?v DOUBLE_SIGN_SLASH_BP = (Ok amt, r0)" and tomb: "tombstone r0 ?v = (Ok u, r1)"
    and tot: "total_slashed eng1 = saturating_add_u64 (total_slashed eng) amt"
  have core: "reg_core r" using assms(1) by (simp add: reg_inv_def)
  have "total_stake val \<le> U64_MAX" by (simp add: total_stake_def)
  then have fits: "total_stake val div 5 \<le> U64_MAX" by (rule le_trans [OF div_le_dividend])
  have "amt = as_u64 (total_stake val * DOUBLE_SIGN_SLASH_BP div 10000)"
    by (rule slash_Ok [OF core sl]) (use assms(4) in \<open>simp add: get_validator_def\<close>)
  also have "total_stake val * DOUBLE_SIGN_SLASH_BP div 10000 = total_stake val div 5"
    by (simp add: DOUBLE_SIGN_SLASH_BP_def)
  finally have amt: "amt = total_stake val div 5" using fits by simp
  have inv0: "reg_inv r0" by (rule slash_inv [OF assms(1) sl])
  have inv1: "reg_inv r1" by (rule tombstone_inv [OF inv0 tomb])
  have t1: "tombstoned_in r1 ?v" using tombstone_sets [OF tomb] by (auto simp: tombstoned_in_def)
  from run_tombstoned [OF inv1 t1 assms(5,6)] have t2: "tombstoned_in r2 ?v" .
  have "reg_inv r2" by (rule stake.steps_inv [OF run_stake_ops_steps [OF assms(5,6)] inv1])
  with t2 have "\<not> is_active r2 ?v"
    by (auto simp: tombstoned_in_def is_active_def reg_inv_def active_ok_def is_active_eligible_def)
  moreover have "process_double_sign eng2 r2 ev2 = (Err (InvalidTransaction ''validator already tombstoned''), eng2, r2)"
    using t2 assms(7) by (auto simp: process_double_sign_def tombstoned_in_def get_validator_def)
  ultimately show ?thesis
    using amt tot tombstone_sets [OF tomb] by (auto simp: get_validator_def)
qed

definition example_evidence :: double_sign_evidence where
  "example_evidence = \<lparr>ev_validator = ''b'', ev_height = 9, block_hash_a = ''x'', block_hash_b = ''y'',
     signature_a = '''', signature_b = ''s''\<rparr>"

theorem double_sign_punished_once_witness:
  "\<exists>eng1 r1. process_double_sign SlashingEngine_new example_reg example_evidence = (Ok 300000000008, eng1, r1) \<and>
    process_double_sign eng1 r1 example_evidence =
      (Err (InvalidTransaction ''validator already tombstoned''), eng1, r1)"
proof -
  obtain v0 where v0: "get_validator example_reg ''b'' = Some v0" and stake: "total_stake v0 = 1500000000040" "\<not> is_tombstoned v0"
    by (simp add: get_validator_def example_reg_def total_stake_def saturating_add_u64_def U64_MAX_def)
  have val: "get_validator example_reg (ev_validator example_evidence) = Some v0"
    using v0 by (simp add: example_evidence_def)
  have new: "evidence_id example_evidence \<notin> set (processed (double_sign SlashingEngine_new))"
    by (simp add: SlashingEngine_new_def DoubleSignDetector_default_def)
  have hget: "hget (validators example_reg) ''b'' = Some v0"
    using v0 by (simp add: get_validator_def)
  obtain amt r0 where sl: "slash example_reg ''b'' DOUBLE_SIGN_SLASH_BP = (Ok amt, r0)"
  proof (rule slash_returns [OF hget])
    have "(1500000000040 :: nat) * 2000 = 3000000000080000" by simp
    then show "total_stake v0 * DOUBLE_SIGN_SLASH_BP \<le> U128_MAX"
      unfolding stake DOUBLE_SIGN_SLASH_BP_def U128_MAX_def by linarith
  qed
  have "reg_core example_reg" using example_inv by (simp add: reg_inv_def)
  then have "\<exists>val0. hget (validators r0) ''b'' = Some val0"
    by (rule slash_Ok [OF _ sl]) (simp add: update_active_set_def hget_hput)
  then obtain r1 where tomb: "tombstone r0 ''b'' = (Ok (), r1)" by (auto simp: tombstone_def)
  obtain eng1 where run: "process_double_sign SlashingEngine_new example_reg example_evidence = (Ok amt, eng1, r1)"
    using sl tomb v0 stake(2)
    by (simp add: process_double_sign_def process_evidence_def example_evidence_def SlashingEngine_new_def
        DoubleSignDetector_default_def)
  from double_sign_punished_once [OF example_inv run new val, of "[]" r1 example_evidence eng1] run stake(1)
  show ?thesis by simp
qed

section \<open>Downtime\<close>

definition jailed_in :: "stake_registry \<Rightarrow> string \<Rightarrow> bool" where
  "jailed_in r v \<longleftrightarrow> (\<exists>val. hget (validators r) v = Some val \<and> is_jailed val)"

lemma slash_keeps_jailed:
  assumes "reg_core r" and "slash r w bp = (Ok amt, r')" and "jailed_in r v"
  shows "jailed_in r' v"
  by (rule slash_Ok [OF assms(1,2)]) (use assms(3) in \<open>auto simp: jailed_in_def update_active_set_def hget_hput\<close>)

lemma slash_Err_same: "slash r v bp = (Err e, r') \<Longrightarrow> r' = r"
  by (auto simp: slash_def split: ok_or_splits prod.splits if_splits)

lemma slash_finds:
  assumes "reg_core r" and "slash r v bp = (Ok amt, r')"
  shows "\<exists>val. hget (validators r') v = Some val"
  by (rule slash_Ok [OF assms]) (simp add: update_active_set_def hget_hput)

lemma jail_jails:
  assumes "hget (validators r) v = Some val"
  shows "jailed_in (snd (jail r v dur h)) v" "jailed_in r w \<Longrightarrow> jailed_in (snd (jail r v dur h)) w"
  using assms by (auto simp: jailed_in_def jail_def update_active_set_def hget_hput)

lemma check_liveness_jails:
  assumes "reg_inv r" and "check_liveness eng r vs h = (slashed, eng', r')"
  shows "reg_inv r' \<and> (\<forall>v. jailed_in r v \<longrightarrow> jailed_in r' v) \<and> (\<forall>(v, a) \<in> set slashed. jailed_in r' v \<and> \<not> jailed_in r v)"
  using assms
proof (induction eng r vs h arbitrary: slashed eng' r' rule: check_liveness.induct)
  case (1 eng r h)
  then show ?case by simp
next
  case (2 eng r v vs h)
  let ?jailed = "case get_validator r v of Some v \<Rightarrow> is_jailed v | None \<Rightarrow> False"
  have core: "reg_core r" using 2(5) by (simp add: reg_inv_def)
  show ?case
  proof (cases "is_downtime_at (liveness eng) v h \<and> \<not> ?jailed")
    case False
    then show ?thesis using 2 by (auto split: if_splits)
  next
    case True
    obtain res r1 where sl: "slash r v DOWNTIME_SLASH_BP = (res, r1)" by (cases "slash r v DOWNTIME_SLASH_BP")
    show ?thesis
    proof (cases res)
      case (Err e)
      then have "r1 = r" using sl slash_Err_same by simp
      then show ?thesis using 2(4) [OF _ _ sl [symmetric] Err] 2(5,6) True Err sl by auto
    next
      case (Ok amt)
      let ?r2 = "snd (jail r1 v DOWNTIME_JAIL_BLOCKS h)"
      let ?eng1 = "eng\<lparr>liveness := reset_liveness (liveness eng) v,
        total_slashed := saturating_add_u64 (total_slashed eng) amt\<rparr>"
      obtain sl' e2 r3 where rest: "check_liveness ?eng1 ?r2 vs h = (sl', e2, r3)"
        by (cases "check_liveness ?eng1 ?r2 vs h")
      have out: "slashed = (v, amt) # sl'" "r' = r3"
        using 2(6) True sl Ok rest by simp_all
      have inv1: "reg_inv r1" using slash_inv [OF 2(5)] sl Ok by simp
      obtain val where val: "hget (validators r1) v = Some val"
        using slash_finds [OF core] sl Ok by blast
      have "jail r1 v DOWNTIME_JAIL_BLOCKS h = (Ok (), ?r2)" using val by (simp add: jail_def)
      then have inv2: "reg_inv ?r2" by (rule jail_inv [OF inv1])
      have IH: "reg_inv r3 \<and> (\<forall>w. jailed_in ?r2 w \<longrightarrow> jailed_in r3 w) \<and>
          (\<forall>(w, a) \<in> set sl'. jailed_in r3 w \<and> \<not> jailed_in ?r2 w)"
        using 2(3) [OF _ _ sl [symmetric] Ok refl refl inv2 rest] True by simp
      have keep: "jailed_in ?r2 w" if "jailed_in r w" for w
        using slash_keeps_jailed [OF core _ that] sl Ok jail_jails(2) [OF val] by blast
      have "\<not> jailed_in r v" using True by (auto simp: jailed_in_def get_validator_def)
      with IH keep jail_jails(1) [OF val] show ?thesis unfolding out by auto
    qed
  qed
qed

text \<open>
  A pass of the liveness check keeps the registry's invariant and jails exactly whom it slashes:
  every validator it reports was not jailed before and is jailed and inactive after, so one pass
  slashes nobody twice, and nobody is released by it.
\<close>

theorem liveness_check_jails:
  assumes "reg_inv r" and "check_liveness eng r vs h = (slashed, eng', r')"
  shows "reg_inv r' \<and>
    (\<forall>(v, a) \<in> set slashed. (\<exists>val. get_validator r' v = Some val \<and> is_jailed val) \<and> \<not> is_active r' v \<and>
      \<not> (\<exists>val. get_validator r v = Some val \<and> is_jailed val)) \<and>
    (\<forall>v val. get_validator r v = Some val \<and> is_jailed val \<longrightarrow>
      (\<exists>val'. get_validator r' v = Some val' \<and> is_jailed val'))"
proof -
  note res = check_liveness_jails [OF assms]
  have "\<not> is_active r' v" if "jailed_in r' v" for v
    using that res by (auto simp: jailed_in_def is_active_def reg_inv_def active_ok_def is_active_eligible_def)
  with res show ?thesis unfolding jailed_in_def get_validator_def by fastforce
qed

theorem liveness_check_jails_witness:
  "\<exists>slashed eng' r'. check_liveness
      (SlashingEngine_new\<lparr>liveness := \<lparr>lt_records = [], first_seen = [(''a'', 1)]\<rparr>\<rparr>) example_reg [''a'', ''b''] 20000 =
        (slashed, eng', r') \<and> slashed \<noteq> [] \<and> \<not> is_active r' ''a''"
proof -
  let ?eng = "SlashingEngine_new\<lparr>liveness := \<lparr>lt_records = [], first_seen = [(''a'', 1)]\<rparr>\<rparr>"
  obtain slashed eng' r' where run: "check_liveness ?eng example_reg [''a'', ''b''] 20000 = (slashed, eng', r')"
    by (cases "check_liveness ?eng example_reg [''a'', ''b''] 20000")
  obtain v0 where v0: "hget (validators example_reg) ''a'' = Some v0" "total_stake v0 = 2000000000200" "\<not> is_jailed v0"
    by (simp add: example_reg_def total_stake_def saturating_add_u64_def U64_MAX_def)
  obtain amt r0 where sl: "slash example_reg ''a'' DOWNTIME_SLASH_BP = (Ok amt, r0)"
  proof (rule slash_returns [OF v0(1)])
    have "(2000000000200 :: nat) * 10 = 20000000002000" by simp
    then show "total_stake v0 * DOWNTIME_SLASH_BP \<le> U128_MAX"
      unfolding v0 DOWNTIME_SLASH_BP_def U128_MAX_def by linarith
  qed
  have "\<exists>sl'. slashed = (''a'', amt) # sl'"
    using run sl v0 by (auto simp: is_downtime_at_def LIVENESS_WINDOW_def MIN_SIGNED_PER_WINDOW_def get_validator_def
        split: prod.splits)
  with liveness_check_jails [OF example_inv run] run show ?thesis by auto
qed

section \<open>The detector\<close>

lemma hget_filter_height:
  "c < h \<Longrightarrow> hget (filter (\<lambda>((w, g), b). c < g) m) (v, h) = hget m (v, h)"
  for m :: "(string \<times> u64, string) hmap"
  by (induction m) auto

lemma record_block_keeps:
  assumes "hget (recent_blocks det) (v, h) = Some b" and "0 < h" and "g < h + LIVENESS_WINDOW * 10"
  shows "hget (recent_blocks (snd (record_block det w g c sig))) (v, h) = Some b"
proof (cases "hget (recent_blocks det) (w, g)")
  case None
  have "g - LIVENESS_WINDOW * 10 < h" using assms(2,3) by linarith
  with None assms(1) show ?thesis by (auto simp: record_block_def hget_hput hget_filter_height)
qed (use assms(1) in \<open>simp add: record_block_def\<close>)

lemma record_block_stores:
  assumes "hget (recent_blocks det) (v, h) = None" and "0 < h"
  shows "hget (recent_blocks (snd (record_block det v h b sig))) (v, h) = Some b"
proof -
  have "h - LIVENESS_WINDOW * 10 < h" using assms(2) by (simp add: LIVENESS_WINDOW_def)
  with assms(1) show ?thesis by (simp add: record_block_def hget_hput hget_filter_height)
qed

fun record_blocks :: "double_sign_detector \<Rightarrow> (string \<times> u64 \<times> string \<times> string) list \<Rightarrow> double_sign_detector" where
  "record_blocks det [] = det"
| "record_blocks det ((v, h, b, sig) # bs) = record_blocks (snd (record_block det v h b sig)) bs"

lemma record_blocks_keep:
  assumes "hget (recent_blocks det) (v, h) = Some b" and "0 < h"
    and "\<forall>(w, g, c, sig) \<in> set bs. g < h + LIVENESS_WINDOW * 10"
  shows "hget (recent_blocks (record_blocks det bs)) (v, h) = Some b"
  using assms
  by (induction det bs rule: record_blocks.induct) (auto intro: record_block_keeps)

text \<open>
  The detector reports equivocation: once a block of a validator at a positive height is
  recorded, a block with another hash for the same height yields evidence with both hashes, whatever
  was recorded in between, up to ten windows above the height.
\<close>

theorem equivocation_detected:
  assumes "hget (recent_blocks det) (v, h) = None" and "0 < h"
    and "\<forall>(w, g, c, sig) \<in> set bs. g < h + LIVENESS_WINDOW * 10" and "a \<noteq> b"
  shows "\<exists>ev. fst (record_block (record_blocks (snd (record_block det v h a sig_a)) bs) v h b sig_b) = Some ev \<and>
    ev_validator ev = v \<and> ev_height ev = h \<and> block_hash_a ev = a \<and> block_hash_b ev = b"
  using record_blocks_keep [OF record_block_stores [OF assms(1,2)] assms(2,3)] assms(4)
  by (simp add: record_block_def)

theorem equivocation_detected_witness:
  "\<exists>ev. fst (record_block (record_blocks (snd (record_block DoubleSignDetector_new ''a'' 5 ''x'' ''s''))
      [(''b'', 6, ''y'', ''t'')]) ''a'' 5 ''z'' ''u'') = Some ev \<and> ev_validator ev = ''a'' \<and> ev_height ev = 5 \<and>
      block_hash_a ev = ''x'' \<and> block_hash_b ev = ''z''"
  by (rule equivocation_detected) (simp_all add: DoubleSignDetector_new_def LIVENESS_WINDOW_def)

text \<open>
  The engine's detector starts with a capacity of zero, because the derived default is used and
  not the detector's own constructor: a block recorded at height 0 is dropped at once, and a
  conflicting block for it is not reported.
\<close>

theorem engine_detector_drops_genesis:
  "fst (record_block (snd (record_block (double_sign SlashingEngine_new) v 0 a sig_a)) v 0 b sig_b) = None \<and>
    max_entries (double_sign SlashingEngine_new) \<noteq> max_entries DoubleSignDetector_new"
  by (simp add: SlashingEngine_new_def DoubleSignDetector_default_def DoubleSignDetector_new_def record_block_def)

end
