(* ===== verification/Epoch.thy ===== *)
theory Epoch
  imports Staking_Props
begin

text \<open>
  Epochs, \<open>sentrix-staking/src/epoch.rs\<close>: the arithmetic of epoch boundaries, the epoch manager with its
  bounded history, and the transition that releases matured unbonding and refreezes the validator
  set. Plain \<open>u64\<close> arithmetic wraps, as in the release build.
\<close>

record epoch_info =
  epoch_number :: u64
  start_height :: u64
  end_height :: u64
  validator_set :: "string list"
  total_staked :: u64
  total_rewards :: u64
  total_blocks_produced :: u64

definition EpochInfo_genesis :: epoch_info where
  "EpochInfo_genesis =
    \<lparr>epoch_number = 0, start_height = 0, end_height = saturating_sub EPOCH_LENGTH 1, validator_set = [],
     total_staked = 0, total_rewards = 0, total_blocks_produced = 0\<rparr>"

definition contains_height :: "epoch_info \<Rightarrow> u64 \<Rightarrow> bool" where
  "contains_height e h \<longleftrightarrow> start_height e \<le> h \<and> h \<le> end_height e"

record epoch_manager =
  current_epoch :: epoch_info
  epoch_history :: "epoch_info list"
  max_history :: usize

definition EpochManager_new :: epoch_manager where
  "EpochManager_new = \<lparr>current_epoch = EpochInfo_genesis, epoch_history = [], max_history = 100\<rparr>"

definition epoch_for_height :: "u64 \<Rightarrow> u64" where
  "epoch_for_height h = h div EPOCH_LENGTH"

definition is_epoch_boundary :: "u64 \<Rightarrow> bool" where
  "is_epoch_boundary h \<longleftrightarrow> 0 < h \<and> is_multiple_of (wrapping_add_u64 h 1) EPOCH_LENGTH"

definition is_epoch_start :: "u64 \<Rightarrow> bool" where
  "is_epoch_start h \<longleftrightarrow> is_multiple_of h EPOCH_LENGTH"

text \<open>The epoch record that both \<open>initialize\<close> and \<open>transition\<close> build.\<close>

definition fresh_epoch :: "u64 \<Rightarrow> string list \<Rightarrow> u64 \<Rightarrow> epoch_info" where
  "fresh_epoch num active staked =
    (let start = wrapping_mul_u64 num EPOCH_LENGTH
     in \<lparr>epoch_number = num, start_height = start,
         end_height = wrapping_sub_u64 (wrapping_add_u64 start EPOCH_LENGTH) 1,
         validator_set = active, total_staked = staked, total_rewards = 0, total_blocks_produced = 0\<rparr>)"

definition staked_by :: "stake_registry \<Rightarrow> string list \<Rightarrow> u64" where
  "staked_by r active = sum_u64 (map total_stake (List.map_filter (get_validator r) active))"

definition initialize_epoch :: "epoch_manager \<Rightarrow> stake_registry \<Rightarrow> u64 \<Rightarrow> epoch_manager" where
  "initialize_epoch em r fork_height =
    (let active = compute_active_set r
     in em\<lparr>current_epoch := fresh_epoch (epoch_for_height fork_height) active (staked_by r active)\<rparr>)"

definition transition ::
  "epoch_manager \<Rightarrow> stake_registry \<Rightarrow> u64 \<Rightarrow> (string \<times> u64) list result \<times> epoch_manager \<times> stake_registry" where
  "transition em r current_height =
    (let hist = epoch_history em @ [current_epoch em];
         hist1 = (if max_history em < length hist then tl hist else hist);
         (released, r1) = process_unbonding r current_height;
         r2 = update_active_set r1;
         active = active_set r2;
         next_epoch = wrapping_add_u64 (epoch_number (current_epoch em)) 1
     in (Ok released,
         em\<lparr>current_epoch := fresh_epoch next_epoch active (staked_by r2 active), epoch_history := hist1\<rparr>, r2))"

definition record_epoch_block :: "epoch_manager \<Rightarrow> u64 \<Rightarrow> epoch_manager" where
  "record_epoch_block em reward =
    (let e = current_epoch em
     in em\<lparr>current_epoch := e\<lparr>total_blocks_produced := wrapping_add_u64 (total_blocks_produced e) 1,
                              total_rewards := saturating_add_u64 (total_rewards e) reward\<rparr>\<rparr>)"

definition get_proposer :: "epoch_manager \<Rightarrow> stake_registry \<Rightarrow> u64 \<Rightarrow> u32 \<Rightarrow> string option" where
  "get_proposer em r h rnd =
    (if validator_set (current_epoch em) = [] then None else weighted_proposer r h rnd)"

definition is_current_validator :: "epoch_manager \<Rightarrow> string \<Rightarrow> bool" where
  "is_current_validator em address \<longleftrightarrow> address \<in> set (validator_set (current_epoch em))"

definition get_epoch :: "epoch_manager \<Rightarrow> u64 \<Rightarrow> epoch_info option" where
  "get_epoch em n =
    (if n = epoch_number (current_epoch em) then Some (current_epoch em)
     else find (\<lambda>e. epoch_number e = n) (epoch_history em))"

definition recent_epochs :: "epoch_manager \<Rightarrow> usize \<Rightarrow> epoch_info list" where
  "recent_epochs em cnt =
    current_epoch em # take (saturating_sub cnt 1) (rev (epoch_history em))"

section \<open>Invariant\<close>

definition epoch_ok :: "epoch_info \<Rightarrow> bool" where
  "epoch_ok e \<longleftrightarrow> start_height e = epoch_number e * EPOCH_LENGTH \<and>
    end_height e = epoch_number e * EPOCH_LENGTH + (EPOCH_LENGTH - 1)"

text \<open>The archived epochs and the current one have consecutive numbers, oldest first.\<close>

definition epoch_inv :: "epoch_manager \<Rightarrow> bool" where
  "epoch_inv em \<longleftrightarrow> length (epoch_history em) \<le> max_history em \<and>
    (\<forall>e \<in> set (epoch_history em @ [current_epoch em]). epoch_ok e) \<and>
    (\<forall>i < length (epoch_history em).
      epoch_number (epoch_history em ! i) + (length (epoch_history em) - i) = epoch_number (current_epoch em))"

datatype epoch_op = EpTransition stake_registry u64 | EpRecord u64

text \<open>Steps up to the last epoch whose heights all fit a \<open>u64\<close>.\<close>

fun epoch_step :: "epoch_manager \<Rightarrow> epoch_op \<Rightarrow> epoch_manager \<Rightarrow> bool" where
  "epoch_step em (EpTransition r h) em' =
    ((epoch_number (current_epoch em) + 2) * EPOCH_LENGTH \<le> U64_MAX \<and> em' = fst (snd (transition em r h)))"
| "epoch_step em (EpRecord reward) em' = (em' = record_epoch_block em reward)"

lemma fresh_epoch_ok:
  assumes "(n + 1) * EPOCH_LENGTH \<le> U64_MAX"
  shows "epoch_ok (fresh_epoch n active staked)"
proof -
  have "n * EPOCH_LENGTH + EPOCH_LENGTH \<le> U64_MAX" using assms by (simp add: add_mult_distrib)
  then show ?thesis
    by (simp add: epoch_ok_def fresh_epoch_def wrapping_mul_u64_id wrapping_add_u64_id wrapping_sub_u64_id)
      (simp add: EPOCH_LENGTH_def wrapping_sub_u64_id)
qed

lemma transition_state:
  "fst (snd (transition em r h)) =
    em\<lparr>current_epoch := fresh_epoch (wrapping_add_u64 (epoch_number (current_epoch em)) 1)
         (compute_active_set (snd (process_unbonding r h)))
         (staked_by (snd (snd (transition em r h))) (compute_active_set (snd (process_unbonding r h)))),
       epoch_history := (let hist = epoch_history em @ [current_epoch em]
         in if max_history em < length hist then tl hist else hist)\<rparr>"
  by (simp add: transition_def update_active_set_def case_prod_beta)

lemma epoch_inv_transition:
  assumes "epoch_inv em" and "(epoch_number (current_epoch em) + 2) * EPOCH_LENGTH \<le> U64_MAX"
  shows "epoch_inv (fst (snd (transition em r h)))"
proof -
  let ?cur = "current_epoch em" and ?hist = "epoch_history em"
  define e where "e = current_epoch (fst (snd (transition em r h)))"
  define hist where "hist = epoch_history (fst (snd (transition em r h)))"
  have small: "epoch_number ?cur + 1 \<le> U64_MAX"
    using assms(2) by (simp add: EPOCH_LENGTH_def U64_MAX_def)
  then have "wrapping_add_u64 (epoch_number ?cur) 1 = epoch_number ?cur + 1"
    by (simp add: wrapping_add_u64_def U64_MAX_def)
  then have e: "epoch_number e = epoch_number ?cur + 1" "epoch_ok e"
    using fresh_epoch_ok [of "epoch_number ?cur + 1"] assms(2)
    unfolding e_def transition_state by (simp_all add: fresh_epoch_def)
  have len: "length ?hist \<le> max_history em" and ok: "\<forall>e \<in> set (?hist @ [?cur]). epoch_ok e"
    and nums: "\<And>i. i < length ?hist \<Longrightarrow> epoch_number (?hist ! i) + (length ?hist - i) = epoch_number ?cur"
    using assms(1) by (auto simp: epoch_inv_def)
  have all: "epoch_number ((?hist @ [?cur]) ! i) + (Suc (length ?hist) - i) = epoch_number e"
    if "i < Suc (length ?hist)" for i
    using nums [of i] that e(1) by (cases "i = length ?hist") (auto simp: nth_append)
  have hist: "hist = (if max_history em < Suc (length ?hist) then tl (?hist @ [?cur]) else ?hist @ [?cur])"
    unfolding hist_def transition_state by simp
  have "length hist \<le> max_history em" using len by (auto simp: hist)
  moreover have "\<forall>e' \<in> set (hist @ [e]). epoch_ok e'"
  proof -
    have "set (tl (?hist @ [?cur])) \<subseteq> set (?hist @ [?cur])" by (cases "?hist @ [?cur]") auto
    with ok e(2) show ?thesis by (auto simp: hist)
  qed
  moreover have "epoch_number (hist ! i) + (length hist - i) = epoch_number e" if "i < length hist" for i
    using that all [of i] all [of "Suc i"] by (auto simp: hist nth_tl split: if_splits)
  moreover have "max_history (fst (snd (transition em r h))) = max_history em"
    unfolding transition_state by simp
  ultimately show ?thesis by (simp add: epoch_inv_def flip: e_def hist_def)
qed

interpretation epochs: transition_system "\<lambda>em. em = EpochManager_new" epoch_step epoch_inv
proof
  show "epoch_inv em" if "em = EpochManager_new" for em
    using that by (simp add: epoch_inv_def EpochManager_new_def EpochInfo_genesis_def epoch_ok_def)
  show "epoch_inv em'" if inv: "epoch_inv em" and step: "epoch_step em op em'" for em op em'
  proof (cases op)
    case (EpTransition r h)
    with step epoch_inv_transition [OF inv] show ?thesis by simp
  next
    case (EpRecord reward)
    with step inv show ?thesis by (auto simp: epoch_inv_def epoch_ok_def record_epoch_block_def)
  qed
qed

section \<open>Properties\<close>

text \<open>
  (C26) Epochs partition the heights: in every manager reached by transitions and block records, the
  current epoch contains exactly the heights whose epoch number it has, its last height is the
  epoch boundary, the transition there makes the next epoch start right after it, and the archive is
  bounded with the epochs just before the current one, each found under its number.
\<close>

theorem epochs_partition_heights:
  assumes "epochs.reach em" and "(epoch_number (current_epoch em) + 2) * EPOCH_LENGTH \<le> U64_MAX"
  shows "(\<forall>h. contains_height (current_epoch em) h \<longleftrightarrow> epoch_for_height h = epoch_number (current_epoch em)) \<and>
    is_epoch_boundary (end_height (current_epoch em)) \<and>
    start_height (current_epoch (fst (snd (transition em r g)))) = end_height (current_epoch em) + 1 \<and>
    length (epoch_history em) \<le> max_history em \<and>
    (\<forall>n. epoch_number (current_epoch em) \<le> n + length (epoch_history em) \<and> n \<le> epoch_number (current_epoch em) \<longrightarrow>
      (\<exists>e. get_epoch em n = Some e \<and> epoch_number e = n))"
proof -
  let ?cur = "current_epoch em" and ?hist = "epoch_history em"
  have inv: "epoch_inv em" by (rule epochs.reach_inv [OF assms(1)])
  then have ok: "epoch_ok ?cur" and len: "length ?hist \<le> max_history em"
    and nums: "\<And>i. i < length ?hist \<Longrightarrow> epoch_number (?hist ! i) + (length ?hist - i) = epoch_number ?cur"
    by (auto simp: epoch_inv_def)
  let ?n = "epoch_number ?cur"
  have bounds: "start_height ?cur = ?n * EPOCH_LENGTH" "end_height ?cur = ?n * EPOCH_LENGTH + (EPOCH_LENGTH - 1)"
    using ok by (simp_all add: epoch_ok_def)
  have "contains_height ?cur h \<longleftrightarrow> epoch_for_height h = ?n" for h
    unfolding contains_height_def epoch_for_height_def bounds EPOCH_LENGTH_def by auto
  moreover have "is_epoch_boundary (end_height ?cur)"
  proof -
    have "wrapping_add_u64 (end_height ?cur) 1 = (?n + 1) * EPOCH_LENGTH"
      using assms(2) by (simp add: bounds wrapping_add_u64_def EPOCH_LENGTH_def U64_MAX_def)
    then show ?thesis by (simp add: is_epoch_boundary_def is_multiple_of_def bounds EPOCH_LENGTH_def)
  qed
  moreover have "start_height (current_epoch (fst (snd (transition em r g)))) = end_height ?cur + 1"
    using assms(2) unfolding transition_state bounds
    by (simp add: fresh_epoch_def wrapping_add_u64_def wrapping_mul_u64_def EPOCH_LENGTH_def U64_MAX_def)
  moreover have "\<exists>e. get_epoch em n = Some e \<and> epoch_number e = n"
    if n: "?n \<le> n + length ?hist" "n \<le> ?n" for n
  proof (cases "n = ?n")
    case True
    then show ?thesis by (simp add: get_epoch_def)
  next
    case False
    define i where "i = length ?hist - (?n - n)"
    have i: "i < length ?hist" using False n by (simp add: i_def)
    then have "epoch_number (?hist ! i) = n" using nums [OF i] n False by (simp add: i_def)
    then have "find (\<lambda>e. epoch_number e = n) ?hist \<noteq> None"
      using nth_mem [OF i] unfolding find_None_iff by blast
    then obtain e where e: "find (\<lambda>e. epoch_number e = n) ?hist = Some e" by blast
    then have "epoch_number e = n" by (auto simp: find_Some_iff)
    with e False show ?thesis by (simp add: get_epoch_def)
  qed
  ultimately show ?thesis using len by blast
qed

theorem epochs_partition_heights_witness:
  "contains_height (current_epoch EpochManager_new) 28799 \<and> is_epoch_boundary 28799"
proof -
  have reach: "epochs.reach EpochManager_new" by (rule epochs.reach_init) simp
  have fits: "(epoch_number (current_epoch EpochManager_new) + 2) * EPOCH_LENGTH \<le> U64_MAX"
    by (simp add: EpochManager_new_def EpochInfo_genesis_def EPOCH_LENGTH_def U64_MAX_def)
  note parts = epochs_partition_heights [OF reach fits, of StakeRegistry_new 28799]
  have "contains_height (current_epoch EpochManager_new) 28799"
    using parts by (simp add: EpochManager_new_def EpochInfo_genesis_def epoch_for_height_def EPOCH_LENGTH_def)
  moreover have "is_epoch_boundary (end_height (current_epoch EpochManager_new))" using parts by blast
  ultimately show ?thesis by (simp add: EpochManager_new_def EpochInfo_genesis_def EPOCH_LENGTH_def)
qed

end
