(* ===== verification/Last_Sign_Guard.thy ===== *)
theory Last_Sign_Guard
  imports Rust_Prelude
begin

text \<open>
  The last-sign guard of \<open>sentrix-bft/src/last_sign_guard.rs\<close>: the state of the process-wide
  \<open>GUARD\<close>, the state file behind it, and every operation on them. SHA-256 with hex encoding is the
  parameter \<open>hash_payload\<close>. Whether \<open>write_atomic\<close> succeeds is an argument of each call: it either
  replaces the whole file or, on any error before the rename, leaves the file as it was.
\<close>

section \<open>State\<close>

datatype vote_step = StepProposal | StepPrevote | StepPrecommit | StepOther

primrec step_ord :: "vote_step \<Rightarrow> u32" where
  "step_ord StepProposal = 0"
| "step_ord StepPrevote = 1"
| "step_ord StepPrecommit = 2"
| "step_ord StepOther = 99"

record last_sign_state =
  ls_height :: u64
  ls_round :: u32
  ls_step :: u32
  last_sign_bytes_hex :: string

definition LastSignState_default :: last_sign_state where
  "LastSignState_default = \<lparr>ls_height = 0, ls_round = 0, ls_step = 0, last_sign_bytes_hex = ''''\<rparr>"

datatype state_file = Missing | Corrupt | Saved last_sign_state

record sign_process =
  guard :: "last_sign_state option"
  state_file :: state_file

type_synonym sign_tuple = "u64 \<times> u32 \<times> u32"

record double_sign_attempt =
  attempted :: sign_tuple
  last_signed :: sign_tuple

datatype io_error = InvalidData | WriteError

fun tuple_le :: "sign_tuple \<Rightarrow> sign_tuple \<Rightarrow> bool" where
  "tuple_le (h, r, s) (h', r', s') \<longleftrightarrow> h < h' \<or> h = h' \<and> (r < r' \<or> r = r' \<and> s \<le> s')"

definition tuple_of :: "last_sign_state \<Rightarrow> sign_tuple" where
  "tuple_of st = (ls_height st, ls_round st, ls_step st)"

section \<open>Operations\<close>

definition write_atomic :: "bool \<Rightarrow> last_sign_state \<Rightarrow> sign_process \<Rightarrow> (io_error + unit) \<times> sign_process" where
  "write_atomic write_ok st p =
    (if write_ok then (Inr (), p\<lparr>state_file := Saved st\<rparr>) else (Inl WriteError, p))"

definition init_guard :: "bool \<Rightarrow> sign_process \<Rightarrow> (io_error + unit) \<times> sign_process" where
  "init_guard write_ok p =
    (if guard p \<noteq> None then (Inr (), p)
     else case state_file p of
            Corrupt \<Rightarrow> (Inl InvalidData, p)
          | Saved st \<Rightarrow> (Inr (), p\<lparr>guard := Some st\<rparr>)
          | Missing \<Rightarrow>
              (case write_atomic write_ok LastSignState_default p of
                 (Inl e, p') \<Rightarrow> (Inl e, p')
               | (Inr u, p') \<Rightarrow> (Inr (), p'\<lparr>guard := Some LastSignState_default\<rparr>)))"

definition current_state :: "sign_process \<Rightarrow> last_sign_state option" where
  "current_state p = guard p"

definition check_and_record_with_bytes ::
  "(u8 list \<Rightarrow> string) \<Rightarrow> bool \<Rightarrow> u64 \<Rightarrow> u32 \<Rightarrow> vote_step \<Rightarrow> u8 list \<Rightarrow> sign_process
    \<Rightarrow> (double_sign_attempt + unit) \<times> sign_process" where
  "check_and_record_with_bytes hash_payload write_ok height round step payload_bytes p =
    (case guard p of
       None \<Rightarrow> (Inr (), p)
     | Some st \<Rightarrow>
         if step = StepOther then (Inr (), p)
         else
           let cur_tuple = tuple_of st;
               new_tuple = (height, round, step_ord step);
               refused = Inl \<lparr>attempted = new_tuple, last_signed = cur_tuple\<rparr>
           in if new_tuple = cur_tuple \<and> payload_bytes \<noteq> [] then
                if last_sign_bytes_hex st \<noteq> '''' \<and> last_sign_bytes_hex st = hash_payload payload_bytes
                then (Inr (), p) else (refused, p)
              else if tuple_le new_tuple cur_tuple then (refused, p)
              else
                let snapshot = \<lparr>ls_height = height, ls_round = round, ls_step = step_ord step,
                      last_sign_bytes_hex = (if payload_bytes \<noteq> [] then hash_payload payload_bytes else '''')\<rparr>
                in case write_atomic write_ok snapshot (p\<lparr>guard := Some snapshot\<rparr>) of
                     (Inl e, p') \<Rightarrow> (refused, p')
                   | (Inr u, p') \<Rightarrow> (Inr (), p'))"

definition check_and_record ::
  "(u8 list \<Rightarrow> string) \<Rightarrow> bool \<Rightarrow> u64 \<Rightarrow> u32 \<Rightarrow> vote_step \<Rightarrow> sign_process
    \<Rightarrow> (double_sign_attempt + unit) \<times> sign_process" where
  "check_and_record hash_payload write_ok height round step p =
    check_and_record_with_bytes hash_payload write_ok height round step [] p"

fun show_tuple :: "sign_tuple \<Rightarrow> string" where
  "show_tuple (h, r, s) = ''(h='' @ show_nat h @ '', r='' @ show_nat r @ '', s='' @ show_nat s @ '')''"

definition show_attempt :: "double_sign_attempt \<Rightarrow> string" where
  "show_attempt a = ''DoubleSignAttempt: attempted '' @ show_tuple (attempted a) @
     '' <= last_signed '' @ show_tuple (last_signed a)"

section \<open>Runs of one validator\<close>

text \<open>
  The calls the process makes over its life. A restart loses \<open>GUARD\<close> and reads the file again. A run
  lists what was signed: the tuple and the payload of every request the guard let through.
\<close>

datatype guard_event =
    SignRequest u64 u32 vote_step "u8 list" bool
  | Restart bool

fun guard_step ::
  "(u8 list \<Rightarrow> string) \<Rightarrow> guard_event \<Rightarrow> sign_process \<Rightarrow> (sign_tuple \<times> u8 list) list \<times> sign_process" where
  "guard_step hash (SignRequest h r s bytes w) p =
    (case check_and_record_with_bytes hash w h r s bytes p of
       (Inr u, p') \<Rightarrow> ([((h, r, step_ord s), bytes)], p')
     | (Inl e, p') \<Rightarrow> ([], p'))"
| "guard_step hash (Restart w) p = ([], snd (init_guard w (p\<lparr>guard := None\<rparr>)))"

fun guard_run ::
  "(u8 list \<Rightarrow> string) \<Rightarrow> guard_event list \<Rightarrow> sign_process \<Rightarrow> (sign_tuple \<times> u8 list) list \<times> sign_process" where
  "guard_run hash [] p = ([], p)"
| "guard_run hash (e # es) p =
    (let (out, p') = guard_step hash e p; (out', p'') = guard_run hash es p' in (out @ out', p''))"

primrec event_signs :: "guard_event \<Rightarrow> bool" where
  "event_signs (SignRequest h r s bytes w) \<longleftrightarrow> s \<noteq> StepOther \<and> bytes \<noteq> []"
| "event_signs (Restart w) \<longleftrightarrow> True"

primrec event_writes :: "guard_event \<Rightarrow> bool" where
  "event_writes (SignRequest h r s bytes w) \<longleftrightarrow> w"
| "event_writes (Restart w) \<longleftrightarrow> w"

primrec is_restart :: "guard_event \<Rightarrow> bool" where
  "is_restart (SignRequest h r s bytes w) \<longleftrightarrow> False"
| "is_restart (Restart w) \<longleftrightarrow> True"

text \<open>What the guard knows of everything signed so far.\<close>

definition guard_covers ::
  "(u8 list \<Rightarrow> string) \<Rightarrow> (sign_tuple \<times> u8 list) set \<Rightarrow> last_sign_state \<Rightarrow> bool" where
  "guard_covers hash S st \<longleftrightarrow>
    (\<forall>(t, b) \<in> S. tuple_le t (tuple_of st) \<and> (t = tuple_of st \<longrightarrow> last_sign_bytes_hex st = hash b))"

definition no_double_sign :: "(sign_tuple \<times> u8 list) set \<Rightarrow> bool" where
  "no_double_sign S \<longleftrightarrow> (\<forall>t b c. (t, b) \<in> S \<longrightarrow> (t, c) \<in> S \<longrightarrow> b = c)"

section \<open>The guard keeps what it covers\<close>

lemma tuple_of_make [simp]:
  "tuple_of \<lparr>ls_height = h, ls_round = r, ls_step = s, last_sign_bytes_hex = x\<rparr> = (h, r, s)"
  by (simp add: tuple_of_def)

lemma tuple_le_refl [simp]: "tuple_le t t"
  by (cases t) simp

lemma tuple_le_trans: "tuple_le a b \<Longrightarrow> tuple_le b c \<Longrightarrow> tuple_le a c"
  by (cases a; cases b; cases c) auto

lemma tuple_le_antisym: "tuple_le a b \<Longrightarrow> tuple_le b a \<Longrightarrow> a = b"
  by (cases a; cases b) auto

lemma tuple_le_linear: "\<not> tuple_le a b \<Longrightarrow> tuple_le b a"
  by (cases a; cases b) auto

lemma covers_advance:
  assumes "guard_covers hash S st" and "\<not> tuple_le t (tuple_of st)"
    and "tuple_of st' = t" and "last_sign_bytes_hex st' = hash b"
  shows "guard_covers hash (insert (t, b) S) st'" and "guard_covers hash S st'"
proof -
  have "tuple_le u t \<and> u \<noteq> t" if "(u, c) \<in> S" for u c
    using that assms(1,2) tuple_le_trans [of u "tuple_of st" t] tuple_le_linear [of t "tuple_of st"]
    by (auto simp: guard_covers_def)
  then show "guard_covers hash (insert (t, b) S) st'" and "guard_covers hash S st'"
    using assms(3,4) by (auto simp: guard_covers_def)
qed

lemma fresh_no_double_sign:
  assumes "guard_covers hash S st" and "\<not> tuple_le t (tuple_of st)" and "no_double_sign S"
  shows "no_double_sign (insert (t, b) S)"
proof -
  have "(t, c) \<notin> S" for c
    using assms(1,2) by (auto simp: guard_covers_def)
  then show ?thesis
    using assms(3) unfolding no_double_sign_def by blast
qed

lemma replay_no_double_sign:
  assumes "guard_covers hash S st" and "no_double_sign S" and "inj hash"
    and "t = tuple_of st" and "last_sign_bytes_hex st = hash b"
  shows "no_double_sign (insert (t, b) S)"
proof -
  have "c = b" if "(t, c) \<in> S" for c
    using that assms(1,3,4,5) by (auto simp: guard_covers_def dest: injD)
  then show ?thesis
    using assms(2) unfolding no_double_sign_def by blast
qed

text \<open>What a request can do to an initialised guard: nothing, a replay, or an advance.\<close>

lemma check_cases:
  assumes g: "guard p = Some st" and s: "s \<noteq> StepOther" and b: "b \<noteq> []"
  obtains (refused) e where "check_and_record_with_bytes hash w h r s b p = (Inl e, p)"
  | (replay) "check_and_record_with_bytes hash w h r s b p = (Inr (), p)"
      "tuple_of st = (h, r, step_ord s)" "last_sign_bytes_hex st = hash b"
  | (advance) st' res p' where "check_and_record_with_bytes hash w h r s b p = (res, p')"
      "\<not> tuple_le (h, r, step_ord s) (tuple_of st)" "guard p' = Some st'"
      "tuple_of st' = (h, r, step_ord s)" "last_sign_bytes_hex st' = hash b"
      "w \<Longrightarrow> state_file p' = Saved st'" "w \<longleftrightarrow> res = Inr ()"
proof -
  let ?t = "(h, r, step_ord s)"
  show thesis
  proof (cases "?t = tuple_of st")
    case same: True
    show thesis
    proof (cases "last_sign_bytes_hex st \<noteq> '''' \<and> last_sign_bytes_hex st = hash b")
      case True
      with g s b same show thesis
        by (intro replay) (auto simp: check_and_record_with_bytes_def)
    next
      case False
      with g s b same show thesis
        by (intro refused [of "\<lparr>attempted = ?t, last_signed = tuple_of st\<rparr>"])
           (auto simp: check_and_record_with_bytes_def)
    qed
  next
    case diff: False
    show thesis
    proof (cases "tuple_le ?t (tuple_of st)")
      case True
      with g s b diff show thesis
        by (intro refused [of "\<lparr>attempted = ?t, last_signed = tuple_of st\<rparr>"])
           (simp add: check_and_record_with_bytes_def)
    next
      case False
      define st' where "st' = \<lparr>ls_height = h, ls_round = r, ls_step = step_ord s,
        last_sign_bytes_hex = hash b\<rparr>"
      have "check_and_record_with_bytes hash w h r s b p =
          (if w then (Inr (), p\<lparr>guard := Some st', state_file := Saved st'\<rparr>)
           else (Inl \<lparr>attempted = ?t, last_signed = tuple_of st\<rparr>, p\<lparr>guard := Some st'\<rparr>))"
        using g s b diff False
        by (simp add: check_and_record_with_bytes_def write_atomic_def st'_def)
      then show thesis
        using False by (intro advance [of "fst (check_and_record_with_bytes hash w h r s b p)"
          "snd (check_and_record_with_bytes hash w h r s b p)" st'])
          (auto simp: st'_def tuple_of_def split: if_splits)
    qed
  qed
qed

definition guard_ok ::
  "(u8 list \<Rightarrow> string) \<Rightarrow> bool \<Rightarrow> (sign_tuple \<times> u8 list) set \<Rightarrow> sign_process \<Rightarrow> bool" where
  "guard_ok hash synced S p \<longleftrightarrow>
    (\<exists>st. guard p = Some st \<and> guard_covers hash S st \<and> no_double_sign S \<and>
      (synced \<longrightarrow> state_file p = Saved st))"

lemma guard_step_ok:
  assumes ok: "guard_ok hash synced S p" and inj: "inj hash" and e: "event_signs e"
    and w: "synced \<longrightarrow> event_writes e" and r: "\<not> synced \<longrightarrow> \<not> is_restart e"
  shows "guard_ok hash synced (S \<union> set (fst (guard_step hash e p))) (snd (guard_step hash e p))"
proof -
  from ok obtain st where st: "guard p = Some st" "guard_covers hash S st" "no_double_sign S"
      "synced \<longrightarrow> state_file p = Saved st"
    by (auto simp: guard_ok_def)
  show ?thesis
  proof (cases e)
    case (Restart w')
    with r st(4) have "state_file p = Saved st" by auto
    with Restart st show ?thesis
      by (simp add: guard_ok_def init_guard_def)
  next
    case (SignRequest h r s b w')
    let ?t = "(h, r, step_ord s)"
    from e SignRequest have s: "s \<noteq> StepOther" and b: "b \<noteq> []" by auto
    show ?thesis
    proof (cases rule: check_cases [OF st(1) s b, of hash w' h r])
      case (1 err)
      with SignRequest ok show ?thesis by simp
    next
      case 2
      have "guard_covers hash (insert (?t, b) S) st"
        using st(2) 2 by (simp add: guard_covers_def)
      moreover have "no_double_sign (insert (?t, b) S)"
        using replay_no_double_sign [OF st(2,3) inj, of ?t b] 2 by simp
      ultimately show ?thesis
        using SignRequest 2 st by (simp add: guard_ok_def)
    next
      case (3 st' res p')
      note cov = covers_advance [OF st(2) 3(2) 3(4,5)] and
        fresh = fresh_no_double_sign [OF st(2) 3(2) st(3), of b]
      show ?thesis
        using SignRequest 3 cov fresh st w by (cases res) (auto simp: guard_ok_def)
    qed
  qed
qed

lemma guard_run_ok:
  assumes "guard_ok hash synced S p" and "inj hash" and "\<forall>e \<in> set es. event_signs e"
    and "synced \<longrightarrow> (\<forall>e \<in> set es. event_writes e)" and "\<not> synced \<longrightarrow> (\<forall>e \<in> set es. \<not> is_restart e)"
  shows "guard_ok hash synced (S \<union> set (fst (guard_run hash es p))) (snd (guard_run hash es p))"
  using assms
proof (induction es arbitrary: S p)
  case (Cons e es)
  have "guard_ok hash synced (S \<union> set (fst (guard_step hash e p))) (snd (guard_step hash e p))"
    using Cons.prems by (intro guard_step_ok) auto
  from Cons.IH [OF this] Cons.prems show ?case
    by (simp add: case_prod_beta Un_assoc)
qed simp

text \<open>
  The last-sign guard stops double votes (C6): over any sequence of consensus signing requests and
  process restarts, no \<open>(height, round, step)\<close> is signed with two different payloads, provided that
  the hash does not collide and that either every write of the state file succeeds or the process
  is never restarted.
\<close>

theorem guard_prevents_double_sign:
  assumes "guard p = Some st" and "state_file p = Saved st" and "inj hash"
    and "\<forall>e \<in> set es. event_signs e"
    and "(\<forall>e \<in> set es. event_writes e) \<or> (\<forall>e \<in> set es. \<not> is_restart e)"
    and "(t, b) \<in> set (fst (guard_run hash es p))" and "(t, c) \<in> set (fst (guard_run hash es p))"
  shows "b = c"
proof -
  have start: "guard_ok hash synced {} p" for synced
    using assms(1,2) by (simp add: guard_ok_def guard_covers_def no_double_sign_def)
  have "no_double_sign (set (fst (guard_run hash es p)))"
    using assms(5) guard_run_ok [OF start [of True] assms(3,4)] guard_run_ok [OF start [of False] assms(3,4)]
    by (auto simp: guard_ok_def)
  then show ?thesis
    using assms(6,7) unfolding no_double_sign_def by blast
qed

definition example_hash :: "u8 list \<Rightarrow> string" where
  "example_hash bs = concat (map (\<lambda>n. replicate n (CHR ''1'') @ ''0'') bs)"

definition example_process :: sign_process where
  "example_process = \<lparr>guard = Some LastSignState_default, state_file = Saved LastSignState_default\<rparr>"

definition example_events :: "guard_event list" where
  "example_events = [SignRequest 5 0 StepPrevote [7] True, SignRequest 5 0 StepPrevote [8] True,
     Restart True, SignRequest 5 0 StepPrevote [7] True, SignRequest 5 0 StepPrecommit [9] True]"

lemma replicate_one_zero:
  "replicate m (CHR ''1'') @ CHR ''0'' # xs = replicate n (CHR ''1'') @ CHR ''0'' # ys \<longleftrightarrow> m = n \<and> xs = ys"
proof (induction m arbitrary: n)
  case 0
  then show ?case by (cases n) auto
next
  case (Suc m)
  then show ?case by (cases n) auto
qed

lemma example_hash_inj: "inj example_hash"
proof (rule injI)
  show "xs = ys" if "example_hash xs = example_hash ys" for xs ys
    using that
  proof (induction xs arbitrary: ys)
    case Nil
    then show ?case by (cases ys) (auto simp: example_hash_def)
  next
    case (Cons x xs)
    then show ?case by (cases ys) (auto simp: example_hash_def replicate_one_zero)
  qed
qed

lemma guard_example_run:
  "fst (guard_run example_hash example_events example_process) =
    [((5, 0, 1), [7]), ((5, 0, 1), [7]), ((5, 0, 2), [9])]"
  by code_simp

theorem guard_prevents_double_sign_witness:
  "{c. ((5, 0, 1), c) \<in> set (fst (guard_run example_hash example_events example_process))} = {[7]}"
proof -
  have mem: "((5, 0, 1), [7]) \<in> set (fst (guard_run example_hash example_events example_process))"
    by (simp add: guard_example_run)
  have "[7] = c" if "((5, 0, 1), c) \<in> set (fst (guard_run example_hash example_events example_process))" for c
    by (rule guard_prevents_double_sign [OF _ _ example_hash_inj _ _ mem that, of LastSignState_default])
       (simp_all add: example_process_def example_events_def)
  with mem show ?thesis by blast
qed

text \<open>
  A failed write is forgotten by the retry (C7): when the state file cannot be written, the request is
  refused, but the guard has already advanced in memory, so the same request passes as a replay
  although the file still holds the old state. After a restart a different payload is then signed at
  the same \<open>(height, round, step)\<close>.
\<close>

theorem failed_write_then_double_sign:
  assumes "guard p = Some st" and "state_file p = Saved st" and "s \<noteq> StepOther"
    and "b \<noteq> []" and "c \<noteq> []" and "hash b \<noteq> ''''"
    and "\<not> tuple_le (h, r, step_ord s) (tuple_of st)"
  shows "fst (guard_run hash [SignRequest h r s b False] p) = [] \<and>
    fst (guard_run hash [SignRequest h r s b False, SignRequest h r s b w] p) = [((h, r, step_ord s), b)] \<and>
    state_file (snd (guard_run hash [SignRequest h r s b False, SignRequest h r s b w] p)) = Saved st \<and>
    fst (guard_run hash [SignRequest h r s b False, SignRequest h r s b w, Restart v, SignRequest h r s c True] p)
      = [((h, r, step_ord s), b), ((h, r, step_ord s), c)]"
proof -
  have ne: "(h, r, step_ord s) \<noteq> tuple_of st"
    using assms(7) by (metis tuple_le_refl)
  show ?thesis
    using assms ne
    by (simp add: check_and_record_with_bytes_def write_atomic_def init_guard_def del: tuple_le.simps)
qed

theorem failed_write_then_double_sign_witness:
  "fst (guard_run example_hash [SignRequest 5 0 StepPrevote [7] False, SignRequest 5 0 StepPrevote [7] True,
      Restart True, SignRequest 5 0 StepPrevote [8] True] example_process)
    = [((5, 0, 1), [7]), ((5, 0, 1), [8])]"
  using failed_write_then_double_sign [of example_process LastSignState_default StepPrevote "[7]" "[8]"
      example_hash 5 0 True True]
  by (simp add: example_process_def LastSignState_default_def tuple_of_def example_hash_def)

end
