(* ===== verification/Bft_Messages.thy ===== *)
theory Bft_Messages
  imports Last_Sign_Guard
begin

text \<open>
  BFT messages and block justifications: \<open>sentrix-bft/src/messages.rs\<close> and
  \<open>sentrix-primitives/src/justification.rs\<close>. The secp256k1 library, SHA-256 and the address
  derivation are parameters. Log output is left out except where evaluating it can panic.
\<close>

section \<open>Messages\<close>

definition BFT_SIGNING_V2_FORK_HEIGHT :: u64 where "BFT_SIGNING_V2_FORK_HEIGHT = U64_MAX"
definition BFT_V2_MAGIC :: u8 where "BFT_V2_MAGIC = 32"

definition bft_v2_prefix :: "u64 \<Rightarrow> u8 list" where
  "bft_v2_prefix chain_id = BFT_V2_MAGIC # be_bytes 8 chain_id"

definition is_bft_signing_v2_active :: "u64 \<Rightarrow> bool" where
  "is_bft_signing_v2_active height \<longleftrightarrow> BFT_SIGNING_V2_FORK_HEIGHT \<le> height"

record prevote =
  pv_height :: u64
  pv_round :: u32
  pv_block_hash :: "string option"
  pv_validator :: string
  pv_signature :: "u8 list"

record precommit =
  pc_height :: u64
  pc_round :: u32
  pc_block_hash :: "string option"
  pc_validator :: string
  pc_signature :: "u8 list"

record proposal =
  pr_height :: u64
  pr_round :: u32
  pr_block_hash :: string
  pr_block_data :: "u8 list"
  pr_proposer :: string
  pr_signature :: "u8 list"
  proposer_prevote :: "prevote option"

record round_status =
  rs_height :: u64
  rs_round :: u32
  rs_validator :: string
  rs_signature :: "u8 list"

datatype bft_message =
    MsgPropose proposal
  | MsgPrevote prevote
  | MsgPrecommit precommit
  | MsgRoundStatus round_status

definition prevote_is_nil :: "prevote \<Rightarrow> bool" where "prevote_is_nil v \<longleftrightarrow> pv_block_hash v = None"
definition precommit_is_nil :: "precommit \<Rightarrow> bool" where "precommit_is_nil v \<longleftrightarrow> pc_block_hash v = None"

section \<open>Signing payloads\<close>

definition vote_hash_bytes :: "string option \<Rightarrow> u8 list" where
  "vote_hash_bytes h = (case h of Some s \<Rightarrow> str_bytes s | None \<Rightarrow> str_bytes ''NIL'')"

definition proposal_payload :: "u64 \<Rightarrow> u32 \<Rightarrow> string \<Rightarrow> u8 list" where
  "proposal_payload height round block_hash =
    le_bytes 8 height @ le_bytes 4 round @ str_bytes block_hash @ [1]"

definition proposal_payload_v2 :: "u64 \<Rightarrow> u32 \<Rightarrow> string \<Rightarrow> u64 \<Rightarrow> u8 list" where
  "proposal_payload_v2 height round block_hash chain_id =
    bft_v2_prefix chain_id @ le_bytes 8 height @ le_bytes 4 round @ str_bytes block_hash @ [1]"

definition proposal_payload_for_height :: "u64 \<Rightarrow> u32 \<Rightarrow> string \<Rightarrow> u64 \<Rightarrow> u8 list" where
  "proposal_payload_for_height height round block_hash chain_id =
    (if is_bft_signing_v2_active height then proposal_payload_v2 height round block_hash chain_id
     else proposal_payload height round block_hash)"

definition prevote_payload :: "u64 \<Rightarrow> u32 \<Rightarrow> string option \<Rightarrow> u8 list" where
  "prevote_payload height round block_hash =
    le_bytes 8 height @ le_bytes 4 round @ vote_hash_bytes block_hash @ [2]"

definition prevote_payload_v2 :: "u64 \<Rightarrow> u32 \<Rightarrow> string option \<Rightarrow> u64 \<Rightarrow> u8 list" where
  "prevote_payload_v2 height round block_hash chain_id =
    bft_v2_prefix chain_id @ le_bytes 8 height @ le_bytes 4 round @ vote_hash_bytes block_hash @ [2]"

definition prevote_payload_for_height :: "u64 \<Rightarrow> u32 \<Rightarrow> string option \<Rightarrow> u64 \<Rightarrow> u8 list" where
  "prevote_payload_for_height height round block_hash chain_id =
    (if is_bft_signing_v2_active height then prevote_payload_v2 height round block_hash chain_id
     else prevote_payload height round block_hash)"

definition precommit_payload :: "u64 \<Rightarrow> u32 \<Rightarrow> string option \<Rightarrow> u8 list" where
  "precommit_payload height round block_hash =
    le_bytes 8 height @ le_bytes 4 round @ vote_hash_bytes block_hash @ [3]"

definition precommit_payload_v2 :: "u64 \<Rightarrow> u32 \<Rightarrow> string option \<Rightarrow> u64 \<Rightarrow> u8 list" where
  "precommit_payload_v2 height round block_hash chain_id =
    bft_v2_prefix chain_id @ le_bytes 8 height @ le_bytes 4 round @ vote_hash_bytes block_hash @ [3]"

definition precommit_payload_for_height :: "u64 \<Rightarrow> u32 \<Rightarrow> string option \<Rightarrow> u64 \<Rightarrow> u8 list" where
  "precommit_payload_for_height height round block_hash chain_id =
    (if is_bft_signing_v2_active height then precommit_payload_v2 height round block_hash chain_id
     else precommit_payload height round block_hash)"

definition round_status_payload :: "u64 \<Rightarrow> u32 \<Rightarrow> string \<Rightarrow> u8 list" where
  "round_status_payload height round validator =
    le_bytes 8 height @ le_bytes 4 round @ str_bytes validator @ [4]"

definition round_status_payload_v2 :: "u64 \<Rightarrow> u32 \<Rightarrow> string \<Rightarrow> u64 \<Rightarrow> u8 list" where
  "round_status_payload_v2 height round validator chain_id =
    bft_v2_prefix chain_id @ le_bytes 8 height @ le_bytes 4 round @ str_bytes validator @ [4]"

definition round_status_payload_for_height :: "u64 \<Rightarrow> u32 \<Rightarrow> string \<Rightarrow> u64 \<Rightarrow> u8 list" where
  "round_status_payload_for_height height round validator chain_id =
    (if is_bft_signing_v2_active height then round_status_payload_v2 height round validator chain_id
     else round_status_payload height round validator)"

section \<open>Signing and verifying\<close>

text \<open>
  The library calls: SHA-256; the recoverable signature of a digest as its compact bytes and its
  recovery id; and the address a digest, compact bytes and recovery id recover to, which is
  \<open>None\<close> when one of the fallible library calls fails.
\<close>

record 'key crypto =
  sha256 :: "u8 list \<Rightarrow> u8 list"
  sign_ecdsa_recoverable :: "u8 list \<Rightarrow> 'key \<Rightarrow> u8 list \<times> nat"
  recover_address :: "u8 list \<Rightarrow> u8 list \<Rightarrow> nat \<Rightarrow> string option"

definition sign_payload :: "'key crypto \<Rightarrow> u8 list \<Rightarrow> 'key \<Rightarrow> u8 list" where
  "sign_payload c payload secret_key =
    (let (compact, rec_id) = sign_ecdsa_recoverable c (sha256 c payload) secret_key
     in compact @ [rec_id mod 256])"

definition recover_signer :: "'key crypto \<Rightarrow> u8 list \<Rightarrow> u8 list \<Rightarrow> string result" where
  "recover_signer c payload signature =
    (if length signature \<noteq> 65 then Err InvalidSignature
     else case recover_address c (sha256 c payload) (take 64 signature) (signature ! 64) of
            None \<Rightarrow> Err InvalidSignature
          | Some addr \<Rightarrow> Ok addr)"

text \<open>
  A string is its UTF-8 bytes, one \<open>char\<close> per byte. Slicing \<open>&s[..k]\<close> panics past the end and inside
  a multi-byte character, whose continuation bytes are 128 to 191.
\<close>

definition can_slice_to :: "nat \<Rightarrow> string \<Rightarrow> bool" where
  "can_slice_to k s \<longleftrightarrow> k \<le> length s \<and>
    (k < length s \<longrightarrow> \<not> (128 \<le> (of_char (s ! k) :: nat) \<and> (of_char (s ! k) :: nat) < 192))"

text \<open>
  \<open>None\<close> is a panic while the arguments of a warning are evaluated (warnings are enabled).
\<close>

definition verify_vote_signature :: "'key crypto \<Rightarrow> u8 list \<Rightarrow> u8 list \<Rightarrow> string \<Rightarrow> bool option" where
  "verify_vote_signature c payload signature expected_validator =
    (if signature = [] then
       if can_slice_to (min 12 (length expected_validator)) expected_validator then Some False else None
     else case recover_signer c payload signature of
            Ok addr \<Rightarrow>
              if addr = expected_validator then Some True
              else if can_slice_to 12 expected_validator \<and> can_slice_to 12 addr then Some False
              else None
          | Err e \<Rightarrow> Some False)"

definition Prevote_sign ::
  "'key crypto \<Rightarrow> (u8 list \<Rightarrow> string) \<Rightarrow> bool \<Rightarrow> 'key \<Rightarrow> prevote \<Rightarrow> sign_process \<Rightarrow> prevote \<times> sign_process" where
  "Prevote_sign c hash write_ok secret_key v p =
    (let payload = prevote_payload (pv_height v) (pv_round v) (pv_block_hash v)
     in case check_and_record_with_bytes hash write_ok (pv_height v) (pv_round v) StepPrevote payload p of
          (Inl e, p') \<Rightarrow> (v, p')
        | (Inr u, p') \<Rightarrow> (v\<lparr>pv_signature := sign_payload c payload secret_key\<rparr>, p'))"

definition Precommit_sign ::
  "'key crypto \<Rightarrow> (u8 list \<Rightarrow> string) \<Rightarrow> bool \<Rightarrow> 'key \<Rightarrow> precommit \<Rightarrow> sign_process \<Rightarrow> precommit \<times> sign_process" where
  "Precommit_sign c hash write_ok secret_key v p =
    (let payload = precommit_payload (pc_height v) (pc_round v) (pc_block_hash v)
     in case check_and_record_with_bytes hash write_ok (pc_height v) (pc_round v) StepPrecommit payload p of
          (Inl e, p') \<Rightarrow> (v, p')
        | (Inr u, p') \<Rightarrow> (v\<lparr>pc_signature := sign_payload c payload secret_key\<rparr>, p'))"

definition Proposal_sign ::
  "'key crypto \<Rightarrow> (u8 list \<Rightarrow> string) \<Rightarrow> bool \<Rightarrow> 'key \<Rightarrow> proposal \<Rightarrow> sign_process \<Rightarrow> proposal \<times> sign_process" where
  "Proposal_sign c hash write_ok secret_key v p =
    (let payload = proposal_payload (pr_height v) (pr_round v) (pr_block_hash v)
     in case check_and_record_with_bytes hash write_ok (pr_height v) (pr_round v) StepProposal payload p of
          (Inl e, p') \<Rightarrow> (v, p')
        | (Inr u, p') \<Rightarrow> (v\<lparr>pr_signature := sign_payload c payload secret_key\<rparr>, p'))"

definition RoundStatus_sign :: "'key crypto \<Rightarrow> 'key \<Rightarrow> round_status \<Rightarrow> round_status" where
  "RoundStatus_sign c secret_key v =
    v\<lparr>rs_signature := sign_payload c (round_status_payload (rs_height v) (rs_round v) (rs_validator v)) secret_key\<rparr>"

definition Prevote_verify_sig :: "'key crypto \<Rightarrow> prevote \<Rightarrow> bool option" where
  "Prevote_verify_sig c v =
    verify_vote_signature c (prevote_payload (pv_height v) (pv_round v) (pv_block_hash v))
      (pv_signature v) (pv_validator v)"

definition Precommit_verify_sig :: "'key crypto \<Rightarrow> precommit \<Rightarrow> bool option" where
  "Precommit_verify_sig c v =
    verify_vote_signature c (precommit_payload (pc_height v) (pc_round v) (pc_block_hash v))
      (pc_signature v) (pc_validator v)"

definition Proposal_verify_sig :: "'key crypto \<Rightarrow> proposal \<Rightarrow> bool option" where
  "Proposal_verify_sig c v =
    verify_vote_signature c (proposal_payload (pr_height v) (pr_round v) (pr_block_hash v))
      (pr_signature v) (pr_proposer v)"

definition RoundStatus_verify_sig :: "'key crypto \<Rightarrow> round_status \<Rightarrow> bool option" where
  "RoundStatus_verify_sig c v =
    (if rs_signature v = [] then
       if can_slice_to (min 12 (length (rs_validator v))) (rs_validator v) then Some False else None
     else verify_vote_signature c (round_status_payload (rs_height v) (rs_round v) (rs_validator v))
       (rs_signature v) (rs_validator v))"

section \<open>Justifications\<close>

record signed_precommit =
  sp_validator :: string
  sp_block_hash :: string
  sp_signature :: "u8 list"
  stake_weight :: u64

definition supermajority_threshold :: "u64 \<Rightarrow> u64" where
  "supermajority_threshold total_stake = as_u64 (total_stake * 2 div 3 + 1)"

record block_justification =
  bj_height :: u64
  bj_round :: u32
  bj_block_hash :: string
  bj_precommits :: "signed_precommit list"

definition BlockJustification_new :: "u64 \<Rightarrow> u32 \<Rightarrow> string \<Rightarrow> block_justification" where
  "BlockJustification_new height round block_hash =
    \<lparr>bj_height = height, bj_round = round, bj_block_hash = block_hash, bj_precommits = []\<rparr>"

definition add_precommit :: "block_justification \<Rightarrow> string \<Rightarrow> u8 list \<Rightarrow> u64 \<Rightarrow> block_justification" where
  "add_precommit j validator signature weight =
    j\<lparr>bj_precommits := bj_precommits j @
      [\<lparr>sp_validator = validator, sp_block_hash = bj_block_hash j, sp_signature = signature,
        stake_weight = weight\<rparr>]\<rparr>"

definition justification_total_stake :: "block_justification \<Rightarrow> u64" where
  "justification_total_stake j = sum_u64 (map stake_weight (bj_precommits j))"

definition has_supermajority :: "block_justification \<Rightarrow> u64 \<Rightarrow> bool" where
  "has_supermajority j total_stake =
    (if total_stake = 0 then False else supermajority_threshold total_stake \<le> justification_total_stake j)"

definition signer_count :: "block_justification \<Rightarrow> usize" where
  "signer_count j = length (bj_precommits j)"

section \<open>Payloads\<close>

lemma vote_hash_bytes_eq:
  "vote_hash_bytes b = vote_hash_bytes b' \<longleftrightarrow> b = b' \<or> {b, b'} = {None, Some ''NIL''}"
  by (cases b; cases b') (auto simp: vote_hash_bytes_def)

lemma bft_v2_prefix_eq:
  "m \<le> U64_MAX \<Longrightarrow> n \<le> U64_MAX \<Longrightarrow> bft_v2_prefix m = bft_v2_prefix n \<longleftrightarrow> m = n"
  by (simp add: bft_v2_prefix_def be_bytes_def)

lemma length_bft_v2_prefix [simp]: "length (bft_v2_prefix c) = 9"
  by (simp add: bft_v2_prefix_def be_bytes_def)

lemmas payload_defs = proposal_payload_def prevote_payload_def precommit_payload_def round_status_payload_def

lemmas payload_v2_defs =
  proposal_payload_v2_def prevote_payload_v2_def precommit_payload_v2_def round_status_payload_v2_def

text \<open>
  (C28) Signing payloads determine what is signed, up to one exception: two prevotes, or two
  precommits, of any heights and rounds have the same payload exactly when height and round agree and
  the votes are the same, or one is nil and the other names a block whose hash is the text "NIL".
  Proposals and round statuses have no exception. Payloads of two different message kinds never
  agree, whatever their heights, rounds and contents.
\<close>

theorem payloads_separate:
  assumes "h \<le> U64_MAX" and "h' \<le> U64_MAX" and "r \<le> U32_MAX" and "r' \<le> U32_MAX"
  shows "(prevote_payload h r b = prevote_payload h' r' b' \<longleftrightarrow>
      h = h' \<and> r = r' \<and> (b = b' \<or> {b, b'} = {None, Some ''NIL''})) \<and>
    (precommit_payload h r b = precommit_payload h' r' b' \<longleftrightarrow>
      h = h' \<and> r = r' \<and> (b = b' \<or> {b, b'} = {None, Some ''NIL''})) \<and>
    (proposal_payload h r s = proposal_payload h' r' s' \<longleftrightarrow> h = h' \<and> r = r' \<and> s = s') \<and>
    (round_status_payload h r s = round_status_payload h' r' s' \<longleftrightarrow> h = h' \<and> r = r' \<and> s = s') \<and>
    prevote_payload h r b \<noteq> precommit_payload h' r' b' \<and>
    prevote_payload h r b \<noteq> proposal_payload h' r' s' \<and>
    prevote_payload h r b \<noteq> round_status_payload h' r' s' \<and>
    precommit_payload h r b \<noteq> proposal_payload h' r' s' \<and>
    precommit_payload h r b \<noteq> round_status_payload h' r' s' \<and>
    proposal_payload h r s \<noteq> round_status_payload h' r' s'"
  using assms by (simp add: payload_defs vote_hash_bytes_eq)

theorem payloads_separate_witness:
  "prevote_payload 7 1 (Some ''ab'') \<noteq> prevote_payload 7 2 (Some ''ab'') \<and>
   prevote_payload 7 1 (Some ''NIL'') = prevote_payload 7 1 None \<and>
   prevote_payload 7 1 (Some ''ab'') \<noteq> proposal_payload 8 2 ''ab''"
  using payloads_separate [of 7 7 1 2 "Some ''ab''" "Some ''ab''" "[]" "[]"]
    payloads_separate [of 7 7 1 1 "Some ''NIL''" None "[]" "[]"]
    payloads_separate [of 7 8 1 2 "Some ''ab''" None "[]" "''ab''"]
  by (simp add: U64_MAX_def U32_MAX_def insert_commute)

lemma v2_payloads_chain_bound:
  assumes "c \<le> U64_MAX" and "c' \<le> U64_MAX" and "c \<noteq> c'"
  shows "proposal_payload_v2 h r s c \<noteq> proposal_payload_v2 h' r' s' c'"
    and "prevote_payload_v2 h r b c \<noteq> prevote_payload_v2 h' r' b' c'"
    and "precommit_payload_v2 h r b c \<noteq> precommit_payload_v2 h' r' b' c'"
    and "round_status_payload_v2 h r s c \<noteq> round_status_payload_v2 h' r' s' c'"
  using assms by (simp_all add: payload_v2_defs bft_v2_prefix_eq)

section \<open>Signatures\<close>

text \<open>
  What the signature library documents: a recoverable signature has 64 compact bytes and a recovery
  id in \<open>0..3\<close>, and recovering from it gives the address of the signing key.
\<close>

definition signs_as :: "'key crypto \<Rightarrow> 'key \<Rightarrow> string \<Rightarrow> bool" where
  "signs_as c key addr \<longleftrightarrow>
    (\<forall>d. length (fst (sign_ecdsa_recoverable c d key)) = 64 \<and> snd (sign_ecdsa_recoverable c d key) < 4 \<and>
      recover_address c d (fst (sign_ecdsa_recoverable c d key)) (snd (sign_ecdsa_recoverable c d key)) = Some addr)"

lemma recover_sign_payload:
  assumes "signs_as c key addr"
  shows "recover_signer c payload (sign_payload c payload key) = Ok addr"
proof -
  obtain compact rec_id where sig: "sign_ecdsa_recoverable c (sha256 c payload) key = (compact, rec_id)"
    by force
  with assms have "length compact = 64" "rec_id < 4"
      "recover_address c (sha256 c payload) compact rec_id = Some addr"
    by (auto simp: signs_as_def dest: spec [of _ "sha256 c payload"])
  with sig show ?thesis
    by (simp add: recover_signer_def sign_payload_def nth_append)
qed

lemma sign_payload_not_Nil: "sign_payload c payload key \<noteq> []"
  by (simp add: sign_payload_def case_prod_beta)

lemma verify_sign_payload:
  assumes "signs_as c key addr"
  shows "verify_vote_signature c payload (sign_payload c payload key) addr = Some True"
  using recover_sign_payload [OF assms] sign_payload_not_Nil by (simp add: verify_vote_signature_def)

lemma verify_empty: "verify_vote_signature c payload [] addr \<noteq> Some True"
  by (simp add: verify_vote_signature_def)

lemma can_slice_self [simp]: "can_slice_to (length s) s"
  by (simp add: can_slice_to_def)

text \<open>
  A vote verifies exactly when the guard let it be signed (C27): an unsigned prevote, precommit or
  proposal that names the signer's address verifies after \<open>sign\<close> when the last-sign guard accepts the
  request and does not verify when it refuses; a round status always verifies after \<open>sign\<close>.
\<close>

theorem sign_then_verify:
  assumes "signs_as c key addr"
    and "pv_validator v = addr" and "pv_signature v = []"
    and "pc_validator u = addr" and "pc_signature u = []"
    and "pr_proposer b = addr" and "pr_signature b = []" and "rs_validator t = addr"
  shows "(Prevote_verify_sig c (fst (Prevote_sign c hash w key v p)) = Some True \<longleftrightarrow>
      fst (check_and_record_with_bytes hash w (pv_height v) (pv_round v) StepPrevote
        (prevote_payload (pv_height v) (pv_round v) (pv_block_hash v)) p) = Inr ()) \<and>
    (Precommit_verify_sig c (fst (Precommit_sign c hash w key u p)) = Some True \<longleftrightarrow>
      fst (check_and_record_with_bytes hash w (pc_height u) (pc_round u) StepPrecommit
        (precommit_payload (pc_height u) (pc_round u) (pc_block_hash u)) p) = Inr ()) \<and>
    (Proposal_verify_sig c (fst (Proposal_sign c hash w key b p)) = Some True \<longleftrightarrow>
      fst (check_and_record_with_bytes hash w (pr_height b) (pr_round b) StepProposal
        (proposal_payload (pr_height b) (pr_round b) (pr_block_hash b)) p) = Inr ()) \<and>
    RoundStatus_verify_sig c (RoundStatus_sign c key t) = Some True"
  using assms verify_sign_payload [OF assms(1)] sign_payload_not_Nil [of c _ key]
  by (auto simp: Prevote_sign_def Prevote_verify_sig_def Precommit_sign_def Precommit_verify_sig_def
      Proposal_sign_def Proposal_verify_sig_def RoundStatus_sign_def RoundStatus_verify_sig_def verify_empty
      split: prod.splits sum.splits)

text \<open>
  A short validator name panics the verifier: whoever holds any signing key can sign a prevote
  that claims a validator name of fewer than twelve bytes, and verifying it panics.
\<close>

theorem short_validator_panics:
  assumes "signs_as c key addr" and "length (pv_validator v) < 12" and "addr \<noteq> pv_validator v"
    and "pv_signature v = sign_payload c (prevote_payload (pv_height v) (pv_round v) (pv_block_hash v)) key"
  shows "Prevote_verify_sig c v = None"
  using assms recover_sign_payload [OF assms(1)] sign_payload_not_Nil [of c _ key]
  by (simp add: Prevote_verify_sig_def verify_vote_signature_def can_slice_to_def)

definition example_crypto :: "string crypto" where
  "example_crypto = \<lparr>sha256 = (\<lambda>bs. bs),
     sign_ecdsa_recoverable = (\<lambda>d key. (str_bytes key @ replicate (64 - length key) 0, 1)),
     recover_address = (\<lambda>d compact rec_id. Some (map char_of (takeWhile (\<lambda>b. b \<noteq> 0) compact)))\<rparr>"

lemma example_signs_as:
  assumes "length key \<le> 64" and "\<forall>x \<in> set key. (of_char x :: nat) \<noteq> 0"
  shows "signs_as example_crypto key key"
proof -
  have "takeWhile (\<lambda>b. b \<noteq> 0) (str_bytes key @ replicate (64 - length key) 0) = str_bytes key"
    using assms(2) by (subst takeWhile_append2) (auto simp: str_bytes_def)
  then show ?thesis
    using assms(1) by (simp add: signs_as_def example_crypto_def) (simp add: str_bytes_def comp_def)
qed

lemma example_signs: "signs_as example_crypto ''0xvalidator-a'' ''0xvalidator-a''"
  by (rule example_signs_as) simp_all

definition example_prevote :: "string \<Rightarrow> u8 list \<Rightarrow> prevote" where
  "example_prevote addr sig = \<lparr>pv_height = 5, pv_round = 0, pv_block_hash = Some ''x'',
     pv_validator = addr, pv_signature = sig\<rparr>"

theorem short_validator_panics_witness:
  "Prevote_verify_sig example_crypto (example_prevote ''0x'' (sign_payload example_crypto
     (prevote_payload 5 0 (Some ''x'')) ''0xvalidator-a'')) = None"
  by (rule short_validator_panics [OF example_signs]) (simp_all add: example_prevote_def)

theorem sign_then_verify_witness:
  "Prevote_verify_sig example_crypto (fst (Prevote_sign example_crypto example_hash True ''0xvalidator-a''
     (example_prevote ''0xvalidator-a'' []) example_process)) = Some True"
proof -
  have "fst (check_and_record_with_bytes example_hash True 5 0 StepPrevote
      (prevote_payload 5 0 (Some ''x'')) example_process) = Inr ()"
    by (simp add: check_and_record_with_bytes_def example_process_def LastSignState_default_def write_atomic_def)
  then show ?thesis
    using sign_then_verify [OF example_signs, of "example_prevote ''0xvalidator-a'' []"
      "\<lparr>pc_height = 5, pc_round = 0, pc_block_hash = None, pc_validator = ''0xvalidator-a'', pc_signature = []\<rparr>"
      "\<lparr>pr_height = 5, pr_round = 0, pr_block_hash = [], pr_block_data = [], pr_proposer = ''0xvalidator-a'',
        pr_signature = [], proposer_prevote = None\<rparr>"
      "\<lparr>rs_height = 5, rs_round = 0, rs_validator = ''0xvalidator-a'', rs_signature = []\<rparr>"
      example_hash True example_process]
    by (simp add: example_prevote_def)
qed

end
