(* ===== verification/Bft_Engine.thy ===== *)
theory Bft_Engine
  imports Bft_Messages Staking
begin

text \<open>
  The BFT state machine: \<open>sentrix-bft/src/engine.rs\<close> with \<open>engine/state.rs\<close>, \<open>engine/timeouts.rs\<close> and
  \<open>engine/vote_collector.rs\<close>. The clock is an argument: \<open>now\<close> is what \<open>Instant::now()\<close> returns, in
  milliseconds. Metrics and log output are left out; they do not feed back into the state.
\<close>

section \<open>Round state\<close>

datatype bft_phase = Propose | Prevote | Precommit | Finalize

record bft_round_state =
  height :: u64
  round :: u32
  phase :: bft_phase
  proposed_hash :: "string option"
  prevotes :: "(string, string option \<times> u64) hmap"
  precommits :: "(string, string option \<times> u8 list \<times> u64) hmap"
  our_prevote_cast :: bool
  our_precommit_cast :: bool
  locked_hash :: "string option"
  locked_round :: "u32 option"
  locked_block :: "u8 list option"
  staging_block :: "(string \<times> u8 list) option"
  total_active_stake :: u64

definition BftRoundState_new :: "u64 \<Rightarrow> u32 \<Rightarrow> u64 \<Rightarrow> bft_round_state" where
  "BftRoundState_new h r t = \<lparr>height = h, round = r, phase = Propose, proposed_hash = None,
     prevotes = [], precommits = [], our_prevote_cast = False, our_precommit_cast = False,
     locked_hash = None, locked_round = None, locked_block = None, staging_block = None,
     total_active_stake = t\<rparr>"

definition state_advance_round :: "bft_round_state \<Rightarrow> bft_round_state" where
  "state_advance_round s = s\<lparr>round := saturating_add_u32 (round s) 1, phase := Propose,
     proposed_hash := None, prevotes := [], precommits := [], our_prevote_cast := False,
     our_precommit_cast := False, staging_block := None\<rparr>"

definition advance_height :: "u64 \<Rightarrow> u64 \<Rightarrow> bft_round_state \<Rightarrow> bft_round_state" where
  "advance_height new_height tot s = BftRoundState_new new_height 0 tot"

section \<open>Vote collector\<close>

record vote_collector =
  prevote_tally :: "(string option, u64) hmap"
  precommit_tally :: "(string option, u64) hmap"

definition VoteCollector_new :: vote_collector where
  "VoteCollector_new = \<lparr>prevote_tally = [], precommit_tally = []\<rparr>"

definition tally_of :: "(string option, u64) hmap \<Rightarrow> string option \<Rightarrow> u64" where
  "tally_of t h = (case hget t h of None \<Rightarrow> 0 | Some w \<Rightarrow> w)"

definition collector_add_prevote :: "string option \<Rightarrow> u64 \<Rightarrow> vote_collector \<Rightarrow> vote_collector" where
  "collector_add_prevote block_hash stake c = c\<lparr>prevote_tally :=
     hput (prevote_tally c) block_hash (wrapping_add_u64 (tally_of (prevote_tally c) block_hash) stake)\<rparr>"

definition collector_add_precommit :: "string option \<Rightarrow> u64 \<Rightarrow> vote_collector \<Rightarrow> vote_collector" where
  "collector_add_precommit block_hash stake c = c\<lparr>precommit_tally :=
     hput (precommit_tally c) block_hash (wrapping_add_u64 (tally_of (precommit_tally c) block_hash) stake)\<rparr>"

definition first_above :: "u64 \<Rightarrow> (string option, u64) hmap \<Rightarrow> string option option" where
  "first_above threshold t = map_option fst (find (\<lambda>(h, w). threshold \<le> w) t)"

definition prevote_supermajority :: "vote_collector \<Rightarrow> u64 \<Rightarrow> string option option" where
  "prevote_supermajority c tot = first_above (supermajority_threshold tot) (prevote_tally c)"

definition precommit_supermajority :: "vote_collector \<Rightarrow> u64 \<Rightarrow> string option option" where
  "precommit_supermajority c tot = first_above (supermajority_threshold tot) (precommit_tally c)"

definition total_prevote_weight :: "vote_collector \<Rightarrow> u64" where
  "total_prevote_weight c = sum_u64 (hvalues (prevote_tally c))"

definition total_precommit_weight :: "vote_collector \<Rightarrow> u64" where
  "total_precommit_weight c = sum_u64 (hvalues (precommit_tally c))"

definition collector_reset :: "vote_collector \<Rightarrow> vote_collector" where
  "collector_reset c = c\<lparr>prevote_tally := [], precommit_tally := []\<rparr>"

section \<open>Timeouts\<close>

definition PROPOSE_TIMEOUT_MS :: u64 where "PROPOSE_TIMEOUT_MS = 20000"
definition PREVOTE_TIMEOUT_MS :: u64 where "PREVOTE_TIMEOUT_MS = 12000"
definition PRECOMMIT_TIMEOUT_MS :: u64 where "PRECOMMIT_TIMEOUT_MS = 12000"
definition TIMEOUT_INCREMENT_MS :: u64 where "TIMEOUT_INCREMENT_MS = 1000"
definition VOTE_TIMEOUT_INCREMENT_MS :: u64 where "VOTE_TIMEOUT_INCREMENT_MS = 2000"
definition MAX_TIMEOUT_MS :: u64 where "MAX_TIMEOUT_MS = 30000"
definition MAX_ROUND :: u32 where "MAX_ROUND = 100"

definition propose_timeout :: "u32 \<Rightarrow> u64" where
  "propose_timeout r =
    min (saturating_add_u64 PROPOSE_TIMEOUT_MS (saturating_mul_u64 r TIMEOUT_INCREMENT_MS)) MAX_TIMEOUT_MS"

definition prevote_timeout :: "u32 \<Rightarrow> u64" where
  "prevote_timeout r =
    min (saturating_add_u64 PREVOTE_TIMEOUT_MS (saturating_mul_u64 r VOTE_TIMEOUT_INCREMENT_MS)) MAX_TIMEOUT_MS"

definition precommit_timeout :: "u32 \<Rightarrow> u64" where
  "precommit_timeout r =
    min (saturating_add_u64 PRECOMMIT_TIMEOUT_MS (saturating_mul_u64 r VOTE_TIMEOUT_INCREMENT_MS)) MAX_TIMEOUT_MS"

section \<open>Engine\<close>

datatype bft_action =
    ProposeBlock
  | BroadcastPrevote prevote
  | BroadcastPrecommit precommit
  | FinalizeBlock u64 u32 string block_justification
  | SkipRound
  | TimeoutAdvanceRound
  | Wait
  | SyncNeeded u64

record bft_engine =
  bft_state :: bft_round_state
  collector :: vote_collector
  our_address :: string
  phase_start :: nat
  pending_prevote :: "prevote option"
  pending_precommit :: "precommit option"
  peer_rounds :: "(string, u32 \<times> u64) hmap"
  round_start :: nat

definition BftEngine_new :: "nat \<Rightarrow> u64 \<Rightarrow> string \<Rightarrow> u64 \<Rightarrow> bft_engine" where
  "BftEngine_new now h addr tot = \<lparr>bft_state = BftRoundState_new h 0 tot,
     collector = VoteCollector_new, our_address = addr, phase_start = now, pending_prevote = None,
     pending_precommit = None, peer_rounds = [], round_start = now\<rparr>"

definition new_height :: "nat \<Rightarrow> u64 \<Rightarrow> u64 \<Rightarrow> bft_engine \<Rightarrow> bft_engine" where
  "new_height now h tot e = e\<lparr>bft_state := advance_height h tot (bft_state e),
     collector := collector_reset (collector e), phase_start := now, round_start := now,
     pending_prevote := None, pending_precommit := None, peer_rounds := []\<rparr>"

definition advance_round :: "nat \<Rightarrow> bft_engine \<Rightarrow> bft_engine" where
  "advance_round now e = e\<lparr>bft_state := state_advance_round (bft_state e),
     collector := collector_reset (collector e), phase_start := now, round_start := now,
     pending_prevote := None, pending_precommit := None\<rparr>"

text \<open>The loop of \<open>catch_up_round\<close>; a target is a \<open>u32\<close>, so the round stays below the saturation point.\<close>

function catch_up_loop :: "u32 \<Rightarrow> bft_engine \<Rightarrow> bft_engine" where
  "catch_up_loop target e =
    (if round (bft_state e) < target \<and> round (bft_state e) < U32_MAX then
       catch_up_loop target (e\<lparr>bft_state := state_advance_round (bft_state e),
         collector := collector_reset (collector e), pending_prevote := None, pending_precommit := None\<rparr>)
     else e)"
  by pat_completeness auto
termination
  by (relation "measure (\<lambda>(target, e). target - round (bft_state e))")
     (auto simp: state_advance_round_def saturating_add_u32_def)

declare catch_up_loop.simps [simp del]

definition catch_up_round :: "nat \<Rightarrow> u32 \<Rightarrow> stake_registry \<Rightarrow> bft_engine \<Rightarrow> prevote option \<times> bft_engine" where
  "catch_up_round now target_round reg e =
    (if target_round \<le> round (bft_state e) then (None, e)
     else (None, (catch_up_loop target_round e)\<lparr>phase_start := now\<rparr>))"

definition expected_proposer :: "bft_engine \<Rightarrow> stake_registry \<Rightarrow> string option" where
  "expected_proposer e reg = weighted_proposer reg (height (bft_state e)) (round (bft_state e))"

definition is_proposer :: "bft_engine \<Rightarrow> stake_registry \<Rightarrow> bool" where
  "is_proposer e reg \<longleftrightarrow>
    weighted_proposer reg (height (bft_state e)) (round (bft_state e)) = Some (our_address e)"

definition is_timed_out :: "nat \<Rightarrow> bft_engine \<Rightarrow> bool" where
  "is_timed_out now e \<longleftrightarrow>
    (case phase (bft_state e) of
       Propose \<Rightarrow> propose_timeout (round (bft_state e))
     | Prevote \<Rightarrow> prevote_timeout (round (bft_state e))
     | Precommit \<Rightarrow> precommit_timeout (round (bft_state e))
     | Finalize \<Rightarrow> 0) \<le> now - phase_start e"

section \<open>Proposals and votes\<close>

definition retry_pending_prevote_for :: "string \<Rightarrow> bft_engine \<Rightarrow> bft_action option" where
  "retry_pending_prevote_for block_hash e =
    (case pending_prevote e of
       None \<Rightarrow> None
     | Some v \<Rightarrow>
         if pv_height v = height (bft_state e) \<and> pv_round v = round (bft_state e) \<and>
            pv_block_hash v = Some block_hash
         then Some (BroadcastPrevote v) else None)"

definition emit_prevote :: "prevote \<Rightarrow> bft_engine \<Rightarrow> bft_action \<times> bft_engine" where
  "emit_prevote v e =
    (case pending_prevote e of
       Some q \<Rightarrow>
         if pv_height q = pv_height v \<and> pv_round q = pv_round v \<and> pv_validator q = pv_validator v then
           if q = v then (BroadcastPrevote q, e) else (Wait, e)
         else (BroadcastPrevote v, e\<lparr>pending_prevote := Some v\<rparr>)
     | None \<Rightarrow> (BroadcastPrevote v, e\<lparr>pending_prevote := Some v\<rparr>))"

definition emit_precommit :: "precommit \<Rightarrow> bft_engine \<Rightarrow> bft_action \<times> bft_engine" where
  "emit_precommit v e =
    (case pending_precommit e of
       Some q \<Rightarrow>
         if pc_height q = pc_height v \<and> pc_round q = pc_round v \<and> pc_validator q = pc_validator v then
           if q = v then (BroadcastPrecommit q, e) else (Wait, e)
         else (BroadcastPrecommit v, e\<lparr>pending_precommit := Some v\<rparr>)
     | None \<Rightarrow> (BroadcastPrecommit v, e\<lparr>pending_precommit := Some v\<rparr>))"

definition our_prevote :: "bft_engine \<Rightarrow> string option \<Rightarrow> prevote" where
  "our_prevote e h = \<lparr>pv_height = height (bft_state e), pv_round = round (bft_state e),
     pv_block_hash = h, pv_validator = our_address e, pv_signature = []\<rparr>"

definition our_precommit :: "bft_engine \<Rightarrow> string option \<Rightarrow> precommit" where
  "our_precommit e h = \<lparr>pc_height = height (bft_state e), pc_round = round (bft_state e),
     pc_block_hash = h, pc_validator = our_address e, pc_signature = []\<rparr>"

definition STALE_LOCK_ROUND_GAP :: u32 where "STALE_LOCK_ROUND_GAP = 16"

definition stale_lock :: "string \<Rightarrow> bft_round_state \<Rightarrow> bool" where
  "stale_lock block_hash s \<longleftrightarrow>
    (case (locked_hash s, locked_round s) of
       (Some lh, Some lr) \<Rightarrow> lh \<noteq> block_hash \<and> locked_block s = None \<and>
         STALE_LOCK_ROUND_GAP \<le> saturating_sub (round s) lr
     | _ \<Rightarrow> False)"

definition relax_stale_lock :: "string \<Rightarrow> bft_round_state \<Rightarrow> bft_round_state" where
  "relax_stale_lock block_hash s =
    (if stale_lock block_hash s
     then s\<lparr>locked_hash := None, locked_round := None, staging_block := None\<rparr> else s)"

definition accept_proposal :: "nat \<Rightarrow> string \<Rightarrow> bft_engine \<Rightarrow> bft_action \<times> bft_engine" where
  "accept_proposal now block_hash e =
    (let s = (relax_stale_lock block_hash (bft_state e))
               \<lparr>proposed_hash := Some block_hash, phase := Prevote\<rparr>;
         e' = e\<lparr>bft_state := s, phase_start := now\<rparr>
     in if our_prevote_cast s then (Wait, e')
        else let vote_hash = (case locked_hash s of
                    Some locked \<Rightarrow> if locked \<noteq> block_hash then None else Some block_hash
                  | None \<Rightarrow> Some block_hash)
             in emit_prevote (our_prevote e' vote_hash) e')"

definition on_proposal ::
  "nat \<Rightarrow> string \<Rightarrow> string \<Rightarrow> stake_registry \<Rightarrow> bft_engine \<Rightarrow> bft_action \<times> bft_engine" where
  "on_proposal now block_hash proposer reg e =
    (case retry_pending_prevote_for block_hash e of
       Some a \<Rightarrow> (a, e)
     | None \<Rightarrow>
         if phase (bft_state e) \<noteq> Propose then (Wait, e)
         else if weighted_proposer reg (height (bft_state e)) (round (bft_state e)) \<noteq> Some proposer
         then (Wait, e)
         else if (case get_validator reg proposer of
                    Some v \<Rightarrow> is_jailed v \<or> is_tombstoned v | None \<Rightarrow> False)
         then (Wait, e)
         else accept_proposal now block_hash e)"

definition on_own_proposal :: "nat \<Rightarrow> string \<Rightarrow> bft_engine \<Rightarrow> bft_action \<times> bft_engine" where
  "on_own_proposal now block_hash e =
    (case retry_pending_prevote_for block_hash e of
       Some a \<Rightarrow> (a, e)
     | None \<Rightarrow> if phase (bft_state e) \<noteq> Propose then (Wait, e) else accept_proposal now block_hash e)"

text \<open>The lock a prevote supermajority for \<open>h\<close> sets, with the staged bytes when they are of \<open>h\<close>.\<close>

definition lock_on :: "string \<Rightarrow> bft_round_state \<Rightarrow> bft_round_state" where
  "lock_on h s =
    (let kept = (if locked_hash s \<noteq> Some h then None else locked_block s)
     in s\<lparr>locked_hash := Some h, locked_round := Some (round s), staging_block := None,
          locked_block := (case staging_block s of
             Some (staged_hash, staged_bytes) \<Rightarrow> if staged_hash = h then Some staged_bytes else kept
           | None \<Rightarrow> kept)\<rparr>)"

definition prevote_quorum :: "nat \<Rightarrow> string option \<Rightarrow> bft_engine \<Rightarrow> bft_action \<times> bft_engine" where
  "prevote_quorum now hash e =
    (let s = (bft_state e)\<lparr>phase := Precommit\<rparr>;
         s' = (case hash of Some h \<Rightarrow> lock_on h s | None \<Rightarrow> s);
         e' = e\<lparr>bft_state := s', phase_start := now\<rparr>
     in if our_precommit_cast s' then (Wait, e') else emit_precommit (our_precommit e' hash) e')"

definition count_prevote :: "nat \<Rightarrow> prevote \<Rightarrow> u64 \<Rightarrow> bft_engine \<Rightarrow> bft_action \<times> bft_engine" where
  "count_prevote now v stake e =
    (let e' = e\<lparr>bft_state := (bft_state e)\<lparr>prevotes :=
                   hput (prevotes (bft_state e)) (pv_validator v) (pv_block_hash v, stake)\<rparr>,
               collector := collector_add_prevote (pv_block_hash v) stake (collector e)\<rparr>
     in case prevote_supermajority (collector e') (total_active_stake (bft_state e')) of
          None \<Rightarrow> (Wait, e')
        | Some hash \<Rightarrow> if phase (bft_state e') = Prevote then prevote_quorum now hash e' else (Wait, e'))"

definition on_prevote_weighted :: "nat \<Rightarrow> prevote \<Rightarrow> u64 \<Rightarrow> bft_engine \<Rightarrow> bft_action \<times> bft_engine" where
  "on_prevote_weighted now v stake e =
    (if pv_height v \<noteq> height (bft_state e) then (Wait, e)
     else if pv_round v \<noteq> round (bft_state e) then (Wait, e)
     else
       let own = pv_validator v = our_address e \<and> pending_prevote e \<noteq> None
       in if own \<and> pending_prevote e \<noteq> Some v then (Wait, e)
          else
            let e1 = (if own then e\<lparr>pending_prevote := None\<rparr> else e)
            in if hget (prevotes (bft_state e1)) (pv_validator v) \<noteq> None then (Wait, e1)
               else count_prevote now v stake e1)"

definition on_prevote :: "nat \<Rightarrow> prevote \<Rightarrow> bft_engine \<Rightarrow> bft_action \<times> bft_engine" where
  "on_prevote now v e = on_prevote_weighted now v 1 e"

definition justification_for :: "bft_round_state \<Rightarrow> string \<Rightarrow> block_justification" where
  "justification_for s block_hash =
    fold (\<lambda>(val, vote_hash, sig, w) j. if vote_hash = Some block_hash then add_precommit j val sig w else j)
      (precommits s) (BlockJustification_new (height s) (round s) block_hash)"

definition count_precommit :: "precommit \<Rightarrow> u64 \<Rightarrow> bft_engine \<Rightarrow> bft_action \<times> bft_engine" where
  "count_precommit v stake e =
    (let e' = e\<lparr>bft_state := (bft_state e)\<lparr>precommits :=
                   hput (precommits (bft_state e)) (pc_validator v) (pc_block_hash v, pc_signature v, stake)\<rparr>,
               collector := collector_add_precommit (pc_block_hash v) stake (collector e)\<rparr>
     in case precommit_supermajority (collector e') (total_active_stake (bft_state e')) of
          None \<Rightarrow> (Wait, e')
        | Some None \<Rightarrow> (SkipRound, e')
        | Some (Some block_hash) \<Rightarrow>
            (FinalizeBlock (height (bft_state e')) (round (bft_state e')) block_hash
               (justification_for (bft_state e') block_hash),
             e'\<lparr>bft_state := (bft_state e')\<lparr>phase := Finalize\<rparr>\<rparr>))"

definition on_precommit_weighted :: "precommit \<Rightarrow> u64 \<Rightarrow> bft_engine \<Rightarrow> bft_action \<times> bft_engine" where
  "on_precommit_weighted v stake e =
    (if pc_height v \<noteq> height (bft_state e) then (Wait, e)
     else if pc_round v \<noteq> round (bft_state e) then (Wait, e)
     else
       let own = pc_validator v = our_address e \<and> pending_precommit e \<noteq> None
       in if own \<and> pending_precommit e \<noteq> Some v then (Wait, e)
          else
            let e1 = (if own then e\<lparr>pending_precommit := None\<rparr> else e)
            in if hget (precommits (bft_state e1)) (pc_validator v) \<noteq> None then (Wait, e1)
               else count_precommit v stake e1)"

section \<open>Timeouts and round status\<close>

definition on_timeout :: "nat \<Rightarrow> bft_engine \<Rightarrow> bft_action \<times> bft_engine" where
  "on_timeout now e =
    (case pending_prevote e of
       Some v \<Rightarrow> (BroadcastPrevote v, e)
     | None \<Rightarrow>
         (case pending_precommit e of
            Some v \<Rightarrow> (BroadcastPrecommit v, e)
          | None \<Rightarrow>
              (case phase (bft_state e) of
                 Propose \<Rightarrow>
                   let e' = e\<lparr>bft_state := (bft_state e)\<lparr>phase := Prevote\<rparr>, phase_start := now\<rparr>
                   in if our_prevote_cast (bft_state e') then (Wait, e')
                      else emit_prevote (our_prevote e' None) e'
               | Prevote \<Rightarrow>
                   let e' = e\<lparr>bft_state := (bft_state e)\<lparr>phase := Precommit\<rparr>, phase_start := now\<rparr>
                   in if our_precommit_cast (bft_state e') then (Wait, e')
                      else emit_precommit (our_precommit e' None) e'
               | Precommit \<Rightarrow>
                   if MAX_ROUND \<le> round (bft_state e) then (SkipRound, e) else (TimeoutAdvanceRound, e)
               | Finalize \<Rightarrow> (Wait, e))))"

fun first_round_reaching :: "u64 \<Rightarrow> u64 \<Rightarrow> (u32 \<times> u64) list \<Rightarrow> u32 option" where
  "first_round_reaching threshold accumulated [] = None"
| "first_round_reaching threshold accumulated ((r, stake) # peers) =
    (let accumulated' = saturating_add_u64 accumulated stake
     in if threshold \<le> accumulated' then Some r else first_round_reaching threshold accumulated' peers)"

definition higher_peers :: "bft_engine \<Rightarrow> (u32 \<times> u64) list" where
  "higher_peers e = sort_by (\<lambda>p q. fst q \<le> fst p)
     (filter (\<lambda>(r, w). round (bft_state e) < r) (hvalues (peer_rounds e)))"

definition peer_supermajority_higher_round :: "bft_engine \<Rightarrow> u32 option" where
  "peer_supermajority_higher_round e =
    (if total_active_stake (bft_state e) = 0 then None
     else first_round_reaching (supermajority_threshold (total_active_stake (bft_state e))) 0 (higher_peers e))"

definition f_plus_one_round :: "bft_engine \<Rightarrow> u32 option" where
  "f_plus_one_round e =
    (if total_active_stake (bft_state e) = 0 then None
     else first_round_reaching (total_active_stake (bft_state e) div 3 + 1) 0 (higher_peers e))"

definition record_peer_round :: "round_status \<Rightarrow> u64 \<Rightarrow> bft_engine \<Rightarrow> bft_engine" where
  "record_peer_round status stake e =
    (let seen = (case hget (peer_rounds e) (rs_validator status) of None \<Rightarrow> 0 | Some (r, w) \<Rightarrow> r)
     in e\<lparr>peer_rounds := hput (peer_rounds e) (rs_validator status)
          (if seen \<le> rs_round status then rs_round status else seen, stake)\<rparr>)"

definition on_round_status_weighted ::
  "nat \<Rightarrow> round_status \<Rightarrow> u64 \<Rightarrow> stake_registry \<Rightarrow> bft_engine \<Rightarrow> bft_action \<times> bft_engine" where
  "on_round_status_weighted now status stake reg e =
    (if height (bft_state e) < rs_height status then (SyncNeeded (rs_height status), e)
     else if rs_height status < height (bft_state e) then (Wait, e)
     else
       let e1 = record_peer_round status stake e
       in case f_plus_one_round e1 of
            None \<Rightarrow> (Wait, e1)
          | Some target \<Rightarrow>
              if round (bft_state e1) < target then
                (case catch_up_round now target reg e1 of
                   (Some v, e2) \<Rightarrow> (BroadcastPrevote v, e2)
                 | (None, e2) \<Rightarrow> (Wait, e2))
              else (Wait, e1))"

definition on_round_status :: "nat \<Rightarrow> round_status \<Rightarrow> stake_registry \<Rightarrow> bft_engine \<Rightarrow> bft_action \<times> bft_engine" where
  "on_round_status now status reg e =
    (if height (bft_state e) < rs_height status then (SyncNeeded (rs_height status), e)
     else if rs_height status = height (bft_state e) \<and> wrapping_add_u32 (round (bft_state e)) 1 < rs_round status
     then (case catch_up_round now (rs_round status - 1) reg e of
             (Some v, e1) \<Rightarrow> (BroadcastPrevote v, e1)
           | (None, e1) \<Rightarrow> (Wait, e1))
     else (Wait, e))"

definition build_round_status :: "bft_engine \<Rightarrow> round_status" where
  "build_round_status e = \<lparr>rs_height = height (bft_state e), rs_round = round (bft_state e),
     rs_validator = our_address e, rs_signature = []\<rparr>"

definition stash_proposal_bytes :: "string \<Rightarrow> u8 list \<Rightarrow> bft_engine \<Rightarrow> bft_engine" where
  "stash_proposal_bytes block_hash bytes e =
    e\<lparr>bft_state := (bft_state e)\<lparr>staging_block := Some (block_hash, bytes)\<rparr>\<rparr>"

definition locked_proposal_bytes :: "bft_engine \<Rightarrow> (string \<times> u8 list) option" where
  "locked_proposal_bytes e =
    (case (locked_hash (bft_state e), locked_block (bft_state e)) of
       (Some h, Some bytes) \<Rightarrow> Some (h, bytes)
     | _ \<Rightarrow> None)"

definition mark_prevote_cast :: "bft_engine \<Rightarrow> bft_engine" where
  "mark_prevote_cast e = e\<lparr>bft_state := (bft_state e)\<lparr>our_prevote_cast := True\<rparr>\<rparr>"

definition mark_precommit_cast :: "bft_engine \<Rightarrow> bft_engine" where
  "mark_precommit_cast e = e\<lparr>bft_state := (bft_state e)\<lparr>our_precommit_cast := True\<rparr>\<rparr>"

end
