(* ===== verification/Bft_Rules.thy ===== *)
theory Bft_Rules
  imports Bft_Engine
begin

text \<open>
  The voting rules the engine is meant to follow, as an abstract machine for one validator at one
  height: the phases of a round, at most one prevote and one precommit per round, a lock on the
  block it precommitted, and prevotes that respect the lock. \<open>Q r b\<close> says that block \<open>b\<close> has a prevote
  supermajority in round \<open>r\<close>; \<open>relax\<close> says whether a lock may be dropped.
\<close>

section \<open>The rules\<close>

record voter =
  v_round :: u32
  v_phase :: bft_phase
  v_lock :: "(string \<times> u32) option"
  v_prevotes :: "(u32 \<times> string option) set"
  v_precommits :: "(u32 \<times> string option) set"

definition lock_allows :: "(string \<times> u32) option \<Rightarrow> string option \<Rightarrow> bool" where
  "lock_allows l h \<longleftrightarrow> (case (l, h) of (Some (c, r), Some b) \<Rightarrow> b = c | _ \<Rightarrow> True)"

inductive rule_step :: "bool \<Rightarrow> (u32 \<Rightarrow> string \<Rightarrow> bool) \<Rightarrow> voter \<Rightarrow> voter \<Rightarrow> bool" for relax Q where
  cast_prevote: "v_phase a = Propose \<Longrightarrow> lock_allows (v_lock a) h \<Longrightarrow>
     rule_step relax Q a (a\<lparr>v_phase := Prevote, v_prevotes := insert (v_round a, h) (v_prevotes a)\<rparr>)"
| no_prevote: "v_phase a = Propose \<Longrightarrow> rule_step relax Q a (a\<lparr>v_phase := Prevote\<rparr>)"
| nil_precommit: "v_phase a = Prevote \<Longrightarrow>
     rule_step relax Q a (a\<lparr>v_phase := Precommit, v_precommits := insert (v_round a, None) (v_precommits a)\<rparr>)"
| no_precommit: "v_phase a = Prevote \<Longrightarrow> rule_step relax Q a (a\<lparr>v_phase := Precommit\<rparr>)"
| lock_precommit: "v_phase a = Prevote \<Longrightarrow> Q (v_round a) b \<Longrightarrow>
     rule_step relax Q a (a\<lparr>v_phase := Precommit, v_lock := Some (b, v_round a),
       v_precommits := insert (v_round a, Some b) (v_precommits a)\<rparr>)"
| lock_only: "v_phase a = Prevote \<Longrightarrow> Q (v_round a) b \<Longrightarrow>
     rule_step relax Q a (a\<lparr>v_phase := Precommit, v_lock := Some (b, v_round a)\<rparr>)"
| finalize: "rule_step relax Q a (a\<lparr>v_phase := Finalize\<rparr>)"
| next_round: "v_round a < r \<Longrightarrow> rule_step relax Q a (a\<lparr>v_round := r, v_phase := Propose\<rparr>)"
| drop_lock: "relax \<Longrightarrow> rule_step relax Q a (a\<lparr>v_lock := None\<rparr>)"

definition voter_start :: "u32 \<Rightarrow> voter" where
  "voter_start r = \<lparr>v_round = r, v_phase = Propose, v_lock = None, v_prevotes = {}, v_precommits = {}\<rparr>"

section \<open>At most one vote per round\<close>

definition votes_once :: "voter \<Rightarrow> bool" where
  "votes_once a \<longleftrightarrow>
    (\<forall>r h. (r, h) \<in> v_prevotes a \<longrightarrow> r \<le> v_round a \<and> (r = v_round a \<longrightarrow> v_phase a \<noteq> Propose)) \<and>
    (\<forall>r h. (r, h) \<in> v_precommits a \<longrightarrow>
       r \<le> v_round a \<and> (r = v_round a \<longrightarrow> v_phase a = Precommit \<or> v_phase a = Finalize)) \<and>
    single_valued (v_prevotes a) \<and> single_valued (v_precommits a)"

lemma single_valued_insert:
  "single_valued R \<Longrightarrow> (\<And>y. (x, y) \<notin> R) \<Longrightarrow> single_valued (insert (x, z) R)"
  by (auto simp: single_valued_def)

lemma votes_once_start [simp]: "votes_once (voter_start r)"
  by (simp add: votes_once_def voter_start_def)

lemma votes_once_step: "rule_step relax Q a a' \<Longrightarrow> votes_once a \<Longrightarrow> votes_once a'"
proof (induction rule: rule_step.induct)
  case (cast_prevote a h)
  then have "\<And>y. (v_round a, y) \<notin> v_prevotes a" by (auto simp: votes_once_def)
  with cast_prevote show ?case by (auto simp: votes_once_def intro!: single_valued_insert)
next
  case (nil_precommit a)
  then have "\<And>y. (v_round a, y) \<notin> v_precommits a" by (auto simp: votes_once_def)
  with nil_precommit show ?case by (auto simp: votes_once_def intro!: single_valued_insert)
next
  case (lock_precommit a b)
  then have "\<And>y. (v_round a, y) \<notin> v_precommits a" by (auto simp: votes_once_def)
  with lock_precommit show ?case by (auto simp: votes_once_def intro!: single_valued_insert)
next
  case (next_round a r)
  then show ?case by (fastforce simp: votes_once_def)
qed (auto simp: votes_once_def)

section \<open>The lock\<close>

text \<open>
  Without dropped locks: the lock is backed by a prevote supermajority and is at least as recent as
  every block precommit, and a prevote that contradicts an earlier precommit is backed by a prevote
  supermajority in between.
\<close>

definition lock_backed :: "(u32 \<Rightarrow> string \<Rightarrow> bool) \<Rightarrow> voter \<Rightarrow> bool" where
  "lock_backed Q a \<longleftrightarrow>
    (\<forall>c lr. v_lock a = Some (c, lr) \<longrightarrow>
       Q lr c \<and> lr \<le> v_round a \<and> (v_phase a = Propose \<or> v_phase a = Prevote \<longrightarrow> lr < v_round a))"

definition precommits_locked :: "(u32 \<Rightarrow> string \<Rightarrow> bool) \<Rightarrow> voter \<Rightarrow> bool" where
  "precommits_locked Q a \<longleftrightarrow>
    (\<forall>r b. (r, Some b) \<in> v_precommits a \<longrightarrow>
       Q r b \<and> (\<exists>c lr. v_lock a = Some (c, lr) \<and> r \<le> lr \<and> (r = lr \<longrightarrow> c = b)))"

definition prevotes_follow_lock :: "(u32 \<Rightarrow> string \<Rightarrow> bool) \<Rightarrow> voter \<Rightarrow> bool" where
  "prevotes_follow_lock Q a \<longleftrightarrow>
    (\<forall>r b r' c. (r, Some b) \<in> v_precommits a \<longrightarrow> (r', Some c) \<in> v_prevotes a \<longrightarrow> r < r' \<longrightarrow> b \<noteq> c \<longrightarrow>
       (\<exists>q. r < q \<and> q < r' \<and> Q q c))"

definition voter_inv :: "(u32 \<Rightarrow> string \<Rightarrow> bool) \<Rightarrow> voter \<Rightarrow> bool" where
  "voter_inv Q a \<longleftrightarrow> votes_once a \<and> lock_backed Q a \<and> precommits_locked Q a \<and> prevotes_follow_lock Q a"

lemma voter_inv_start [simp]: "voter_inv Q (voter_start r)"
  by (simp add: voter_inv_def lock_backed_def precommits_locked_def prevotes_follow_lock_def)
     (simp add: voter_start_def)

lemma lock_backed_step: "rule_step relax Q a a' \<Longrightarrow> lock_backed Q a \<Longrightarrow> lock_backed Q a'"
proof (induction rule: rule_step.induct)
  case (next_round a r)
  then show ?case by (fastforce simp: lock_backed_def)
qed (auto simp: lock_backed_def)

lemma precommits_locked_step:
  "rule_step False Q a a' \<Longrightarrow> votes_once a \<Longrightarrow> precommits_locked Q a \<Longrightarrow> precommits_locked Q a'"
proof (induction rule: rule_step.induct)
  case (lock_precommit a b)
  then show ?case by (force simp: precommits_locked_def votes_once_def)
next
  case (lock_only a b)
  have "r < v_round a" if "(r, h) \<in> v_precommits a" for r h
    using lock_only that by (force simp: votes_once_def)
  with lock_only show ?case by (force simp: precommits_locked_def)
qed (auto simp: precommits_locked_def)

lemma prevotes_follow_lock_step:
  "rule_step False Q a a' \<Longrightarrow> votes_once a \<Longrightarrow> lock_backed Q a \<Longrightarrow> precommits_locked Q a \<Longrightarrow>
   prevotes_follow_lock Q a \<Longrightarrow> prevotes_follow_lock Q a'"
proof (induction rule: rule_step.induct)
  case (cast_prevote a h)
  have "\<exists>q. r < q \<and> q < v_round a \<and> Q q c"
    if pc: "(r, Some b) \<in> v_precommits a" and h: "h = Some c" and ne: "b \<noteq> c" for r b c
  proof -
    from cast_prevote.prems(3) pc
    obtain d lr where l: "v_lock a = Some (d, lr)" "r \<le> lr" "r = lr \<longrightarrow> d = b"
      unfolding precommits_locked_def by blast
    with cast_prevote h ne have "d = c" "Q lr c" "lr < v_round a"
      by (auto simp: lock_allows_def lock_backed_def)
    with l ne have "r < lr" by (cases "r = lr") auto
    with \<open>Q lr c\<close> \<open>lr < v_round a\<close> show ?thesis by blast
  qed
  with cast_prevote.prems(4) show ?case unfolding prevotes_follow_lock_def by auto
next
  case (lock_precommit a b)
  have "r' \<le> v_round a" if "(r', h) \<in> v_prevotes a" for r' h
    using lock_precommit that by (auto simp: votes_once_def)
  with lock_precommit.prems(4) show ?case
    unfolding prevotes_follow_lock_def by (auto simp: not_less [symmetric])
qed (auto simp: prevotes_follow_lock_def)

lemma voter_inv_step: "rule_step False Q a a' \<Longrightarrow> voter_inv Q a \<Longrightarrow> voter_inv Q a'"
  using votes_once_step lock_backed_step precommits_locked_step prevotes_follow_lock_step
  by (auto simp: voter_inv_def)

lemma votes_once_steps: "(rule_step relax Q)\<^sup>*\<^sup>* a a' \<Longrightarrow> votes_once a \<Longrightarrow> votes_once a'"
  by (induction rule: rtranclp_induct) (auto intro: votes_once_step)

lemma voter_inv_steps: "(rule_step False Q)\<^sup>*\<^sup>* a a' \<Longrightarrow> voter_inv Q a \<Longrightarrow> voter_inv Q a'"
  by (induction rule: rtranclp_induct) (auto intro: voter_inv_step)

lemma voter_inv_mono:
  assumes Q: "\<And>r b. Q r b \<Longrightarrow> Q' r b" and inv: "voter_inv Q a"
  shows "voter_inv Q' a"
proof -
  have "lock_backed Q' a"
    using inv Q by (simp add: voter_inv_def lock_backed_def)
  moreover have "precommits_locked Q' a"
    using inv Q by (simp add: voter_inv_def precommits_locked_def)
  moreover have "prevotes_follow_lock Q' a"
    unfolding prevotes_follow_lock_def
  proof (intro allI impI)
    fix r b r' c
    assume "(r, Some b) \<in> v_precommits a" "(r', Some c) \<in> v_prevotes a" "r < r'" "b \<noteq> c"
    with inv obtain q where "r < q" "q < r'" "Q q c"
      unfolding voter_inv_def prevotes_follow_lock_def by blast
    with Q show "\<exists>q. r < q \<and> q < r' \<and> Q' q c" by blast
  qed
  ultimately show ?thesis
    using inv by (simp add: voter_inv_def)
qed

end
