(* ===== verification/Bft_Refine.thy ===== *)
theory Bft_Refine
  imports Bft_Rules
begin

text \<open>
  The engine follows the voting rules: every operation of the engine is a sequence of rule steps
  under the abstraction \<open>abs_voter\<close>, which adds the votes broadcast so far to the engine's state.
\<close>

section \<open>Events\<close>

datatype engine_event =
    EvProposal nat string string stake_registry
  | EvOwnProposal nat string
  | EvPrevote nat prevote u64
  | EvPrecommit precommit u64
  | EvTimeout nat
  | EvRoundStatus nat round_status u64 stake_registry
  | EvPlainRoundStatus nat round_status stake_registry
  | EvAdvanceRound nat
  | EvCatchUp nat u32 stake_registry
  | EvStash string "u8 list"
  | EvPrevoteSent
  | EvPrecommitSent

fun engine_step :: "engine_event \<Rightarrow> bft_engine \<Rightarrow> bft_action \<times> bft_engine" where
  "engine_step (EvProposal now h proposer reg) e = on_proposal now h proposer reg e"
| "engine_step (EvOwnProposal now h) e = on_own_proposal now h e"
| "engine_step (EvPrevote now v stake) e = on_prevote_weighted now v stake e"
| "engine_step (EvPrecommit v stake) e = on_precommit_weighted v stake e"
| "engine_step (EvTimeout now) e = on_timeout now e"
| "engine_step (EvRoundStatus now st stake reg) e = on_round_status_weighted now st stake reg e"
| "engine_step (EvPlainRoundStatus now st reg) e = on_round_status now st reg e"
| "engine_step (EvAdvanceRound now) e = (Wait, advance_round now e)"
| "engine_step (EvCatchUp now target reg) e = (Wait, snd (catch_up_round now target reg e))"
| "engine_step (EvStash h bytes) e = (Wait, stash_proposal_bytes h bytes e)"
| "engine_step EvPrevoteSent e = (Wait, mark_prevote_cast e)"
| "engine_step EvPrecommitSent e = (Wait, mark_precommit_cast e)"

fun prevote_out :: "bft_action \<Rightarrow> (u32 \<times> string option) set" where
  "prevote_out (BroadcastPrevote v) = {(pv_round v, pv_block_hash v)}"
| "prevote_out _ = {}"

fun precommit_out :: "bft_action \<Rightarrow> (u32 \<times> string option) set" where
  "precommit_out (BroadcastPrecommit v) = {(pc_round v, pc_block_hash v)}"
| "precommit_out _ = {}"

text \<open>The last round of the counter is never left, so it is not advanced there.\<close>

fun event_ok :: "engine_event \<Rightarrow> bft_engine \<Rightarrow> bool" where
  "event_ok (EvAdvanceRound now) e \<longleftrightarrow> round (bft_state e) < U32_MAX"
| "event_ok _ e \<longleftrightarrow> True"

text \<open>The event does not make the engine drop a stale lock.\<close>

fun keeps_lock :: "engine_event \<Rightarrow> bft_engine \<Rightarrow> bool" where
  "keeps_lock (EvProposal now h proposer reg) e \<longleftrightarrow> \<not> stale_lock h (bft_state e)"
| "keeps_lock (EvOwnProposal now h) e \<longleftrightarrow> \<not> stale_lock h (bft_state e)"
| "keeps_lock _ e \<longleftrightarrow> True"

text \<open>A block the engine counts a prevote supermajority for has one.\<close>

fun quorum_ok :: "(u32 \<Rightarrow> string \<Rightarrow> bool) \<Rightarrow> engine_event \<Rightarrow> bft_engine \<Rightarrow> bool" where
  "quorum_ok Q (EvPrevote now v stake) e \<longleftrightarrow>
    (pv_height v = height (bft_state e) \<longrightarrow> pv_round v = round (bft_state e) \<longrightarrow>
     hget (prevotes (bft_state e)) (pv_validator v) = None \<longrightarrow>
     (\<forall>b. prevote_supermajority (collector_add_prevote (pv_block_hash v) stake (collector e))
        (total_active_stake (bft_state e)) = Some (Some b) \<longrightarrow> Q (round (bft_state e)) b))"
| "quorum_ok Q _ e \<longleftrightarrow> True"

section \<open>Abstraction\<close>

definition lock_of :: "bft_round_state \<Rightarrow> (string \<times> u32) option" where
  "lock_of s = (case (locked_hash s, locked_round s) of (Some c, Some r) \<Rightarrow> Some (c, r) | _ \<Rightarrow> None)"

definition abs_voter ::
  "bft_engine \<Rightarrow> (u32 \<times> string option) set \<Rightarrow> (u32 \<times> string option) set \<Rightarrow> voter" where
  "abs_voter e PV PC = \<lparr>v_round = round (bft_state e), v_phase = phase (bft_state e),
     v_lock = lock_of (bft_state e), v_prevotes = PV, v_precommits = PC\<rparr>"

definition pending_ok :: "bft_engine \<Rightarrow> (u32 \<times> string option) set \<Rightarrow> (u32 \<times> string option) set \<Rightarrow> bool" where
  "pending_ok e PV PC \<longleftrightarrow>
    (locked_hash (bft_state e) = None \<longleftrightarrow> locked_round (bft_state e) = None) \<and>
    (\<forall>v. pending_prevote e = Some v \<longrightarrow> pv_height v = height (bft_state e) \<and>
       pv_validator v = our_address e \<and> pv_round v = round (bft_state e) \<and> (round (bft_state e), pv_block_hash v) \<in> PV) \<and>
    (\<forall>v. pending_precommit e = Some v \<longrightarrow> pc_height v = height (bft_state e) \<and>
       pc_validator v = our_address e \<and> pc_round v = round (bft_state e) \<and> (round (bft_state e), pc_block_hash v) \<in> PC)"

text \<open>
  One operation of the engine, from \<open>e\<close> with votes \<open>PV\<close> and \<open>PC\<close> sent, with its result \<open>res\<close>: a run of
  rule steps; the votes it broadcasts are of this validator at this height.
\<close>

definition refines ::
  "bool \<Rightarrow> (u32 \<Rightarrow> string \<Rightarrow> bool) \<Rightarrow> bft_engine \<Rightarrow> (u32 \<times> string option) set \<Rightarrow> (u32 \<times> string option) set
    \<Rightarrow> bft_action \<times> bft_engine \<Rightarrow> bool" where
  "refines relax Q e PV PC res \<longleftrightarrow>
    (let PV' = PV \<union> prevote_out (fst res); PC' = PC \<union> precommit_out (fst res); e' = snd res
     in (rule_step relax Q)\<^sup>*\<^sup>* (abs_voter e PV PC) (abs_voter e' PV' PC') \<and> pending_ok e' PV' PC' \<and>
        height (bft_state e') = height (bft_state e) \<and> our_address e' = our_address e \<and>
        total_active_stake (bft_state e') = total_active_stake (bft_state e) \<and>
        (\<forall>v. fst res = BroadcastPrevote v \<longrightarrow> pv_height v = height (bft_state e) \<and> pv_validator v = our_address e) \<and>
        (\<forall>v. fst res = BroadcastPrecommit v \<longrightarrow> pc_height v = height (bft_state e) \<and> pc_validator v = our_address e))"

text \<open>The parts of the engine the rules see.\<close>

definition same_view :: "bft_engine \<Rightarrow> bft_engine \<Rightarrow> bool" where
  "same_view e e' \<longleftrightarrow>
    height (bft_state e') = height (bft_state e) \<and> our_address e' = our_address e \<and>
    total_active_stake (bft_state e') = total_active_stake (bft_state e) \<and>
    round (bft_state e') = round (bft_state e) \<and> phase (bft_state e') = phase (bft_state e) \<and>
    locked_hash (bft_state e') = locked_hash (bft_state e) \<and>
    locked_round (bft_state e') = locked_round (bft_state e) \<and>
    (pending_prevote e' = pending_prevote e \<or> pending_prevote e' = None) \<and>
    (pending_precommit e' = pending_precommit e \<or> pending_precommit e' = None)"

fun silent :: "bft_action \<Rightarrow> bool" where
  "silent (BroadcastPrevote v) \<longleftrightarrow> False"
| "silent (BroadcastPrecommit v) \<longleftrightarrow> False"
| "silent _ \<longleftrightarrow> True"

lemma silent_out [simp]:
  "silent a \<Longrightarrow> prevote_out a = {}" "silent a \<Longrightarrow> precommit_out a = {}"
  "\<not> silent (BroadcastPrevote v)" "silent a \<Longrightarrow> a \<noteq> BroadcastPrevote v" "silent a \<Longrightarrow> a \<noteq> BroadcastPrecommit u"
  by (cases a; simp)+

lemma abs_same_view: "same_view e e' \<Longrightarrow> abs_voter e' PV PC = abs_voter e PV PC"
  by (simp add: same_view_def abs_voter_def lock_of_def)

lemma pending_same_view: "same_view e e' \<Longrightarrow> pending_ok e PV PC \<Longrightarrow> pending_ok e' PV PC"
  unfolding same_view_def pending_ok_def by (elim conjE disjE; simp)

lemma refines_silent:
  assumes "pending_ok e PV PC" and "same_view e e'" and "silent a"
  shows "refines relax Q e PV PC (a, e')"
  using assms abs_same_view [OF assms(2)] pending_same_view [OF assms(2,1)]
  by (simp add: refines_def) (simp add: same_view_def)

lemma refines_Wait: "pending_ok e PV PC \<Longrightarrow> refines relax Q e PV PC (Wait, e)"
  by (rule refines_silent) (simp_all add: same_view_def)

text \<open>Votes that wait for their own delivery are broadcast again as they are.\<close>

lemma refines_prevote_again:
  assumes "pending_ok e PV PC" and "pending_prevote e = Some v"
  shows "refines relax Q e PV PC (BroadcastPrevote v, e)"
proof -
  have "PV \<union> {(pv_round v, pv_block_hash v)} = PV"
    using assms by (auto simp: pending_ok_def)
  with assms show ?thesis by (simp add: refines_def) (simp add: pending_ok_def)
qed

lemma refines_precommit_again:
  assumes "pending_ok e PV PC" and "pending_precommit e = Some v"
  shows "refines relax Q e PV PC (BroadcastPrecommit v, e)"
proof -
  have "PC \<union> {(pc_round v, pc_block_hash v)} = PC"
    using assms by (auto simp: pending_ok_def)
  with assms show ?thesis by (simp add: refines_def) (simp add: pending_ok_def)
qed

section \<open>Operations\<close>

lemma our_prevote_simps [simp]:
  "pv_height (our_prevote e h) = height (bft_state e)" "pv_round (our_prevote e h) = round (bft_state e)"
  "pv_block_hash (our_prevote e h) = h" "pv_validator (our_prevote e h) = our_address e"
  by (simp_all add: our_prevote_def)

lemma our_precommit_simps [simp]:
  "pc_height (our_precommit e h) = height (bft_state e)" "pc_round (our_precommit e h) = round (bft_state e)"
  "pc_block_hash (our_precommit e h) = h" "pc_validator (our_precommit e h) = our_address e"
  by (simp_all add: our_precommit_def)

text \<open>No vote of the current round waits for delivery before the round has one.\<close>

lemma no_pending_prevote:
  assumes "pending_ok e PV PC" and "votes_once (abs_voter e PV PC)" and "phase (bft_state e) = Propose"
  shows "pending_prevote e = None"
  using assms by (cases "pending_prevote e") (auto simp: pending_ok_def votes_once_def abs_voter_def)

lemma no_pending_precommit:
  assumes "pending_ok e PV PC" and "votes_once (abs_voter e PV PC)"
    and "phase (bft_state e) = Propose \<or> phase (bft_state e) = Prevote"
  shows "pending_precommit e = None"
  using assms by (cases "pending_precommit e") (auto simp: pending_ok_def votes_once_def abs_voter_def)

lemma refines_cast_prevote:
  assumes ok: "pending_ok e PV PC" and once: "votes_once (abs_voter e PV PC)"
    and ph: "phase (bft_state e) = Propose" and al: "lock_allows (lock_of (bft_state e)) h"
    and e': "bft_state e' = (bft_state e)\<lparr>proposed_hash := p, phase := Prevote\<rparr>"
      "our_address e' = our_address e" "pending_prevote e' = pending_prevote e"
      "pending_precommit e' = pending_precommit e"
  shows "refines relax Q e PV PC (emit_prevote (our_prevote e' h) e')"
proof -
  have none: "pending_prevote e = None" "pending_precommit e = None"
    using no_pending_prevote [OF ok once] no_pending_precommit [OF ok once] ph by auto
  define e2 where "e2 = e'\<lparr>pending_prevote := Some (our_prevote e' h)\<rparr>"
  have emit: "emit_prevote (our_prevote e' h) e' = (BroadcastPrevote (our_prevote e' h), e2)"
    using e'(3) none(1) by (simp add: emit_prevote_def e2_def)
  have "rule_step relax Q (abs_voter e PV PC)
      ((abs_voter e PV PC)\<lparr>v_phase := Prevote,
         v_prevotes := insert (v_round (abs_voter e PV PC), h) (v_prevotes (abs_voter e PV PC))\<rparr>)"
    using ph al by (intro rule_step.cast_prevote) (simp_all add: abs_voter_def)
  moreover have "abs_voter e2 (insert (round (bft_state e), h) PV) PC =
      (abs_voter e PV PC)\<lparr>v_phase := Prevote,
         v_prevotes := insert (v_round (abs_voter e PV PC), h) (v_prevotes (abs_voter e PV PC))\<rparr>"
    using e'(1) by (simp add: abs_voter_def e2_def lock_of_def)
  ultimately show ?thesis
    using ok e' none
    by (simp add: emit refines_def r_into_rtranclp) (simp add: e2_def pending_ok_def)
qed

text \<open>The move to the precommit phase, with a precommit unless one was already sent.\<close>

lemma refines_enter_precommit:
  assumes ok: "pending_ok e PV PC" and once: "votes_once (abs_voter e PV PC)"
    and ph: "phase (bft_state e) = Prevote" and Q: "\<And>b. h = Some b \<Longrightarrow> Q (round (bft_state e)) b"
    and s: "height (bft_state e') = height (bft_state e)" "round (bft_state e') = round (bft_state e)"
      "total_active_stake (bft_state e') = total_active_stake (bft_state e)"
      "phase (bft_state e') = Precommit"
      "our_address e' = our_address e"
      "pending_prevote e' = pending_prevote e" "pending_precommit e' = pending_precommit e"
    and lock: "(case h of
        None \<Rightarrow> locked_hash (bft_state e') = locked_hash (bft_state e) \<and>
                locked_round (bft_state e') = locked_round (bft_state e)
      | Some b \<Rightarrow> locked_hash (bft_state e') = Some b \<and> locked_round (bft_state e') = Some (round (bft_state e)))"
  shows "refines relax Q e PV PC
    (if cast then (Wait, e') else emit_precommit (our_precommit e' h) e')"
proof -
  let ?a = "abs_voter e PV PC"
  have none: "pending_precommit e = None"
    using no_pending_precommit [OF ok once] ph by auto
  have lk: "locked_hash (bft_state e') = None \<longleftrightarrow> locked_round (bft_state e') = None"
    using ok lock by (cases h) (auto simp: pending_ok_def)
  have silent: "rule_step relax Q ?a (abs_voter e' PV PC)"
  proof (cases h)
    case None
    with lock s have "abs_voter e' PV PC = ?a\<lparr>v_phase := Precommit\<rparr>"
      by (simp add: abs_voter_def lock_of_def)
    with ph show ?thesis using rule_step.no_precommit [of ?a relax Q] by (simp add: abs_voter_def)
  next
    case (Some b)
    with lock s have "abs_voter e' PV PC = ?a\<lparr>v_phase := Precommit, v_lock := Some (b, v_round ?a)\<rparr>"
      by (simp add: abs_voter_def lock_of_def)
    with ph Q [OF Some] show ?thesis using rule_step.lock_only [of ?a Q b relax] by (simp add: abs_voter_def)
  qed
  define e2 where "e2 = e'\<lparr>pending_precommit := Some (our_precommit e' h)\<rparr>"
  have emit: "emit_precommit (our_precommit e' h) e' = (BroadcastPrecommit (our_precommit e' h), e2)"
    using s(7) none by (simp add: emit_precommit_def e2_def)
  have voted: "rule_step relax Q ?a (abs_voter e2 PV (insert (round (bft_state e), h) PC))"
  proof (cases h)
    case None
    with lock s have "abs_voter e2 PV (insert (round (bft_state e), h) PC) =
        ?a\<lparr>v_phase := Precommit, v_precommits := insert (v_round ?a, None) (v_precommits ?a)\<rparr>"
      by (simp add: abs_voter_def lock_of_def e2_def)
    with ph show ?thesis using rule_step.nil_precommit [of ?a relax Q] by (simp add: abs_voter_def)
  next
    case (Some b)
    with lock s have "abs_voter e2 PV (insert (round (bft_state e), h) PC) =
        ?a\<lparr>v_phase := Precommit, v_lock := Some (b, v_round ?a),
          v_precommits := insert (v_round ?a, Some b) (v_precommits ?a)\<rparr>"
      by (simp add: abs_voter_def lock_of_def e2_def)
    with ph Q [OF Some] show ?thesis using rule_step.lock_precommit [of ?a Q b relax] by (simp add: abs_voter_def)
  qed
  show ?thesis
  proof (cases cast)
    case True
    with silent ok s none lk show ?thesis
      by (simp add: refines_def r_into_rtranclp) (simp add: pending_ok_def)
  next
    case False
    with voted ok s lk show ?thesis
      by (simp add: emit refines_def r_into_rtranclp) (simp add: pending_ok_def e2_def)
  qed
qed

lemma refines_no_prevote:
  assumes ok: "pending_ok e PV PC" and once: "votes_once (abs_voter e PV PC)"
    and ph: "phase (bft_state e) = Propose"
    and e': "bft_state e' = (bft_state e)\<lparr>proposed_hash := p, phase := Prevote\<rparr>"
      "our_address e' = our_address e" "pending_prevote e' = pending_prevote e"
      "pending_precommit e' = pending_precommit e"
  shows "refines relax Q e PV PC (Wait, e')"
proof -
  have "rule_step relax Q (abs_voter e PV PC) ((abs_voter e PV PC)\<lparr>v_phase := Prevote\<rparr>)"
    using ph by (intro rule_step.no_prevote) (simp add: abs_voter_def)
  moreover have "abs_voter e' PV PC = (abs_voter e PV PC)\<lparr>v_phase := Prevote\<rparr>"
    using e'(1) by (simp add: abs_voter_def lock_of_def)
  ultimately show ?thesis
    using ok e' by (simp add: refines_def r_into_rtranclp) (simp add: pending_ok_def)
qed

lemmas enter_prevote = refines_cast_prevote refines_no_prevote

lemma refines_after_step:
  assumes "rule_step relax Q (abs_voter e PV PC) (abs_voter e1 PV PC)"
    and "refines relax Q e1 PV PC res"
    and "height (bft_state e1) = height (bft_state e)" "our_address e1 = our_address e"
      "total_active_stake (bft_state e1) = total_active_stake (bft_state e)"
  shows "refines relax Q e PV PC res"
  using assms(2-5) converse_rtranclp_into_rtranclp [of "rule_step relax Q", OF assms(1)]
  by (simp add: refines_def)

lemma accept_proposal_kept:
  assumes ok: "pending_ok e PV PC" and once: "votes_once (abs_voter e PV PC)"
    and ph: "phase (bft_state e) = Propose" and st: "\<not> stale_lock h (bft_state e)"
  shows "refines relax Q e PV PC (accept_proposal now h e)"
proof -
  define e' where "e' = e\<lparr>bft_state := (bft_state e)\<lparr>proposed_hash := Some h, phase := Prevote\<rparr>, phase_start := now\<rparr>"
  define vh where "vh = (case locked_hash (bft_state e) of
      Some locked \<Rightarrow> if locked \<noteq> h then None else Some h | None \<Rightarrow> Some h)"
  have acc: "accept_proposal now h e =
      (if our_prevote_cast (bft_state e) then (Wait, e') else emit_prevote (our_prevote e' vh) e')"
    using st by (simp add: accept_proposal_def relax_stale_lock_def e'_def vh_def)
  have al: "lock_allows (lock_of (bft_state e)) vh"
    by (auto simp: lock_allows_def lock_of_def vh_def split: option.splits)
  have e': "bft_state e' = (bft_state e)\<lparr>proposed_hash := Some h, phase := Prevote\<rparr>"
      "our_address e' = our_address e" "pending_prevote e' = pending_prevote e"
      "pending_precommit e' = pending_precommit e"
    by (simp_all add: e'_def)
  show ?thesis
    unfolding acc using refines_cast_prevote [OF ok once ph al e'] refines_no_prevote [OF ok once ph e']
    by simp
qed

lemma accept_proposal_refines:
  assumes ok: "pending_ok e PV PC" and once: "votes_once (abs_voter e PV PC)"
    and ph: "phase (bft_state e) = Propose" and st: "relax \<or> \<not> stale_lock h (bft_state e)"
  shows "refines relax Q e PV PC (accept_proposal now h e)"
proof (cases "stale_lock h (bft_state e)")
  case False
  then show ?thesis using accept_proposal_kept [OF ok once ph] by blast
next
  case True
  with st have relax by simp
  define e1 where "e1 = e\<lparr>bft_state := relax_stale_lock h (bft_state e)\<rparr>"
  have fields: "locked_hash (bft_state e1) = None" "locked_round (bft_state e1) = None"
      "phase (bft_state e1) = Propose" "height (bft_state e1) = height (bft_state e)"
      "round (bft_state e1) = round (bft_state e)" "our_address e1 = our_address e"
      "total_active_stake (bft_state e1) = total_active_stake (bft_state e)"
      "pending_prevote e1 = pending_prevote e" "pending_precommit e1 = pending_precommit e"
    using True ph by (simp_all add: e1_def relax_stale_lock_def)
  have not_stale: "\<not> stale_lock h (bft_state e1)"
    using fields by (simp add: stale_lock_def)
  have same: "accept_proposal now h e1 = accept_proposal now h e"
    using not_stale by (simp add: accept_proposal_def e1_def relax_stale_lock_def our_prevote_def)
  have step: "rule_step relax Q (abs_voter e PV PC) (abs_voter e1 PV PC)"
  proof -
    have "abs_voter e1 PV PC = (abs_voter e PV PC)\<lparr>v_lock := None\<rparr>"
      using fields ph by (simp add: abs_voter_def lock_of_def)
    then show ?thesis using rule_step.drop_lock [of relax Q "abs_voter e PV PC"] \<open>relax\<close> by simp
  qed
  have ok1: "pending_ok e1 PV PC"
    using ok fields by (simp add: pending_ok_def)
  have "refines relax Q e1 PV PC (accept_proposal now h e1)"
    using accept_proposal_kept [OF ok1 votes_once_step [OF step once] fields(3) not_stale] .
  then show ?thesis
    using refines_after_step [OF step _ fields(4,6,7)] same by simp
qed

lemma retry_refines:
  assumes "pending_ok e PV PC" and "retry_pending_prevote_for h e = Some a"
  shows "refines relax Q e PV PC (a, e)"
  using assms(2) refines_prevote_again [OF assms(1)]
  by (auto simp: retry_pending_prevote_for_def split: option.splits if_splits)

lemma on_proposal_refines:
  assumes "pending_ok e PV PC" and "votes_once (abs_voter e PV PC)"
    and "relax \<or> \<not> stale_lock h (bft_state e)"
  shows "refines relax Q e PV PC (on_proposal now h proposer reg e)"
proof (cases "retry_pending_prevote_for h e")
  case (Some a)
  then show ?thesis using retry_refines [OF assms(1) Some] by (simp add: on_proposal_def)
next
  case None
  then show ?thesis
    using accept_proposal_refines [OF assms(1,2) _ assms(3)] refines_Wait [OF assms(1)]
    by (simp add: on_proposal_def)
qed

lemma on_own_proposal_refines:
  assumes "pending_ok e PV PC" and "votes_once (abs_voter e PV PC)"
    and "relax \<or> \<not> stale_lock h (bft_state e)"
  shows "refines relax Q e PV PC (on_own_proposal now h e)"
proof (cases "retry_pending_prevote_for h e")
  case (Some a)
  then show ?thesis using retry_refines [OF assms(1) Some] by (simp add: on_own_proposal_def)
next
  case None
  then show ?thesis
    using accept_proposal_refines [OF assms(1,2) _ assms(3)] refines_Wait [OF assms(1)]
    by (simp add: on_own_proposal_def)
qed

lemma refines_same_view:
  assumes "same_view e e1" and "refines relax Q e1 PV PC res"
  shows "refines relax Q e PV PC res"
  using assms(2) abs_same_view [OF assms(1)] assms(1) by (simp add: refines_def same_view_def)

lemma lock_on_simps [simp]:
  "height (lock_on h s) = height s" "round (lock_on h s) = round s" "phase (lock_on h s) = phase s"
  "total_active_stake (lock_on h s) = total_active_stake s" "prevotes (lock_on h s) = prevotes s"
  "precommits (lock_on h s) = precommits s" "our_precommit_cast (lock_on h s) = our_precommit_cast s"
  "locked_hash (lock_on h s) = Some h" "locked_round (lock_on h s) = Some (round s)"
  by (simp_all add: lock_on_def)

lemma prevote_quorum_refines:
  assumes ok: "pending_ok e PV PC" and once: "votes_once (abs_voter e PV PC)"
    and ph: "phase (bft_state e) = Prevote" and Q: "\<And>b. h = Some b \<Longrightarrow> Q (round (bft_state e)) b"
  shows "refines relax Q e PV PC (prevote_quorum now h e)"
proof -
  define e' where "e' = e\<lparr>bft_state := (case h of Some b \<Rightarrow> lock_on b ((bft_state e)\<lparr>phase := Precommit\<rparr>)
      | None \<Rightarrow> (bft_state e)\<lparr>phase := Precommit\<rparr>), phase_start := now\<rparr>"
  have pq: "prevote_quorum now h e =
      (if our_precommit_cast (bft_state e') then (Wait, e') else emit_precommit (our_precommit e' h) e')"
    by (simp add: prevote_quorum_def e'_def)
  show ?thesis
    unfolding pq
    by (rule refines_enter_precommit [where Q = Q, OF ok once ph]) (use Q in \<open>auto simp: e'_def split: option.splits\<close>)
qed

lemma count_prevote_refines:
  assumes ok: "pending_ok e PV PC" and once: "votes_once (abs_voter e PV PC)"
    and Q: "\<And>b. prevote_supermajority (collector_add_prevote (pv_block_hash v) stake (collector e))
        (total_active_stake (bft_state e)) = Some (Some b) \<Longrightarrow> Q (round (bft_state e)) b"
  shows "refines relax Q e PV PC (count_prevote now v stake e)"
proof -
  define e' where "e' = e\<lparr>bft_state := (bft_state e)\<lparr>prevotes :=
      hput (prevotes (bft_state e)) (pv_validator v) (pv_block_hash v, stake)\<rparr>,
      collector := collector_add_prevote (pv_block_hash v) stake (collector e)\<rparr>"
  have sv: "same_view e e'" by (simp add: same_view_def e'_def)
  note ok' = pending_same_view [OF sv ok] and once' = once [folded abs_same_view [OF sv]]
  have cp: "count_prevote now v stake e =
      (case prevote_supermajority (collector e') (total_active_stake (bft_state e')) of
          None \<Rightarrow> (Wait, e')
        | Some hash \<Rightarrow> if phase (bft_state e') = Prevote then prevote_quorum now hash e' else (Wait, e'))"
    unfolding count_prevote_def e'_def Let_def by (rule refl)
  have fields: "collector e' = collector_add_prevote (pv_block_hash v) stake (collector e)"
      "total_active_stake (bft_state e') = total_active_stake (bft_state e)"
      "round (bft_state e') = round (bft_state e)"
    by (simp_all add: e'_def)
  show ?thesis
  proof (cases "prevote_supermajority (collector e') (total_active_stake (bft_state e'))")
    case None
    then show ?thesis using refines_same_view [OF sv refines_Wait [OF ok']] by (simp add: cp)
  next
    case (Some hash)
    show ?thesis
    proof (cases "phase (bft_state e') = Prevote")
      case True
      have "refines relax Q e' PV PC (prevote_quorum now hash e')"
        by (rule prevote_quorum_refines [OF ok' once' True]) (use Some Q fields in simp)
      with Some True show ?thesis using refines_same_view [OF sv] by (simp add: cp)
    next
      case False
      with Some show ?thesis using refines_same_view [OF sv refines_Wait [OF ok']] by (simp add: cp)
    qed
  qed
qed

lemma on_prevote_refines:
  assumes ok: "pending_ok e PV PC" and once: "votes_once (abs_voter e PV PC)"
    and Q: "quorum_ok Q (EvPrevote now v stake) e"
  shows "refines relax Q e PV PC (on_prevote_weighted now v stake e)"
proof -
  define own where "own \<longleftrightarrow> pv_validator v = our_address e \<and> pending_prevote e \<noteq> None"
  define e1 where "e1 = (if own then e\<lparr>pending_prevote := None\<rparr> else e)"
  have sv: "same_view e e1" by (simp add: same_view_def e1_def)
  have state: "bft_state e1 = bft_state e" "collector e1 = collector e" by (simp_all add: e1_def)
  note ok1 = pending_same_view [OF sv ok] and once1 = once [folded abs_same_view [OF sv]]
  have "refines relax Q e1 PV PC (count_prevote now v stake e1)"
    if "pv_height v = height (bft_state e)" "pv_round v = round (bft_state e)"
      "hget (prevotes (bft_state e)) (pv_validator v) = None"
    by (rule count_prevote_refines [OF ok1 once1]) (use that Q state in simp)
  then have counted: "pv_height v = height (bft_state e) \<Longrightarrow> pv_round v = round (bft_state e) \<Longrightarrow>
      hget (prevotes (bft_state e)) (pv_validator v) = None \<Longrightarrow>
      refines relax Q e PV PC (count_prevote now v stake e1)"
    using refines_same_view [OF sv] by blast
  have waits: "refines relax Q e PV PC (Wait, e)" "refines relax Q e PV PC (Wait, e1)"
    using refines_Wait [OF ok] refines_same_view [OF sv refines_Wait [OF ok1]] by auto
  have op: "on_prevote_weighted now v stake e =
      (if pv_height v \<noteq> height (bft_state e) then (Wait, e)
       else if pv_round v \<noteq> round (bft_state e) then (Wait, e)
       else if own \<and> pending_prevote e \<noteq> Some v then (Wait, e)
       else if hget (prevotes (bft_state e1)) (pv_validator v) \<noteq> None then (Wait, e1)
       else count_prevote now v stake e1)"
    unfolding on_prevote_weighted_def own_def e1_def Let_def by (rule refl)
  show ?thesis unfolding op state using counted waits by (simp del: not_None_eq)
qed

lemma count_precommit_refines:
  assumes ok: "pending_ok e PV PC"
  shows "refines relax Q e PV PC (count_precommit v stake e)"
proof -
  define e' where "e' = e\<lparr>bft_state := (bft_state e)\<lparr>precommits :=
      hput (precommits (bft_state e)) (pc_validator v) (pc_block_hash v, pc_signature v, stake)\<rparr>,
      collector := collector_add_precommit (pc_block_hash v) stake (collector e)\<rparr>"
  have sv: "same_view e e'" by (simp add: same_view_def e'_def)
  note ok' = pending_same_view [OF sv ok]
  define e2 where "e2 = e'\<lparr>bft_state := (bft_state e')\<lparr>phase := Finalize\<rparr>\<rparr>"
  have "abs_voter e2 PV PC = (abs_voter e PV PC)\<lparr>v_phase := Finalize\<rparr>"
    by (simp add: abs_voter_def e2_def e'_def lock_of_def)
  then have fin: "refines relax Q e PV PC (FinalizeBlock h r b j, e2)" for h r b j
    using rule_step.finalize [of relax Q "abs_voter e PV PC"] ok
    by (simp add: refines_def r_into_rtranclp) (simp add: pending_ok_def e2_def e'_def)
  have quiet: "refines relax Q e PV PC (Wait, e')" "refines relax Q e PV PC (SkipRound, e')"
    by (rule refines_silent [OF ok sv]; simp)+
  have cp: "count_precommit v stake e =
      (case precommit_supermajority (collector e') (total_active_stake (bft_state e')) of
          None \<Rightarrow> (Wait, e')
        | Some None \<Rightarrow> (SkipRound, e')
        | Some (Some block_hash) \<Rightarrow>
            (FinalizeBlock (height (bft_state e')) (round (bft_state e')) block_hash
               (justification_for (bft_state e') block_hash), e2))"
    unfolding count_precommit_def e2_def e'_def Let_def by (rule refl)
  show ?thesis unfolding cp using fin quiet by (simp split: option.split)
qed

lemma on_precommit_refines:
  assumes ok: "pending_ok e PV PC"
  shows "refines relax Q e PV PC (on_precommit_weighted v stake e)"
proof -
  define own where "own \<longleftrightarrow> pc_validator v = our_address e \<and> pending_precommit e \<noteq> None"
  define e1 where "e1 = (if own then e\<lparr>pending_precommit := None\<rparr> else e)"
  have sv: "same_view e e1" by (simp add: same_view_def e1_def)
  note ok1 = pending_same_view [OF sv ok]
  have res: "refines relax Q e PV PC (Wait, e)" "refines relax Q e PV PC (Wait, e1)"
      "refines relax Q e PV PC (count_precommit v stake e1)"
    using refines_Wait [OF ok] refines_same_view [OF sv refines_Wait [OF ok1]]
      refines_same_view [OF sv count_precommit_refines [OF ok1]] by auto
  have op: "on_precommit_weighted v stake e =
      (if pc_height v \<noteq> height (bft_state e) then (Wait, e)
       else if pc_round v \<noteq> round (bft_state e) then (Wait, e)
       else if own \<and> pending_precommit e \<noteq> Some v then (Wait, e)
       else if hget (precommits (bft_state e1)) (pc_validator v) \<noteq> None then (Wait, e1)
       else count_precommit v stake e1)"
    unfolding on_precommit_weighted_def own_def e1_def Let_def by (rule refl)
  show ?thesis unfolding op using res by simp
qed

lemma on_timeout_refines:
  assumes ok: "pending_ok e PV PC" and once: "votes_once (abs_voter e PV PC)"
  shows "refines relax Q e PV PC (on_timeout now e)"
proof (cases "pending_prevote e")
  case (Some v)
  then show ?thesis using refines_prevote_again [OF ok Some] by (simp add: on_timeout_def)
next
  case npv: None
  show ?thesis
  proof (cases "pending_precommit e")
    case (Some v)
    with npv show ?thesis using refines_precommit_again [OF ok Some] by (simp add: on_timeout_def)
  next
    case npc: None
    show ?thesis
    proof (cases "phase (bft_state e)")
      case Propose
      define e' where "e' = e\<lparr>bft_state := (bft_state e)\<lparr>phase := Prevote\<rparr>, phase_start := now\<rparr>"
      have e': "bft_state e' = (bft_state e)\<lparr>proposed_hash := proposed_hash (bft_state e), phase := Prevote\<rparr>"
        "our_address e' = our_address e" "pending_prevote e' = pending_prevote e"
        "pending_precommit e' = pending_precommit e"
        by (simp_all add: e'_def)
      have "lock_allows (lock_of (bft_state e)) None"
        by (simp add: lock_allows_def split: option.split)
      note res = refines_cast_prevote [OF ok once Propose this e'] refines_no_prevote [OF ok once Propose e']
      have "on_timeout now e = (if our_prevote_cast (bft_state e') then (Wait, e')
          else emit_prevote (our_prevote e' None) e')"
        using npv npc Propose by (simp add: on_timeout_def e'_def)
      with res show ?thesis by simp
    next
      case Prevote
      define e' where "e' = e\<lparr>bft_state := (bft_state e)\<lparr>phase := Precommit\<rparr>, phase_start := now\<rparr>"
      have "on_timeout now e = (if our_precommit_cast (bft_state e') then (Wait, e')
          else emit_precommit (our_precommit e' None) e')"
        using npv npc Prevote by (simp add: on_timeout_def e'_def)
      moreover have "refines relax Q e PV PC (if our_precommit_cast (bft_state e') then (Wait, e')
          else emit_precommit (our_precommit e' None) e')"
        by (rule refines_enter_precommit [OF ok once Prevote]) (simp_all add: e'_def)
      ultimately show ?thesis by simp
    next
      case Precommit
      have "refines relax Q e PV PC (a, e)" if "silent a" for a
        using refines_silent [OF ok _ that] by (simp add: same_view_def)
      with npv npc Precommit show ?thesis by (simp add: on_timeout_def)
    next
      case Finalize
      with npv npc refines_Wait [OF ok] show ?thesis by (simp add: on_timeout_def)
    qed
  qed
qed

section \<open>Rounds\<close>

definition later_round :: "bft_engine \<Rightarrow> bft_engine \<Rightarrow> bool" where
  "later_round e e' \<longleftrightarrow>
    round (bft_state e) < round (bft_state e') \<and> phase (bft_state e') = Propose \<and>
    height (bft_state e') = height (bft_state e) \<and> our_address e' = our_address e \<and>
    total_active_stake (bft_state e') = total_active_stake (bft_state e) \<and>
    locked_hash (bft_state e') = locked_hash (bft_state e) \<and>
    locked_round (bft_state e') = locked_round (bft_state e) \<and>
    pending_prevote e' = None \<and> pending_precommit e' = None"

lemma refines_later_round:
  assumes "pending_ok e PV PC" and "later_round e e'"
  shows "refines relax Q e PV PC (Wait, e')"
proof -
  have "abs_voter e' PV PC = (abs_voter e PV PC)\<lparr>v_round := round (bft_state e'), v_phase := Propose\<rparr>"
    using assms(2) by (simp add: abs_voter_def later_round_def lock_of_def)
  moreover have "v_round (abs_voter e PV PC) < round (bft_state e')"
    using assms(2) by (simp add: abs_voter_def later_round_def)
  ultimately have "rule_step relax Q (abs_voter e PV PC) (abs_voter e' PV PC)"
    using rule_step.next_round [of "abs_voter e PV PC" "round (bft_state e')" relax Q] by simp
  with assms show ?thesis
    by (simp add: refines_def r_into_rtranclp) (simp add: later_round_def pending_ok_def)
qed

lemma advance_later_round: "round (bft_state e) < U32_MAX \<Longrightarrow> later_round e (advance_round now e)"
  by (simp add: later_round_def advance_round_def state_advance_round_def saturating_add_u32_def)

lemma catch_up_loop_later:
  "catch_up_loop target e = e \<or> later_round e (catch_up_loop target e)"
proof (induction target e rule: catch_up_loop.induct)
  case (1 target e)
  show ?case
  proof (cases "round (bft_state e) < target \<and> round (bft_state e) < U32_MAX")
    case False
    then show ?thesis by (subst catch_up_loop.simps) (simp only: if_False simp_thms)
  next
    case True
    define e1 where "e1 = e\<lparr>bft_state := state_advance_round (bft_state e),
      collector := collector_reset (collector e), pending_prevote := None, pending_precommit := None\<rparr>"
    have "later_round e e1"
      using True by (simp add: later_round_def e1_def state_advance_round_def saturating_add_u32_def)
    moreover have "catch_up_loop target e1 = e1 \<or> later_round e1 (catch_up_loop target e1)"
      using 1 [OF True] by (simp add: e1_def)
    moreover have "catch_up_loop target e = catch_up_loop target e1"
      using True by (subst catch_up_loop.simps) (simp add: e1_def)
    ultimately show ?thesis by (auto simp: later_round_def)
  qed
qed

lemma catch_up_loop_round:
  "round (bft_state e) < target \<Longrightarrow> target \<le> U32_MAX \<Longrightarrow> round (bft_state (catch_up_loop target e)) = target"
proof (induction target e rule: catch_up_loop.induct)
  case (1 target e)
  define e1 where "e1 = e\<lparr>bft_state := state_advance_round (bft_state e),
    collector := collector_reset (collector e), pending_prevote := None, pending_precommit := None\<rparr>"
  from 1(2,3) have cond: "round (bft_state e) < target \<and> round (bft_state e) < U32_MAX" by simp
  have eq: "catch_up_loop target e = catch_up_loop target e1"
    using cond by (subst catch_up_loop.simps) (simp add: e1_def)
  have r1: "round (bft_state e1) = Suc (round (bft_state e))"
    using cond by (simp add: e1_def state_advance_round_def saturating_add_u32_def)
  show ?case
  proof (cases "round (bft_state e1) < target")
    case True
    then show ?thesis using 1(1) [OF cond] 1(3) by (simp add: eq e1_def)
  next
    case False
    with r1 1(2) have "round (bft_state e1) = target" by simp
    moreover from this have "catch_up_loop target e1 = e1"
      by (subst catch_up_loop.simps) simp
    ultimately show ?thesis by (simp add: eq)
  qed
qed

lemma catch_up_refines:
  assumes "pending_ok e PV PC"
  shows "refines relax Q e PV PC (Wait, snd (catch_up_round now target reg e))"
proof -
  let ?l = "catch_up_loop target e"
  have "same_view e (e\<lparr>phase_start := now\<rparr>)" by (simp add: same_view_def)
  moreover have "later_round e (?l\<lparr>phase_start := now\<rparr>)" if "later_round e ?l"
    using that by (simp add: later_round_def)
  ultimately have "refines relax Q e PV PC (Wait, ?l\<lparr>phase_start := now\<rparr>)"
    using catch_up_loop_later [of target e] refines_later_round [OF assms] refines_silent [OF assms]
    by (metis silent.simps(7))
  then show ?thesis
    using refines_Wait [OF assms] by (simp add: catch_up_round_def)
qed

lemma on_round_status_refines:
  assumes ok: "pending_ok e PV PC"
  shows "refines relax Q e PV PC (on_round_status now st reg e)"
  using refines_Wait [OF ok] catch_up_refines [OF ok, of relax Q now "rs_round st - 1" reg]
    refines_silent [OF ok, of e "SyncNeeded (rs_height st)"]
  by (simp add: on_round_status_def catch_up_round_def same_view_def split: if_splits)

lemma on_round_status_weighted_refines:
  assumes ok: "pending_ok e PV PC"
  shows "refines relax Q e PV PC (on_round_status_weighted now st stake reg e)"
proof -
  define e1 where "e1 = record_peer_round st stake e"
  have sv: "same_view e e1" by (simp add: same_view_def e1_def record_peer_round_def)
  note ok1 = pending_same_view [OF sv ok]
  have res: "refines relax Q e PV PC (SyncNeeded (rs_height st), e)" "refines relax Q e PV PC (Wait, e)"
      "refines relax Q e PV PC (Wait, e1)"
      "refines relax Q e PV PC (Wait, snd (catch_up_round now target reg e1))" for target
    using refines_silent [OF ok, of e "SyncNeeded (rs_height st)"] refines_Wait [OF ok]
      refines_same_view [OF sv refines_Wait [OF ok1]]
      refines_same_view [OF sv catch_up_refines [OF ok1]]
    by (auto simp: same_view_def)
  have none: "catch_up_round now target reg e1 = (None, snd (catch_up_round now target reg e1))" for target
    by (simp add: catch_up_round_def)
  show ?thesis
    unfolding on_round_status_weighted_def Let_def e1_def [symmetric]
    by (subst none) (simp add: res split: option.split)
qed

text \<open>
  Every event of the engine refines the rules.
\<close>

lemma engine_step_refines_lemma:
  assumes ok: "pending_ok e PV PC" and once: "votes_once (abs_voter e PV PC)"
    and ev: "event_ok ev e" and lock: "relax \<or> keeps_lock ev e" and Q: "quorum_ok Q ev e"
  shows "refines relax Q e PV PC (engine_step ev e)"
proof (cases ev)
  case (EvProposal now h proposer reg)
  with lock show ?thesis using on_proposal_refines [OF ok once] by simp
next
  case (EvOwnProposal now h)
  with lock show ?thesis using on_own_proposal_refines [OF ok once] by simp
next
  case (EvPrevote now v stake)
  with Q show ?thesis using on_prevote_refines [OF ok once] by simp
next
  case (EvAdvanceRound now)
  with ev show ?thesis using refines_later_round [OF ok advance_later_round] by simp
next
  case (EvStash h bytes)
  then show ?thesis
    using refines_silent [OF ok, of "stash_proposal_bytes h bytes e" Wait]
    by (simp add: same_view_def stash_proposal_bytes_def)
next
  case EvPrevoteSent
  then show ?thesis
    using refines_silent [OF ok, of "mark_prevote_cast e" Wait] by (simp add: same_view_def mark_prevote_cast_def)
next
  case EvPrecommitSent
  then show ?thesis
    using refines_silent [OF ok, of "mark_precommit_cast e" Wait] by (simp add: same_view_def mark_precommit_cast_def)
qed (use on_precommit_refines [OF ok] on_timeout_refines [OF ok once] on_round_status_weighted_refines [OF ok]
  on_round_status_refines [OF ok] catch_up_refines [OF ok] in simp_all)

section \<open>Runs\<close>

fun engine_run :: "engine_event list \<Rightarrow> bft_engine \<Rightarrow> bft_action list \<times> bft_engine" where
  "engine_run [] e = ([], e)"
| "engine_run (ev # evs) e =
    (let (a, e') = engine_step ev e; (as, e'') = engine_run evs e' in (a # as, e''))"

fun run_follows :: "bool \<Rightarrow> (u32 \<Rightarrow> string \<Rightarrow> bool) \<Rightarrow> engine_event list \<Rightarrow> bft_engine \<Rightarrow> bool" where
  "run_follows relax Q [] e \<longleftrightarrow> True"
| "run_follows relax Q (ev # evs) e \<longleftrightarrow>
    event_ok ev e \<and> (relax \<or> keeps_lock ev e) \<and> quorum_ok Q ev e \<and>
    run_follows relax Q evs (snd (engine_step ev e))"

definition prevotes_out :: "bft_action list \<Rightarrow> (u32 \<times> string option) set" where
  "prevotes_out as = (\<Union>a \<in> set as. prevote_out a)"

definition precommits_out :: "bft_action list \<Rightarrow> (u32 \<times> string option) set" where
  "precommits_out as = (\<Union>a \<in> set as. precommit_out a)"

lemma engine_run_refines:
  assumes "pending_ok e PV PC" and "votes_once (abs_voter e PV PC)" and "run_follows relax Q evs e"
  shows "(rule_step relax Q)\<^sup>*\<^sup>* (abs_voter e PV PC)
      (abs_voter (snd (engine_run evs e)) (PV \<union> prevotes_out (fst (engine_run evs e)))
        (PC \<union> precommits_out (fst (engine_run evs e))))"
  using assms
proof (induction evs arbitrary: e PV PC)
  case Nil
  then show ?case by (simp add: prevotes_out_def precommits_out_def)
next
  case (Cons ev evs)
  obtain a e' where st: "engine_step ev e = (a, e')" by force
  define PV' PC' where "PV' = PV \<union> prevote_out a" and "PC' = PC \<union> precommit_out a"
  have step: "(rule_step relax Q)\<^sup>*\<^sup>* (abs_voter e PV PC) (abs_voter e' PV' PC')" "pending_ok e' PV' PC'"
    using engine_step_refines_lemma [OF Cons.prems(1,2), of ev relax Q] Cons.prems(3) st
    by (simp_all add: refines_def PV'_def PC'_def)
  have "(rule_step relax Q)\<^sup>*\<^sup>* (abs_voter e' PV' PC')
      (abs_voter (snd (engine_run evs e')) (PV' \<union> prevotes_out (fst (engine_run evs e')))
        (PC' \<union> precommits_out (fst (engine_run evs e'))))"
    using Cons.IH [OF step(2) votes_once_steps [OF step(1) Cons.prems(2)]] Cons.prems(3) st by simp
  with step(1) show ?case
    by (simp add: st case_prod_beta prevotes_out_def precommits_out_def PV'_def PC'_def Un_assoc)
qed

lemma new_engine_start [simp]:
  "abs_voter (BftEngine_new now h addr tot) {} {} = voter_start 0"
  "pending_ok (BftEngine_new now h addr tot) {} {}"
  by (simp_all add: abs_voter_def voter_start_def BftEngine_new_def BftRoundState_new_def lock_of_def pending_ok_def)

text \<open>
  The engine implements the voting rules (C2): every run of a new engine at a height, over any
  proposals, votes, timeouts, round statuses and round changes, is a run of the abstract rules, with
  the votes it broadcast as the rules' votes. Locks are never dropped when no event meets a stale
  lock, and every lock is on a block whose prevote supermajority the engine counted.
\<close>

theorem engine_refines_rules:
  assumes "run_follows relax Q evs (BftEngine_new now h addr tot)"
  shows "(rule_step relax Q)\<^sup>*\<^sup>* (voter_start 0)
    (abs_voter (snd (engine_run evs (BftEngine_new now h addr tot)))
      (prevotes_out (fst (engine_run evs (BftEngine_new now h addr tot))))
      (precommits_out (fst (engine_run evs (BftEngine_new now h addr tot)))))"
  using engine_run_refines [of "BftEngine_new now h addr tot" "{}" "{}" relax Q evs] assms by simp

text \<open>
  The engine never votes twice (C3): in every run of a new engine at a height, all prevotes broadcast
  for a round agree on the block, and so do all precommits, even when votes are broadcast again,
  come back late or a stale lock is dropped, provided that the round counter is not advanced at its
  largest value.
\<close>

theorem engine_never_equivocates:
  assumes "run_follows True (\<lambda>_ _. True) evs (BftEngine_new now h addr tot)"
  shows "single_valued (prevotes_out (fst (engine_run evs (BftEngine_new now h addr tot)))) \<and>
    single_valued (precommits_out (fst (engine_run evs (BftEngine_new now h addr tot))))"
proof -
  let ?e = "BftEngine_new now h addr tot"
  have "(rule_step True (\<lambda>_ _. True))\<^sup>*\<^sup>* (voter_start 0)
    (abs_voter (snd (engine_run evs ?e)) (prevotes_out (fst (engine_run evs ?e)))
      (precommits_out (fst (engine_run evs ?e))))"
    using engine_run_refines [of ?e "{}" "{}" True "\<lambda>_ _. True" evs] assms by simp
  from votes_once_steps [OF this votes_once_start] show ?thesis
    by (simp add: votes_once_def abs_voter_def)
qed

text \<open>A validator with all the stake proposes a block, votes for it and finalizes it.\<close>

definition solo_events :: "engine_event list" where
  "solo_events = [EvOwnProposal 1 ''x'',
     EvPrevote 2 \<lparr>pv_height = 7, pv_round = 0, pv_block_hash = Some ''x'', pv_validator = ''a'', pv_signature = []\<rparr> 10,
     EvPrecommit \<lparr>pc_height = 7, pc_round = 0, pc_block_hash = Some ''x'', pc_validator = ''a'', pc_signature = []\<rparr> 10]"

lemmas bft_eval =
  BftEngine_new_def BftRoundState_new_def VoteCollector_new_def on_own_proposal_def retry_pending_prevote_for_def
  accept_proposal_def relax_stale_lock_def stale_lock_def emit_prevote_def our_prevote_def
  on_prevote_weighted_def count_prevote_def collector_add_prevote_def tally_of_def prevote_supermajority_def
  first_above_def supermajority_threshold_def as_u64_def prevote_quorum_def lock_on_def emit_precommit_def
  our_precommit_def on_precommit_weighted_def count_precommit_def collector_add_precommit_def
  precommit_supermajority_def justification_for_def BlockJustification_new_def add_precommit_def
  wrapping_add_u64_def

lemma solo_follows: "run_follows relax (\<lambda>r b. r = 0 \<and> b = ''x'') solo_events (BftEngine_new 0 7 ''a'' 10)"
  by (simp add: solo_events_def bft_eval)

lemma solo_follows_any: "run_follows True (\<lambda>_ _. True) solo_events (BftEngine_new 0 7 ''a'' 10)"
  by (simp add: solo_events_def bft_eval)

lemma solo_votes:
  "prevotes_out (fst (engine_run solo_events (BftEngine_new 0 7 ''a'' 10))) = {(0, Some ''x'')}"
  "precommits_out (fst (engine_run solo_events (BftEngine_new 0 7 ''a'' 10))) = {(0, Some ''x'')}"
  by (simp_all add: solo_events_def bft_eval prevotes_out_def precommits_out_def)

lemma solo_final:
  "abs_voter (snd (engine_run solo_events (BftEngine_new 0 7 ''a'' 10))) PV PC =
    \<lparr>v_round = 0, v_phase = Finalize, v_lock = Some (''x'', 0), v_prevotes = PV, v_precommits = PC\<rparr>"
  by (simp add: solo_events_def bft_eval abs_voter_def lock_of_def)

theorem engine_refines_rules_witness:
  "(rule_step False (\<lambda>r b. r = 0 \<and> b = ''x''))\<^sup>*\<^sup>* (voter_start 0)
    \<lparr>v_round = 0, v_phase = Finalize, v_lock = Some (''x'', 0),
      v_prevotes = {(0, Some ''x'')}, v_precommits = {(0, Some ''x'')}\<rparr>"
  using engine_refines_rules [OF solo_follows [of False]] by (simp add: solo_votes solo_final)

theorem engine_never_equivocates_witness:
  "single_valued (prevotes_out (fst (engine_run solo_events (BftEngine_new 0 7 ''a'' 10)))) \<and>
   prevotes_out (fst (engine_run solo_events (BftEngine_new 0 7 ''a'' 10))) = {(0, Some ''x'')}"
  using engine_never_equivocates [OF solo_follows_any] by (simp add: solo_votes)

end
