(* ===== verification/Bft_Tally.thy ===== *)
theory Bft_Tally
  imports Bft_Refine
begin

text \<open>
  Vote counting: the collector's tallies are the stakes of the recorded votes, so a finalized block
  carries a justification with a supermajority; and two supermajorities share more than a third of
  the stake.
\<close>

section \<open>Quorums\<close>

text \<open>
  What is asked of a supermajority threshold: more than two thirds of the stake. The stake is a
  weight per validator.
\<close>

locale quorum =
  fixes threshold :: "nat \<Rightarrow> nat"
  assumes two_thirds: "t \<le> U64_MAX \<Longrightarrow> 2 * t < 3 * threshold t"
begin

definition reached :: "('v \<Rightarrow> nat) \<Rightarrow> 'v set \<Rightarrow> 'v set \<Rightarrow> bool" where
  "reached w V A \<longleftrightarrow> threshold (sum w V) \<le> sum w (A \<inter> V)"

lemma reached_mono:
  assumes "finite V" and "A \<subseteq> B" and "reached w V A"
  shows "reached w V B"
proof -
  have "sum w (A \<inter> V) \<le> sum w (B \<inter> V)"
    using assms by (intro sum_mono2) auto
  with assms(3) show ?thesis by (simp add: reached_def)
qed

lemma overlap:
  assumes fin: "finite V" and t: "sum w V \<le> U64_MAX" and A: "reached w V A" and B: "reached w V B"
  shows "sum w V < 3 * sum w (A \<inter> B \<inter> V)"
proof -
  have "sum w (A \<inter> V) + sum w (B \<inter> V) = sum w ((A \<union> B) \<inter> V) + sum w (A \<inter> B \<inter> V)"
  proof -
    have "(A \<union> B) \<inter> V = A \<inter> V \<union> B \<inter> V" "A \<inter> B \<inter> V = A \<inter> V \<inter> (B \<inter> V)" by blast+
    then show ?thesis using sum.union_inter [of "A \<inter> V" "B \<inter> V" w] fin by simp
  qed
  moreover have "sum w ((A \<union> B) \<inter> V) \<le> sum w V"
    using fin by (intro sum_mono2) auto
  ultimately show ?thesis
    using A B two_thirds [OF t] by (simp add: reached_def)
qed

text \<open>When less than a third of the stake is faulty, two quorums share a correct validator.\<close>

lemma correct_overlap:
  assumes fin: "finite V" and t: "sum w V \<le> U64_MAX" and A: "reached w V A" and B: "reached w V B"
    and bad: "3 * sum w (V - G) \<le> sum w V"
  obtains v where "v \<in> A" "v \<in> B" "v \<in> V" "v \<in> G"
proof -
  have "\<not> A \<inter> B \<inter> V \<subseteq> V - G"
  proof
    assume "A \<inter> B \<inter> V \<subseteq> V - G"
    then have "sum w (A \<inter> B \<inter> V) \<le> sum w (V - G)"
      using fin by (intro sum_mono2) auto
    with overlap [OF fin t A B] bad show False by simp
  qed
  with that show thesis by blast
qed

end

lemma supermajority_threshold_eq: "t \<le> U64_MAX \<Longrightarrow> supermajority_threshold t = t * 2 div 3 + 1"
  unfolding supermajority_threshold_def by (rule as_u64_id) (simp add: U64_MAX_def)

interpretation bft: quorum supermajority_threshold
proof
  show "2 * t < 3 * supermajority_threshold t" if "t \<le> U64_MAX" for t
    using that by (simp add: supermajority_threshold_eq)
qed

section \<open>Tallies\<close>

definition vote_weight :: "string option \<Rightarrow> (string, string option \<times> u64) hmap \<Rightarrow> nat" where
  "vote_weight h votes = map_sum (\<lambda>(x, w). if x = h then w else 0) votes"

definition commit_weight :: "string option \<Rightarrow> (string, string option \<times> u8 list \<times> u64) hmap \<Rightarrow> nat" where
  "commit_weight h votes = map_sum (\<lambda>(x, sig, w). if x = h then w else 0) votes"

definition tally_ok :: "(string option, u64) hmap \<Rightarrow> (string option \<Rightarrow> nat) \<Rightarrow> bool" where
  "tally_ok t f \<longleftrightarrow> wf_map t \<and> (\<forall>h. tally_of t h = f h mod 18446744073709551616)"

definition ballots_ok ::
  "(string, string option \<times> u64) hmap \<Rightarrow> (string, string option \<times> u8 list \<times> u64) hmap \<Rightarrow> vote_collector \<Rightarrow> bool" where
  "ballots_ok pvs pcs c \<longleftrightarrow> wf_map pvs \<and> wf_map pcs \<and>
    tally_ok (prevote_tally c) (\<lambda>h. vote_weight h pvs) \<and> tally_ok (precommit_tally c) (\<lambda>h. commit_weight h pcs)"

abbreviation engine_ok :: "bft_engine \<Rightarrow> bool" where
  "engine_ok e \<equiv> ballots_ok (prevotes (bft_state e)) (precommits (bft_state e)) (collector e)"

lemma ballots_ok_empty [simp]: "ballots_ok [] [] (collector_reset c)" "ballots_ok [] [] VoteCollector_new"
  by (simp_all add: ballots_ok_def tally_ok_def tally_of_def vote_weight_def commit_weight_def
      collector_reset_def VoteCollector_new_def)

lemma tally_of_hput: "tally_of (hput t k v) h = (if h = k then v else tally_of t h)"
  by (simp add: tally_of_def hget_hput)

lemma tally_ok_add:
  assumes "tally_ok t f"
  shows "tally_ok (hput t k (wrapping_add_u64 (tally_of t k) w)) (\<lambda>h. f h + (if k = h then w else 0))"
  using assms by (auto simp: tally_ok_def tally_of_hput wrapping_add_u64_def mod_add_left_eq)

lemma ballots_ok_prevote:
  assumes "ballots_ok pvs pcs c" and "hget pvs v = None"
  shows "ballots_ok (hput pvs v (h, w)) pcs (collector_add_prevote h w c)"
proof -
  have "vote_weight x (hput pvs v (h, w)) = vote_weight x pvs + (if h = x then w else 0)" for x
    using assms(2) by (simp add: vote_weight_def map_sum_hput_new)
  with assms tally_ok_add [of "prevote_tally c" "\<lambda>h. vote_weight h pvs" h w] show ?thesis
    by (simp add: ballots_ok_def collector_add_prevote_def)
qed

lemma ballots_ok_precommit:
  assumes "ballots_ok pvs pcs c" and "hget pcs v = None"
  shows "ballots_ok pvs (hput pcs v (h, sig, w)) (collector_add_precommit h w c)"
proof -
  have "commit_weight x (hput pcs v (h, sig, w)) = commit_weight x pcs + (if h = x then w else 0)" for x
    using assms(2) by (simp add: commit_weight_def map_sum_hput_new)
  with assms tally_ok_add [of "precommit_tally c" "\<lambda>h. commit_weight h pcs" h w] show ?thesis
    by (simp add: ballots_ok_def collector_add_precommit_def)
qed

lemma first_above_Some:
  assumes "wf_map t" and "first_above k t = Some h"
  shows "k \<le> tally_of t h"
proof -
  from assms(2) obtain w where "(h, w) \<in> set t" "k \<le> w"
    by (auto simp: first_above_def find_Some_iff) (metis nth_mem)
  with assms(1) show ?thesis by (simp add: tally_of_def set_wf_map)
qed

lemma prevote_supermajority_Some:
  assumes "ballots_ok pvs pcs c" and "prevote_supermajority c tot = Some h"
  shows "supermajority_threshold tot \<le> vote_weight h pvs mod 18446744073709551616"
  using assms first_above_Some [of "prevote_tally c"]
  by (fastforce simp: ballots_ok_def tally_ok_def prevote_supermajority_def)

lemma precommit_supermajority_Some:
  assumes "ballots_ok pvs pcs c" and "precommit_supermajority c tot = Some h"
  shows "supermajority_threshold tot \<le> commit_weight h pcs mod 18446744073709551616"
  using assms first_above_Some [of "precommit_tally c"]
  by (fastforce simp: ballots_ok_def tally_ok_def precommit_supermajority_def)

section \<open>Every operation keeps the tallies\<close>

definition same_ballots :: "bft_engine \<Rightarrow> bft_engine \<Rightarrow> bool" where
  "same_ballots e e' \<longleftrightarrow> prevotes (bft_state e') = prevotes (bft_state e) \<and>
    precommits (bft_state e') = precommits (bft_state e) \<and> collector e' = collector e \<and>
    round (bft_state e') = round (bft_state e)"

lemma same_ballots_ok: "same_ballots e e' \<Longrightarrow> engine_ok e \<Longrightarrow> engine_ok e'"
  by (simp add: same_ballots_def)

lemma same_ballots_trans: "same_ballots a b \<Longrightarrow> same_ballots b c \<Longrightarrow> same_ballots a c"
  by (simp add: same_ballots_def)

lemma same_ballots_emit:
  "same_ballots e (snd (emit_prevote v e))" "same_ballots e (snd (emit_precommit u e))"
  by (simp_all add: same_ballots_def emit_prevote_def emit_precommit_def split: option.split)

lemma same_ballots_accept: "same_ballots e (snd (accept_proposal now h e))"
proof -
  define e' where "e' = e\<lparr>bft_state := (relax_stale_lock h (bft_state e))\<lparr>proposed_hash := Some h, phase := Prevote\<rparr>,
    phase_start := now\<rparr>"
  have "same_ballots e e'" by (simp add: same_ballots_def e'_def relax_stale_lock_def)
  then show ?thesis
    using same_ballots_trans [OF _ same_ballots_emit(1)]
    by (simp add: accept_proposal_def e'_def [symmetric])
qed

lemma same_ballots_proposal:
  "same_ballots e (snd (on_proposal now h proposer reg e))" "same_ballots e (snd (on_own_proposal now h e))"
  using same_ballots_accept [of e now h]
  by (simp_all add: on_proposal_def on_own_proposal_def split: option.split) (simp_all add: same_ballots_def)

lemma same_ballots_timeout: "same_ballots e (snd (on_timeout now e))"
proof -
  have p: "same_ballots e (snd (emit_prevote u (e\<lparr>bft_state := (bft_state e)\<lparr>phase := p\<rparr>, phase_start := now\<rparr>)))"
       "same_ballots e (snd (emit_precommit v (e\<lparr>bft_state := (bft_state e)\<lparr>phase := p\<rparr>, phase_start := now\<rparr>)))"
       "same_ballots e (e\<lparr>bft_state := (bft_state e)\<lparr>phase := p\<rparr>, phase_start := now\<rparr>)" for u v p
    by (rule same_ballots_trans [OF _ same_ballots_emit(1)] same_ballots_trans [OF _ same_ballots_emit(2)];
        simp add: same_ballots_def)+ (simp add: same_ballots_def)
  have refl: "same_ballots e e" by (simp add: same_ballots_def)
  show ?thesis
    by (simp add: on_timeout_def refl p split: option.split bft_phase.split)
qed

lemma same_ballots_quorum: "same_ballots e (snd (prevote_quorum now h e))"
proof -
  define e' where "e' = e\<lparr>bft_state := (case h of Some b \<Rightarrow> lock_on b ((bft_state e)\<lparr>phase := Precommit\<rparr>)
      | None \<Rightarrow> (bft_state e)\<lparr>phase := Precommit\<rparr>), phase_start := now\<rparr>"
  have "same_ballots e e'" by (simp add: same_ballots_def e'_def split: option.split)
  then show ?thesis
    using same_ballots_trans [OF _ same_ballots_emit(2)]
    by (simp add: prevote_quorum_def e'_def [symmetric])
qed

lemma count_prevote_ok:
  assumes "engine_ok e" and "hget (prevotes (bft_state e)) (pv_validator v) = None"
  shows "engine_ok (snd (count_prevote now v stake e))"
proof -
  define e' where "e' = e\<lparr>bft_state := (bft_state e)\<lparr>prevotes :=
      hput (prevotes (bft_state e)) (pv_validator v) (pv_block_hash v, stake)\<rparr>,
      collector := collector_add_prevote (pv_block_hash v) stake (collector e)\<rparr>"
  have ok: "engine_ok e'" using ballots_ok_prevote [OF assms] by (simp add: e'_def)
  have "same_ballots e' (snd (count_prevote now v stake e))"
    unfolding count_prevote_def Let_def e'_def [symmetric]
    using same_ballots_quorum by (simp add: same_ballots_def split: option.split)
  then show ?thesis using ok by (rule same_ballots_ok)
qed

lemma count_precommit_ok:
  assumes "engine_ok e" and "hget (precommits (bft_state e)) (pc_validator v) = None"
  shows "engine_ok (snd (count_precommit v stake e))"
proof -
  define e' where "e' = e\<lparr>bft_state := (bft_state e)\<lparr>precommits :=
      hput (precommits (bft_state e)) (pc_validator v) (pc_block_hash v, pc_signature v, stake)\<rparr>,
      collector := collector_add_precommit (pc_block_hash v) stake (collector e)\<rparr>"
  have ok: "engine_ok e'" using ballots_ok_precommit [OF assms] by (simp add: e'_def)
  have "same_ballots e' (snd (count_precommit v stake e))"
    unfolding count_precommit_def Let_def e'_def [symmetric]
    by (simp add: same_ballots_def split: option.split)
  then show ?thesis using ok by (rule same_ballots_ok)
qed

lemma on_prevote_ok:
  assumes "engine_ok e"
  shows "engine_ok (snd (on_prevote_weighted now v stake e))"
proof -
  let ?e1 = "if pv_validator v = our_address e \<and> pending_prevote e \<noteq> None then e\<lparr>pending_prevote := None\<rparr> else e"
  have "engine_ok ?e1" using assms by simp
  then show ?thesis
    using assms count_prevote_ok [of ?e1 v now stake] unfolding on_prevote_weighted_def Let_def
    by (simp del: not_None_eq)
qed

lemma on_precommit_ok:
  assumes "engine_ok e"
  shows "engine_ok (snd (on_precommit_weighted v stake e))"
proof -
  let ?e1 = "if pc_validator v = our_address e \<and> pending_precommit e \<noteq> None then e\<lparr>pending_precommit := None\<rparr> else e"
  have "engine_ok ?e1" using assms by simp
  then show ?thesis
    using assms count_precommit_ok [of ?e1 v stake] unfolding on_precommit_weighted_def Let_def
    by (simp del: not_None_eq)
qed

lemma catch_up_loop_ok: "engine_ok e \<Longrightarrow> engine_ok (catch_up_loop target e)"
proof (induction target e rule: catch_up_loop.induct)
  case (1 target e)
  show ?case
  proof (cases "round (bft_state e) < target \<and> round (bft_state e) < U32_MAX")
    case False
    then show ?thesis using 1(2) by (subst (1 2 3) catch_up_loop.simps) (simp only: if_False)
  next
    case True
    then show ?thesis using 1(1) [OF True] by (subst (1 2 3) catch_up_loop.simps) (simp add: state_advance_round_def)
  qed
qed

lemma catch_up_ok: "engine_ok e \<Longrightarrow> engine_ok (snd (catch_up_round now target reg e))"
  using catch_up_loop_ok [of e target] by (simp add: catch_up_round_def)

lemma on_round_status_ok:
  assumes "engine_ok e"
  shows "engine_ok (snd (on_round_status_weighted now st stake reg e))" "engine_ok (snd (on_round_status now st reg e))"
proof -
  define e1 where "e1 = record_peer_round st stake e"
  have ok1: "engine_ok e1" using assms by (simp add: e1_def record_peer_round_def)
  show "engine_ok (snd (on_round_status_weighted now st stake reg e))"
    unfolding on_round_status_weighted_def Let_def e1_def [symmetric]
    using assms ok1 catch_up_ok [OF ok1] by (simp add: case_prod_beta split: option.split)
  show "engine_ok (snd (on_round_status now st reg e))"
    using assms catch_up_ok [OF assms] by (simp add: on_round_status_def case_prod_beta split: option.split)
qed

lemma engine_step_ok:
  assumes "engine_ok e"
  shows "engine_ok (snd (engine_step ev e))"
proof (cases ev)
  case (EvProposal now h proposer reg)
  then show ?thesis using same_ballots_ok [OF same_ballots_proposal(1) assms] by simp
next
  case (EvOwnProposal now h)
  then show ?thesis using same_ballots_ok [OF same_ballots_proposal(2) assms] by simp
next
  case (EvTimeout now)
  then show ?thesis using same_ballots_ok [OF same_ballots_timeout assms] by simp
next
  case (EvAdvanceRound now)
  then show ?thesis by (simp add: advance_round_def state_advance_round_def)
qed (use assms on_prevote_ok on_precommit_ok on_round_status_ok catch_up_ok in
  \<open>simp_all add: stash_proposal_bytes_def mark_prevote_cast_def mark_precommit_cast_def\<close>)

section \<open>Reachable engines\<close>

definition engine_moves :: "bft_engine \<Rightarrow> engine_event option \<Rightarrow> bft_engine \<Rightarrow> bool" where
  "engine_moves e ev e' \<longleftrightarrow>
    (case ev of Some ev' \<Rightarrow> e' = snd (engine_step ev' e)
     | None \<Rightarrow> (\<exists>now h tot. e' = new_height now h tot e))"

definition new_engine :: "bft_engine \<Rightarrow> bool" where
  "new_engine e \<longleftrightarrow> (\<exists>now h addr tot. e = BftEngine_new now h addr tot)"

interpretation engine: transition_system new_engine engine_moves "\<lambda>e. engine_ok e"
proof
  show "engine_ok e" if "new_engine e" for e
    using that by (auto simp: new_engine_def BftEngine_new_def BftRoundState_new_def)
  show "engine_ok e'" if "engine_ok e" "engine_moves e ev e'" for e ev e'
    using that engine_step_ok
    by (auto simp: engine_moves_def new_height_def advance_height_def BftRoundState_new_def split: option.splits)
qed

section \<open>Justifications\<close>

definition committed :: "string \<Rightarrow> (string, string option \<times> u8 list \<times> u64) hmap \<Rightarrow> signed_precommit list" where
  "committed b pcs = map (\<lambda>(val, h, sig, w). \<lparr>sp_validator = val, sp_block_hash = b, sp_signature = sig, stake_weight = w\<rparr>)
     (filter (\<lambda>(val, h, sig, w). h = Some b) pcs)"

lemma fold_add_precommit:
  "bj_block_hash j = b \<Longrightarrow>
   fold (\<lambda>(val, h, sig, w) j. if h = Some b then add_precommit j val sig w else j) pcs j =
   j\<lparr>bj_precommits := bj_precommits j @ committed b pcs\<rparr>"
  by (induction pcs arbitrary: j) (auto simp: committed_def add_precommit_def)

lemma justification_for_eq:
  "justification_for s b = \<lparr>bj_height = height s, bj_round = round s, bj_block_hash = b,
     bj_precommits = committed b (precommits s)\<rparr>"
  by (simp add: justification_for_def fold_add_precommit BlockJustification_new_def)

lemma committed_weight: "sum_list (map stake_weight (committed b pcs)) = commit_weight (Some b) pcs"
  by (induction pcs) (auto simp: committed_def commit_weight_def)

lemma committed_distinct: "wf_map pcs \<Longrightarrow> distinct (map sp_validator (committed b pcs))"
proof -
  have "map sp_validator (committed b pcs) = map fst (filter (\<lambda>(val, h, sig, w). h = Some b) pcs)"
    by (simp add: committed_def case_prod_beta comp_def)
  moreover assume "wf_map pcs"
  ultimately show ?thesis by (simp add: wf_map_def distinct_map_filter)
qed

lemma committed_voted:
  "wf_map pcs \<Longrightarrow> p \<in> set (committed b pcs) \<Longrightarrow>
   sp_block_hash p = b \<and> hget pcs (sp_validator p) = Some (Some b, sp_signature p, stake_weight p)"
  by (auto simp: committed_def set_wf_map)

lemma justification_for_weight:
  "justification_total_stake (justification_for s b) = commit_weight (Some b) (precommits s) mod 18446744073709551616"
  by (simp add: justification_total_stake_def sum_u64_def justification_for_eq committed_weight)

text \<open>The only way to finalize: the counted precommit completes a supermajority for the block.\<close>

lemma on_precommit_Finalize:
  assumes ok: "engine_ok e" and fin: "on_precommit_weighted v stake e = (FinalizeBlock h r b j, e')"
  shows "h = height (bft_state e)" "r = round (bft_state e)" "j = justification_for (bft_state e') b"
    "engine_ok e'" "height (bft_state e') = h" "round (bft_state e') = r"
    "total_active_stake (bft_state e') = total_active_stake (bft_state e)"
    "supermajority_threshold (total_active_stake (bft_state e)) \<le>
      commit_weight (Some b) (precommits (bft_state e')) mod 18446744073709551616"
    "precommits (bft_state e') = hput (precommits (bft_state e)) (pc_validator v) (pc_block_hash v, pc_signature v, stake)"
    "pc_height v = h" "pc_round v = r"
proof -
  define e1 where "e1 = (if pc_validator v = our_address e \<and> pending_precommit e \<noteq> None
    then e\<lparr>pending_precommit := None\<rparr> else e)"
  define e2 where "e2 = e1\<lparr>bft_state := (bft_state e1)\<lparr>precommits :=
      hput (precommits (bft_state e1)) (pc_validator v) (pc_block_hash v, pc_signature v, stake)\<rparr>,
      collector := collector_add_precommit (pc_block_hash v) stake (collector e1)\<rparr>"
  have st: "bft_state e1 = bft_state e" "collector e1 = collector e" by (simp_all add: e1_def)
  from fin have cond: "pc_height v = height (bft_state e)" "pc_round v = round (bft_state e)"
      "hget (precommits (bft_state e)) (pc_validator v) = None" and cnt: "count_precommit v stake e1 = (FinalizeBlock h r b j, e')"
    unfolding on_precommit_weighted_def Let_def e1_def [symmetric] st
    by (simp_all del: not_None_eq split: if_splits)
  have ok2: "engine_ok e2" using ballots_ok_precommit [OF ok cond(3)] by (simp add: e2_def st)
  have sm: "precommit_supermajority (collector e2) (total_active_stake (bft_state e2)) = Some (Some b)"
    and res: "h = height (bft_state e2)" "r = round (bft_state e2)" "j = justification_for (bft_state e2) b"
      "e' = e2\<lparr>bft_state := (bft_state e2)\<lparr>phase := Finalize\<rparr>\<rparr>"
    using cnt unfolding count_precommit_def Let_def e2_def [symmetric] by (auto split: option.splits)
  have weight: "supermajority_threshold (total_active_stake (bft_state e2)) \<le>
      commit_weight (Some b) (precommits (bft_state e2)) mod 18446744073709551616"
    by (rule precommit_supermajority_Some [OF ok2 sm])
  have state: "height (bft_state e2) = height (bft_state e)" "round (bft_state e2) = round (bft_state e)"
      "total_active_stake (bft_state e2) = total_active_stake (bft_state e)"
      "precommits (bft_state e2) = hput (precommits (bft_state e)) (pc_validator v) (pc_block_hash v, pc_signature v, stake)"
    by (simp_all add: e2_def st)
  show "h = height (bft_state e)" "r = round (bft_state e)" "engine_ok e'" "height (bft_state e') = h"
      "round (bft_state e') = r" "pc_height v = h" "pc_round v = r"
      "total_active_stake (bft_state e') = total_active_stake (bft_state e)"
      "precommits (bft_state e') = hput (precommits (bft_state e)) (pc_validator v) (pc_block_hash v, pc_signature v, stake)"
      "supermajority_threshold (total_active_stake (bft_state e)) \<le>
        commit_weight (Some b) (precommits (bft_state e')) mod 18446744073709551616"
    using res state cond weight ok2 by simp_all
  show "j = justification_for (bft_state e') b" using res by (simp add: justification_for_eq)
qed

text \<open>
  A finalized block is justified (C4): whenever a reachable engine finalizes a block, it does so at its
  own height and round, and the justification lists distinct validators, each with its recorded
  precommit for that block, whose stake reaches the supermajority threshold of the total stake.
\<close>

theorem finalized_block_justified:
  assumes "engine.reach e" and "on_precommit_weighted v stake e = (FinalizeBlock h r b j, e')"
  shows "h = height (bft_state e) \<and> r = round (bft_state e) \<and>
    bj_height j = h \<and> bj_round j = r \<and> bj_block_hash j = b \<and>
    distinct (map sp_validator (bj_precommits j)) \<and>
    (\<forall>p \<in> set (bj_precommits j). sp_block_hash p = b \<and>
       hget (precommits (bft_state e')) (sp_validator p) = Some (Some b, sp_signature p, stake_weight p)) \<and>
    supermajority_threshold (total_active_stake (bft_state e)) \<le> justification_total_stake j \<and>
    (total_active_stake (bft_state e) \<noteq> 0 \<longrightarrow> has_supermajority j (total_active_stake (bft_state e)))"
proof -
  note fin = on_precommit_Finalize [OF engine.reach_inv [OF assms(1)] assms(2)]
  have wf: "wf_map (precommits (bft_state e'))" using fin(4) by (simp add: ballots_ok_def)
  have w: "supermajority_threshold (total_active_stake (bft_state e)) \<le> justification_total_stake j"
    using fin(3,8) by (simp add: justification_for_weight)
  show ?thesis
    using fin(1,2,5,6) w committed_distinct [OF wf, of b] committed_voted [OF wf, of _ b]
    by (simp add: fin(3) justification_for_eq has_supermajority_def)
qed

definition solo_engine :: bft_engine where
  "solo_engine = snd (engine_run (butlast solo_events) (BftEngine_new 0 7 ''a'' 10))"

lemma engine_run_reach: "engine.reach e \<Longrightarrow> engine.reach (snd (engine_run evs e))"
proof (induction evs arbitrary: e)
  case (Cons ev evs)
  have "engine.reach (snd (engine_step ev e))"
    by (rule engine.reach_step [OF Cons.prems, of "Some ev"]) (simp add: engine_moves_def)
  with Cons.IH show ?case by (simp add: case_prod_beta)
qed simp

lemma new_engine_reach: "engine.reach (BftEngine_new now h addr tot)"
  by (rule engine.reach_init) (auto simp: new_engine_def)

lemma solo_engine_finalizes:
  "\<exists>e'. on_precommit_weighted \<lparr>pc_height = 7, pc_round = 0, pc_block_hash = Some ''x'', pc_validator = ''a'',
      pc_signature = []\<rparr> 10 solo_engine =
    (FinalizeBlock 7 0 ''x'' \<lparr>bj_height = 7, bj_round = 0, bj_block_hash = ''x'', bj_precommits =
      [\<lparr>sp_validator = ''a'', sp_block_hash = ''x'', sp_signature = [], stake_weight = 10\<rparr>]\<rparr>, e')"
  by (simp add: solo_engine_def solo_events_def bft_eval)

theorem finalized_block_justified_witness:
  "has_supermajority \<lparr>bj_height = 7, bj_round = 0, bj_block_hash = ''x'', bj_precommits =
     [\<lparr>sp_validator = ''a'', sp_block_hash = ''x'', sp_signature = [], stake_weight = 10\<rparr>]\<rparr>
     (total_active_stake (bft_state solo_engine)) \<and> total_active_stake (bft_state solo_engine) = 10"
proof -
  obtain e' where fin: "on_precommit_weighted \<lparr>pc_height = 7, pc_round = 0, pc_block_hash = Some ''x'',
      pc_validator = ''a'', pc_signature = []\<rparr> 10 solo_engine =
    (FinalizeBlock 7 0 ''x'' \<lparr>bj_height = 7, bj_round = 0, bj_block_hash = ''x'', bj_precommits =
      [\<lparr>sp_validator = ''a'', sp_block_hash = ''x'', sp_signature = [], stake_weight = 10\<rparr>]\<rparr>, e')"
    using solo_engine_finalizes by blast
  have tot: "total_active_stake (bft_state solo_engine) = 10"
    by (simp add: solo_engine_def solo_events_def bft_eval)
  have "engine.reach solo_engine"
    unfolding solo_engine_def by (rule engine_run_reach [OF new_engine_reach])
  from finalized_block_justified [OF this fin] show ?thesis by (simp add: tot)
qed

definition signers :: "block_justification \<Rightarrow> string set" where
  "signers j = sp_validator ` set (bj_precommits j)"

lemma justification_weight_signers:
  assumes "distinct (map sp_validator (bj_precommits j))"
    and "\<forall>p \<in> set (bj_precommits j). stake_weight p = w (sp_validator p)"
  shows "sum_list (map stake_weight (bj_precommits j)) = sum w (signers j)"
proof -
  have "map stake_weight (bj_precommits j) = map w (map sp_validator (bj_precommits j))"
    using assms(2) by simp
  then have "sum_list (map stake_weight (bj_precommits j)) = sum w (set (map sp_validator (bj_precommits j)))"
    using sum_list_distinct_conv_sum_set [OF assms(1), of w] by metis
  then show ?thesis by (simp add: signers_def)
qed

text \<open>
  Two finalities at one height are accountable: any two justifications with a supermajority of
  the same validator set, each listing distinct validators with their stake, have common signers
  that hold more than a third of the stake.
\<close>

theorem justifications_overlap:
  assumes "finite V" and "sum w V \<le> U64_MAX"
    and "\<forall>j \<in> {j1, j2}. signers j \<subseteq> V \<and> distinct (map sp_validator (bj_precommits j)) \<and>
      (\<forall>p \<in> set (bj_precommits j). stake_weight p = w (sp_validator p)) \<and> has_supermajority j (sum w V)"
  shows "sum w V < 3 * sum w (signers j1 \<inter> signers j2)"
proof -
  have reached: "bft.reached w V (signers j)" and sub: "signers j \<subseteq> V" if "j \<in> {j1, j2}" for j
  proof -
    from that assms(3) have j: "signers j \<subseteq> V" "distinct (map sp_validator (bj_precommits j))"
        "\<forall>p \<in> set (bj_precommits j). stake_weight p = w (sp_validator p)" "has_supermajority j (sum w V)"
      by auto
    have "justification_total_stake j \<le> sum w (signers j)"
      using justification_weight_signers [OF j(2,3)]
      by (simp add: justification_total_stake_def sum_u64_def)
    with j(1,4) show "bft.reached w V (signers j)" "signers j \<subseteq> V"
      by (auto simp: bft.reached_def has_supermajority_def Int_absorb2 split: if_splits)
  qed
  have "signers j1 \<inter> signers j2 \<inter> V = signers j1 \<inter> signers j2"
    using sub by blast
  with bft.overlap [OF assms(1,2) reached [of j1] reached [of j2]] show ?thesis by simp
qed

definition example_justification :: "string \<Rightarrow> string list \<Rightarrow> block_justification" where
  "example_justification b vs = \<lparr>bj_height = 7, bj_round = 0, bj_block_hash = b, bj_precommits =
     map (\<lambda>v. \<lparr>sp_validator = v, sp_block_hash = b, sp_signature = [], stake_weight = 10\<rparr>) vs\<rparr>"

theorem justifications_overlap_witness:
  "40 < 3 * sum (\<lambda>_. 10 :: nat) (signers (example_justification ''x'' [''a'', ''b'', ''c'']) \<inter>
      signers (example_justification ''y'' [''b'', ''c'', ''d'']))"
proof -
  have tot: "sum (\<lambda>_. 10 :: nat) {''a'', ''b'', ''c'', ''d''} = 40" by simp
  show ?thesis
    using justifications_overlap [of "{''a'', ''b'', ''c'', ''d''}" "\<lambda>_. 10"
        "example_justification ''x'' [''a'', ''b'', ''c'']" "example_justification ''y'' [''b'', ''c'', ''d'']"]
    unfolding tot
    by (simp add: example_justification_def signers_def has_supermajority_def supermajority_threshold_def
        as_u64_def justification_total_stake_def sum_u64_def U64_MAX_def)
qed

end
