(* ===== verification/Bft_Network.thy ===== *)
theory Bft_Network
  imports Bft_Tally
begin

text \<open>
  Validators exchanging votes at one height: correct validators run the engine, faulty ones send any
  vote in their own name, and the network delivers, delays, repeats and loses votes at will. Votes
  cannot be forged: a delivered vote was sent by the validator it names. \<open>relax\<close> says whether correct
  validators may meet a stale lock and drop it.
\<close>

section \<open>The network\<close>

record network =
  nodes :: "string \<Rightarrow> bft_engine"
  sent_prevotes :: "(string \<times> u32 \<times> string option) set"
  sent_precommits :: "(string \<times> u32 \<times> string option) set"
  decisions :: "(string \<times> u32 \<times> string) set"

fun delivered :: "string set \<Rightarrow> (string \<Rightarrow> u64) \<Rightarrow> u64 \<Rightarrow> network \<Rightarrow> engine_event \<Rightarrow> bool" where
  "delivered V w H N (EvPrevote now v stake) \<longleftrightarrow> (pv_height v = H \<longrightarrow>
     pv_validator v \<in> V \<and> stake = w (pv_validator v) \<and>
     (pv_validator v, pv_round v, pv_block_hash v) \<in> sent_prevotes N)"
| "delivered V w H N (EvPrecommit v stake) \<longleftrightarrow> (pc_height v = H \<longrightarrow>
     pc_validator v \<in> V \<and> stake = w (pc_validator v) \<and>
     (pc_validator v, pc_round v, pc_block_hash v) \<in> sent_precommits N)"
| "delivered V w H N _ \<longleftrightarrow> True"

fun decided_by :: "string \<Rightarrow> bft_action \<Rightarrow> (string \<times> u32 \<times> string) set" where
  "decided_by a (FinalizeBlock h r b j) = {(a, r, b)}"
| "decided_by a _ = {}"

definition after_step :: "string \<Rightarrow> bft_action \<times> bft_engine \<Rightarrow> network \<Rightarrow> network" where
  "after_step a res N = N\<lparr>nodes := (nodes N)(a := snd res),
     sent_prevotes := sent_prevotes N \<union> Pair a ` prevote_out (fst res),
     sent_precommits := sent_precommits N \<union> Pair a ` precommit_out (fst res),
     decisions := decisions N \<union> decided_by a (fst res)\<rparr>"

inductive net_step :: "bool \<Rightarrow> string set \<Rightarrow> (string \<Rightarrow> u64) \<Rightarrow> string set \<Rightarrow> u64 \<Rightarrow> network \<Rightarrow> network \<Rightarrow> bool"
  for relax V w G H where
  correct: "a \<in> G \<Longrightarrow> event_ok ev (nodes N a) \<Longrightarrow> relax \<or> keeps_lock ev (nodes N a) \<Longrightarrow> delivered V w H N ev \<Longrightarrow>
     net_step relax V w G H N (after_step a (engine_step ev (nodes N a)) N)"
| faulty_prevote: "v \<notin> G \<Longrightarrow>
     net_step relax V w G H N (N\<lparr>sent_prevotes := insert (v, r, h) (sent_prevotes N)\<rparr>)"
| faulty_precommit: "v \<notin> G \<Longrightarrow>
     net_step relax V w G H N (N\<lparr>sent_precommits := insert (v, r, h) (sent_precommits N)\<rparr>)"

definition net_start :: "string set \<Rightarrow> (string \<Rightarrow> u64) \<Rightarrow> string set \<Rightarrow> u64 \<Rightarrow> network \<Rightarrow> bool" where
  "net_start V w G H N \<longleftrightarrow>
    (\<forall>a \<in> G. \<exists>now. nodes N a = BftEngine_new now H a (sum w V)) \<and>
    sent_prevotes N = {} \<and> sent_precommits N = {} \<and> decisions N = {}"

section \<open>Recorded votes were sent\<close>

definition recorded ::
  "(string \<times> u32 \<times> string option) set \<Rightarrow> string set \<Rightarrow> (string \<Rightarrow> nat) \<Rightarrow> u32 \<Rightarrow> (string, string option \<times> u64) hmap \<Rightarrow> bool" where
  "recorded S V w r votes \<longleftrightarrow>
    (\<forall>v h x. hget votes v = Some (h, x) \<longrightarrow> v \<in> V \<and> x = w v \<and> (v, r, h) \<in> S)"

definition unsign :: "(string, string option \<times> u8 list \<times> u64) hmap \<Rightarrow> (string, string option \<times> u64) hmap" where
  "unsign pcs = map (\<lambda>(v, h, sig, x). (v, h, x)) pcs"

lemma hget_unsign: "hget (unsign pcs) v = map_option (\<lambda>(h, sig, x). (h, x)) (hget pcs v)"
  by (induction pcs) (auto simp: unsign_def)

lemma wf_unsign: "wf_map pcs \<Longrightarrow> wf_map (unsign pcs)"
  by (simp add: wf_map_def unsign_def case_prod_beta comp_def)

lemma weight_unsign: "commit_weight h pcs = vote_weight h (unsign pcs)"
  by (induction pcs) (auto simp: commit_weight_def vote_weight_def unsign_def)

lemma recorded_Nil [simp]: "recorded S V w r []"
  by (simp add: recorded_def)

lemma recorded_hput:
  "recorded S V w r votes \<Longrightarrow> v \<in> V \<Longrightarrow> (v, r, h) \<in> S \<Longrightarrow> recorded S V w r (hput votes v (h, w v))"
  by (auto simp: recorded_def hget_hput split: if_splits)

lemma recorded_mono: "S \<subseteq> S' \<Longrightarrow> recorded S V w r votes \<Longrightarrow> recorded S' V w r votes"
  by (fastforce simp: recorded_def)

lemma vote_weight_filter:
  "\<forall>p \<in> set votes. snd (snd p) = w (fst p) \<Longrightarrow>
   vote_weight h votes = sum_list (map w (map fst (filter (\<lambda>(v, x, y). x = h) votes)))"
  by (induction votes) (auto simp: vote_weight_def)

lemma recorded_weight:
  assumes "finite V" and wf: "wf_map votes" and rec: "recorded S V w r votes"
  shows "vote_weight h votes \<le> sum w ({v. (v, r, h) \<in> S} \<inter> V)"
proof -
  define ks where "ks = map fst (filter (\<lambda>(v, x, y). x = h) votes)"
  have "\<forall>p \<in> set votes. snd (snd p) = w (fst p)"
    using wf rec by (auto simp: set_wf_map recorded_def)
  then have "vote_weight h votes = sum_list (map w ks)"
    unfolding ks_def by (rule vote_weight_filter)
  also have "\<dots> = sum w (set ks)"
    using wf by (intro sum_list_distinct_conv_sum_set) (simp add: ks_def wf_map_def distinct_map_filter)
  also have "\<dots> \<le> sum w ({v. (v, r, h) \<in> S} \<inter> V)"
    using assms(1) wf rec by (intro sum_mono2) (auto simp: ks_def set_wf_map recorded_def)
  finally show ?thesis .
qed

definition node_recorded :: "string set \<Rightarrow> (string \<Rightarrow> nat) \<Rightarrow> network \<Rightarrow> bft_engine \<Rightarrow> bool" where
  "node_recorded V w N e \<longleftrightarrow>
    recorded (sent_prevotes N) V w (round (bft_state e)) (prevotes (bft_state e)) \<and>
    recorded (sent_precommits N) V w (round (bft_state e)) (unsign (precommits (bft_state e)))"

lemma node_recorded_same: "same_ballots e e' \<Longrightarrow> node_recorded V w N e \<Longrightarrow> node_recorded V w N e'"
  by (simp add: same_ballots_def node_recorded_def)

lemma node_recorded_empty:
  "prevotes (bft_state e) = [] \<Longrightarrow> precommits (bft_state e) = [] \<Longrightarrow> node_recorded V w N e"
  by (simp add: node_recorded_def unsign_def)

lemma unsign_hput: "unsign (hput pcs v (h, sig, x)) = hput (unsign pcs) v (h, x)"
  by (induction pcs) (auto simp: unsign_def)

lemma node_recorded_mono:
  "sent_prevotes N \<subseteq> sent_prevotes N' \<Longrightarrow> sent_precommits N \<subseteq> sent_precommits N' \<Longrightarrow>
   node_recorded V w N e \<Longrightarrow> node_recorded V w N' e"
  by (auto simp: node_recorded_def intro: recorded_mono)

lemma catch_up_loop_ballots:
  "catch_up_loop target e = e \<or>
   prevotes (bft_state (catch_up_loop target e)) = [] \<and> precommits (bft_state (catch_up_loop target e)) = []"
proof (induction target e rule: catch_up_loop.induct)
  case (1 target e)
  show ?case
  proof (cases "round (bft_state e) < target \<and> round (bft_state e) < U32_MAX")
    case False
    then show ?thesis by (subst catch_up_loop.simps) (simp only: if_False simp_thms)
  next
    case True
    define e1 where "e1 = e\<lparr>bft_state := state_advance_round (bft_state e),
      collector := collector_reset (collector e), pending_prevote := None, pending_precommit := None\<rparr>"
    have "catch_up_loop target e = catch_up_loop target e1"
      using True by (subst catch_up_loop.simps) (simp add: e1_def)
    moreover have "prevotes (bft_state e1) = []" "precommits (bft_state e1) = []"
      by (simp_all add: e1_def state_advance_round_def)
    ultimately show ?thesis using 1 [OF True, folded e1_def] by auto
  qed
qed

lemma catch_up_recorded:
  assumes "node_recorded V w N e"
  shows "node_recorded V w N (snd (catch_up_round now target reg e))"
proof -
  have "node_recorded V w N ((catch_up_loop target e)\<lparr>phase_start := now\<rparr>)"
    using catch_up_loop_ballots [of target e] assms by (auto simp: node_recorded_def unsign_def)
  with assms show ?thesis by (simp add: catch_up_round_def)
qed

lemma count_prevote_recorded:
  assumes "node_recorded V w N e" and "pv_validator v \<in> V"
    and "(pv_validator v, round (bft_state e), pv_block_hash v) \<in> sent_prevotes N"
  shows "node_recorded V w N (snd (count_prevote now v (w (pv_validator v)) e))"
proof -
  define e' where "e' = e\<lparr>bft_state := (bft_state e)\<lparr>prevotes :=
      hput (prevotes (bft_state e)) (pv_validator v) (pv_block_hash v, w (pv_validator v))\<rparr>,
      collector := collector_add_prevote (pv_block_hash v) (w (pv_validator v)) (collector e)\<rparr>"
  have ok: "node_recorded V w N e'"
    using assms by (simp add: node_recorded_def e'_def recorded_hput)
  have "same_ballots e' (snd (count_prevote now v (w (pv_validator v)) e))"
    unfolding count_prevote_def Let_def e'_def [symmetric]
    using same_ballots_quorum by (simp add: same_ballots_def split: option.split)
  then show ?thesis using ok by (rule node_recorded_same)
qed

lemma count_precommit_recorded:
  assumes "node_recorded V w N e" and "pc_validator v \<in> V"
    and "(pc_validator v, round (bft_state e), pc_block_hash v) \<in> sent_precommits N"
  shows "node_recorded V w N (snd (count_precommit v (w (pc_validator v)) e))"
proof -
  define e' where "e' = e\<lparr>bft_state := (bft_state e)\<lparr>precommits :=
      hput (precommits (bft_state e)) (pc_validator v) (pc_block_hash v, pc_signature v, w (pc_validator v))\<rparr>,
      collector := collector_add_precommit (pc_block_hash v) (w (pc_validator v)) (collector e)\<rparr>"
  have ok: "node_recorded V w N e'"
    using assms by (simp add: node_recorded_def e'_def unsign_hput recorded_hput)
  have "same_ballots e' (snd (count_precommit v (w (pc_validator v)) e))"
    unfolding count_precommit_def Let_def e'_def [symmetric]
    by (simp add: same_ballots_def split: option.split)
  then show ?thesis using ok by (rule node_recorded_same)
qed

lemma on_prevote_recorded:
  assumes rec: "node_recorded V w N e" and H: "height (bft_state e) = H"
    and d: "delivered V w H N (EvPrevote now v stake)"
  shows "node_recorded V w N (snd (on_prevote_weighted now v stake e))"
proof -
  define e1 where "e1 = (if pv_validator v = our_address e \<and> pending_prevote e \<noteq> None
    then e\<lparr>pending_prevote := None\<rparr> else e)"
  have st: "bft_state e1 = bft_state e" by (simp add: e1_def)
  have rec1: "node_recorded V w N e1" using rec by (simp add: node_recorded_def st)
  show ?thesis
    unfolding on_prevote_weighted_def Let_def e1_def [symmetric]
    using rec rec1 count_prevote_recorded [OF rec1, of v now] d H by (auto simp: st)
qed

lemma on_precommit_recorded:
  assumes rec: "node_recorded V w N e" and H: "height (bft_state e) = H"
    and d: "delivered V w H N (EvPrecommit v stake)"
  shows "node_recorded V w N (snd (on_precommit_weighted v stake e))"
proof -
  define e1 where "e1 = (if pc_validator v = our_address e \<and> pending_precommit e \<noteq> None
    then e\<lparr>pending_precommit := None\<rparr> else e)"
  have st: "bft_state e1 = bft_state e" by (simp add: e1_def)
  have rec1: "node_recorded V w N e1" using rec by (simp add: node_recorded_def st)
  show ?thesis
    unfolding on_precommit_weighted_def Let_def e1_def [symmetric]
    using rec rec1 count_precommit_recorded [OF rec1, of v] d H by (auto simp: st)
qed

lemma on_round_status_recorded:
  assumes "node_recorded V w N e"
  shows "node_recorded V w N (snd (on_round_status_weighted now st stake reg e))"
    "node_recorded V w N (snd (on_round_status now st reg e))"
proof -
  define e1 where "e1 = record_peer_round st stake e"
  have ok1: "node_recorded V w N e1" using assms by (simp add: e1_def record_peer_round_def node_recorded_def)
  show "node_recorded V w N (snd (on_round_status_weighted now st stake reg e))"
    unfolding on_round_status_weighted_def Let_def e1_def [symmetric]
    using assms ok1 catch_up_recorded [OF ok1] by (simp add: case_prod_beta split: option.split)
  show "node_recorded V w N (snd (on_round_status now st reg e))"
    using assms catch_up_recorded [OF assms] by (simp add: on_round_status_def case_prod_beta split: option.split)
qed

lemma engine_step_recorded:
  assumes rec: "node_recorded V w N e" and H: "height (bft_state e) = H" and d: "delivered V w H N ev"
  shows "node_recorded V w N (snd (engine_step ev e))"
proof (cases ev)
  case (EvProposal now h proposer reg)
  then show ?thesis using node_recorded_same [OF same_ballots_proposal(1) rec] by simp
next
  case (EvOwnProposal now h)
  then show ?thesis using node_recorded_same [OF same_ballots_proposal(2) rec] by simp
next
  case (EvPrevote now v stake)
  with d show ?thesis using on_prevote_recorded [OF rec H] by simp
next
  case (EvPrecommit v stake)
  with d show ?thesis using on_precommit_recorded [OF rec H] by simp
next
  case (EvTimeout now)
  then show ?thesis using node_recorded_same [OF same_ballots_timeout rec] by simp
next
  case (EvAdvanceRound now)
  then show ?thesis by (simp add: advance_round_def state_advance_round_def node_recorded_empty)
qed (use rec on_round_status_recorded [OF rec] catch_up_recorded [OF rec] in
  \<open>simp_all add: stash_proposal_bytes_def mark_prevote_cast_def mark_precommit_cast_def node_recorded_def\<close>)

section \<open>The network invariant\<close>

definition prevote_quorum_sent :: "string set \<Rightarrow> (string \<Rightarrow> nat) \<Rightarrow> network \<Rightarrow> u32 \<Rightarrow> string \<Rightarrow> bool" where
  "prevote_quorum_sent V w N r b \<longleftrightarrow> bft.reached w V {v. (v, r, Some b) \<in> sent_prevotes N}"

definition precommit_quorum_sent :: "string set \<Rightarrow> (string \<Rightarrow> nat) \<Rightarrow> network \<Rightarrow> u32 \<Rightarrow> string \<Rightarrow> bool" where
  "precommit_quorum_sent V w N r b \<longleftrightarrow> bft.reached w V {v. (v, r, Some b) \<in> sent_precommits N}"

definition votes_of :: "(string \<times> u32 \<times> string option) set \<Rightarrow> string \<Rightarrow> (u32 \<times> string option) set" where
  "votes_of S a = {(r, h). (a, r, h) \<in> S}"

definition node_inv :: "string set \<Rightarrow> (string \<Rightarrow> nat) \<Rightarrow> u64 \<Rightarrow> network \<Rightarrow> string \<Rightarrow> bool" where
  "node_inv V w H N a \<longleftrightarrow>
    (let e = nodes N a; PV = votes_of (sent_prevotes N) a; PC = votes_of (sent_precommits N) a
     in pending_ok e PV PC \<and> voter_inv (prevote_quorum_sent V w N) (abs_voter e PV PC) \<and>
        engine_ok e \<and> node_recorded V w N e \<and>
        height (bft_state e) = H \<and> our_address e = a \<and> total_active_stake (bft_state e) = sum w V)"

definition net_inv :: "string set \<Rightarrow> (string \<Rightarrow> nat) \<Rightarrow> string set \<Rightarrow> u64 \<Rightarrow> network \<Rightarrow> bool" where
  "net_inv V w G H N \<longleftrightarrow> (\<forall>a \<in> G. node_inv V w H N a) \<and>
    (\<forall>(a, r, b) \<in> decisions N. precommit_quorum_sent V w N r b)"

lemma quorum_sent_mono:
  assumes "finite V"
  shows "sent_prevotes N \<subseteq> sent_prevotes N' \<Longrightarrow> prevote_quorum_sent V w N r b \<Longrightarrow> prevote_quorum_sent V w N' r b"
    and "sent_precommits N \<subseteq> sent_precommits N' \<Longrightarrow> precommit_quorum_sent V w N r b \<Longrightarrow> precommit_quorum_sent V w N' r b"
  unfolding prevote_quorum_sent_def precommit_quorum_sent_def
  by (rule bft.reached_mono [OF assms]; blast)+

text \<open>A node that does not move keeps its invariant while others send votes in their own names.\<close>

lemma node_inv_frame:
  assumes "finite V" and inv: "node_inv V w H N a" and "nodes N' a = nodes N a"
    and sub: "sent_prevotes N \<subseteq> sent_prevotes N'" "sent_precommits N \<subseteq> sent_precommits N'"
    and same: "votes_of (sent_prevotes N') a = votes_of (sent_prevotes N) a"
      "votes_of (sent_precommits N') a = votes_of (sent_precommits N) a"
  shows "node_inv V w H N' a"
proof -
  have "voter_inv (prevote_quorum_sent V w N') (abs_voter (nodes N a) PV PC)"
    if "voter_inv (prevote_quorum_sent V w N) (abs_voter (nodes N a) PV PC)" for PV PC
    using voter_inv_mono [OF quorum_sent_mono(1) [OF assms(1) sub(1)] that] .
  with assms node_recorded_mono [OF sub, of V w "nodes N a"] show ?thesis
    by (simp add: node_inv_def)
qed

lemma supermajority_weight:
  assumes fin: "finite V" and "wf_map votes" "recorded S V w r votes"
    and "supermajority_threshold (sum w V) \<le> vote_weight h votes mod 18446744073709551616"
  shows "bft.reached w V {v. (v, r, h) \<in> S}"
proof -
  have "vote_weight h votes mod 18446744073709551616 \<le> vote_weight h votes" by simp
  with recorded_weight [OF assms(1-3), of h] assms(4) show ?thesis
    by (simp add: bft.reached_def)
qed

lemma node_quorum_ok:
  assumes fin: "finite V" and inv: "node_inv V w H N a" and d: "delivered V w H N ev"
  shows "quorum_ok (prevote_quorum_sent V w N) ev (nodes N a)"
proof (cases ev)
  case (EvPrevote now v stake)
  let ?e = "nodes N a"
  have "prevote_quorum_sent V w N (round (bft_state ?e)) b"
    if v: "pv_height v = height (bft_state ?e)" "pv_round v = round (bft_state ?e)"
      and new: "hget (prevotes (bft_state ?e)) (pv_validator v) = None"
      and sm: "prevote_supermajority (collector_add_prevote (pv_block_hash v) stake (collector ?e))
        (total_active_stake (bft_state ?e)) = Some (Some b)" for b
  proof -
    from inv have i: "engine_ok ?e" "node_recorded V w N ?e" "height (bft_state ?e) = H"
        "total_active_stake (bft_state ?e) = sum w V"
      by (simp_all add: node_inv_def)
    from d EvPrevote v i(3) have dv: "pv_validator v \<in> V" "stake = w (pv_validator v)"
        "(pv_validator v, round (bft_state ?e), pv_block_hash v) \<in> sent_prevotes N"
      by auto
    let ?pvs = "hput (prevotes (bft_state ?e)) (pv_validator v) (pv_block_hash v, stake)"
    note ok = ballots_ok_prevote [OF i(1) new, of "pv_block_hash v" stake]
    have "recorded (sent_prevotes N) V w (round (bft_state ?e)) ?pvs"
      using i(2) dv recorded_hput by (simp add: node_recorded_def)
    moreover have "wf_map ?pvs" using ok by (simp add: ballots_ok_def)
    ultimately show ?thesis
      unfolding prevote_quorum_sent_def
      using prevote_supermajority_Some [OF ok sm] i(4) by (intro supermajority_weight [OF fin]) simp_all
  qed
  with EvPrevote show ?thesis by simp
qed simp_all

text \<open>Only a precommit can finalize.\<close>

definition finalizes :: "bft_action \<Rightarrow> bool" where
  "finalizes a \<longleftrightarrow> (\<exists>h r b j. a = FinalizeBlock h r b j)"

lemma no_finalize_emit [simp]:
  "\<not> finalizes (fst (emit_prevote v e))" "\<not> finalizes (fst (emit_precommit u e))"
  by (simp_all add: finalizes_def emit_prevote_def emit_precommit_def split: option.split)

lemma not_finalizes [simp]:
  "\<not> finalizes Wait" "\<not> finalizes SkipRound" "\<not> finalizes TimeoutAdvanceRound" "\<not> finalizes (SyncNeeded h)"
  "\<not> finalizes (BroadcastPrevote v)" "\<not> finalizes (BroadcastPrecommit u)"
  by (simp_all add: finalizes_def)

lemma no_finalize_ops [simp]:
  "\<not> finalizes (fst (accept_proposal now h e))" "\<not> finalizes (fst (prevote_quorum now q e))"
  "\<not> finalizes (fst (on_timeout now e))"
  by (simp_all add: accept_proposal_def prevote_quorum_def on_timeout_def split: option.split bft_phase.split)

lemma no_finalize_retry: "retry_pending_prevote_for h e = Some a \<Longrightarrow> \<not> finalizes a"
  by (auto simp: retry_pending_prevote_for_def split: option.splits if_splits)

lemma no_finalize_handlers [simp]:
  "\<not> finalizes (fst (on_proposal now h p reg e))" "\<not> finalizes (fst (on_own_proposal now h e))"
  "\<not> finalizes (fst (on_prevote_weighted now v stake e))"
  "\<not> finalizes (fst (on_round_status_weighted now st stake reg e))" "\<not> finalizes (fst (on_round_status now st reg e))"
  using no_finalize_retry
  by (auto simp: on_proposal_def on_own_proposal_def on_prevote_weighted_def count_prevote_def
      on_round_status_weighted_def on_round_status_def case_prod_beta split: option.split)

lemma finalize_event:
  assumes "engine_step ev e = (FinalizeBlock h r b j, e')"
  obtains v stake where "ev = EvPrecommit v stake" "on_precommit_weighted v stake e = (FinalizeBlock h r b j, e')"
proof -
  have "finalizes (fst (engine_step ev e))" using assms by (simp add: finalizes_def)
  then show thesis using that assms by (cases ev) auto
qed

lemma decision_backed:
  assumes fin: "finite V" and inv: "node_inv V w H N a" and d: "delivered V w H N ev"
    and st: "engine_step ev (nodes N a) = (FinalizeBlock h r b j, e')"
  shows "precommit_quorum_sent V w N r b"
proof -
  let ?e = "nodes N a"
  from inv have i: "engine_ok ?e" "node_recorded V w N ?e" "height (bft_state ?e) = H"
      "total_active_stake (bft_state ?e) = sum w V"
    by (simp_all add: node_inv_def)
  obtain v stake where ev: "on_precommit_weighted v stake ?e = (FinalizeBlock h r b j, e')"
    using finalize_event [OF st] .
  note f = on_precommit_Finalize [OF i(1) ev]
  have "node_recorded V w N e'"
    using engine_step_recorded [OF i(2,3) d] st by simp
  then have "recorded (sent_precommits N) V w r (unsign (precommits (bft_state e')))"
    using f(6) by (simp add: node_recorded_def)
  moreover have "wf_map (unsign (precommits (bft_state e')))"
    using f(4) by (simp add: ballots_ok_def wf_unsign)
  ultimately show ?thesis
    unfolding precommit_quorum_sent_def
    using f(8) i(4) by (intro supermajority_weight [OF fin]) (simp_all add: weight_unsign)
qed

lemma moved_node_inv:
  assumes fin: "finite V" and inv: "node_inv V w H N a" and d: "delivered V w H N ev"
    and ok: "event_ok ev (nodes N a)" "keeps_lock ev (nodes N a)"
  shows "node_inv V w H (after_step a (engine_step ev (nodes N a)) N) a"
proof -
  let ?e = "nodes N a" and ?PV = "votes_of (sent_prevotes N) a" and ?PC = "votes_of (sent_precommits N) a"
  obtain act e' where st: "engine_step ev ?e = (act, e')" by force
  define N' where "N' = after_step a (act, e') N"
  from inv have i: "pending_ok ?e ?PV ?PC" "voter_inv (prevote_quorum_sent V w N) (abs_voter ?e ?PV ?PC)"
      "engine_ok ?e" "node_recorded V w N ?e" "height (bft_state ?e) = H" "our_address ?e = a"
      "total_active_stake (bft_state ?e) = sum w V"
    by (simp_all add: node_inv_def)
  have once: "votes_once (abs_voter ?e ?PV ?PC)" using i(2) by (simp add: voter_inv_def)
  have ref: "refines False (prevote_quorum_sent V w N) ?e ?PV ?PC (act, e')"
    using engine_step_refines_lemma [OF i(1) once ok(1) _ node_quorum_ok [OF fin inv d], of False] ok(2) st by simp
  have votes: "votes_of (sent_prevotes N') a = ?PV \<union> prevote_out act"
      "votes_of (sent_precommits N') a = ?PC \<union> precommit_out act"
    by (auto simp: N'_def after_step_def votes_of_def)
  have sub: "sent_prevotes N \<subseteq> sent_prevotes N'" "sent_precommits N \<subseteq> sent_precommits N'"
    by (auto simp: N'_def after_step_def)
  have "voter_inv (prevote_quorum_sent V w N) (abs_voter e' (?PV \<union> prevote_out act) (?PC \<union> precommit_out act))"
    using ref voter_inv_steps [OF _ i(2)] by (simp add: refines_def)
  then have "voter_inv (prevote_quorum_sent V w N') (abs_voter e' (?PV \<union> prevote_out act) (?PC \<union> precommit_out act))"
    by (rule voter_inv_mono [OF quorum_sent_mono(1) [OF fin sub(1)], rotated])
  moreover have "engine_ok e'" using engine_step_ok [OF i(3), of ev] st by simp
  moreover have "node_recorded V w N' e'"
    using node_recorded_mono [OF sub engine_step_recorded [OF i(4,5) d]] st by simp
  moreover have "nodes N' a = e'" by (simp add: N'_def after_step_def)
  ultimately have "node_inv V w H N' a"
    using ref i(5-7) by (simp add: node_inv_def votes refines_def)
  then show ?thesis by (simp add: N'_def st)
qed

lemma net_step_inv:
  assumes fin: "finite V"
  shows "net_step False V w G H N N' \<Longrightarrow> net_inv V w G H N \<Longrightarrow> net_inv V w G H N'"
proof (induction rule: net_step.induct)
  case (correct a ev N)
  obtain act e' where st: "engine_step ev (nodes N a) = (act, e')" by force
  define N' where "N' = after_step a (act, e') N"
  have sub: "sent_prevotes N \<subseteq> sent_prevotes N'" "sent_precommits N \<subseteq> sent_precommits N'"
    by (auto simp: N'_def after_step_def)
  have inv: "node_inv V w H N a" using correct by (simp add: net_inv_def)
  have "node_inv V w H N' b" if "b \<in> G" for b
  proof (cases "b = a")
    case True
    then show ?thesis using moved_node_inv [OF fin inv correct(4,2)] correct(3) st by (simp add: N'_def)
  next
    case False
    have "nodes N' b = nodes N b" using False by (simp add: N'_def after_step_def)
    moreover have "votes_of (sent_prevotes N') b = votes_of (sent_prevotes N) b"
        "votes_of (sent_precommits N') b = votes_of (sent_precommits N) b"
      using False by (auto simp: N'_def after_step_def votes_of_def)
    ultimately show ?thesis
      using node_inv_frame [OF fin _ _ sub] correct.prems that by (simp add: net_inv_def)
  qed
  moreover have "precommit_quorum_sent V w N' r b" if "(c, r, b) \<in> decisions N'" for c r b
  proof -
    have "precommit_quorum_sent V w N r b"
    proof (cases "(c, r, b) \<in> decisions N")
      case True
      then show ?thesis using correct.prems by (auto simp: net_inv_def)
    next
      case False
      with that obtain h j where "act = FinalizeBlock h r b j"
        by (cases act) (auto simp: N'_def after_step_def)
      then show ?thesis using decision_backed [OF fin inv correct(4)] st by simp
    qed
    then show ?thesis by (rule quorum_sent_mono(2) [OF fin sub(2)])
  qed
  ultimately show ?case by (auto simp: net_inv_def st N'_def)
next
  case (faulty_prevote v N r h)
  let ?N = "N\<lparr>sent_prevotes := insert (v, r, h) (sent_prevotes N)\<rparr>"
  have "node_inv V w H ?N a" if "a \<in> G" for a
    using node_inv_frame [OF fin, of w H N a ?N] faulty_prevote that by (auto simp: net_inv_def votes_of_def)
  moreover have "precommit_quorum_sent V w ?N = precommit_quorum_sent V w N"
    by (simp add: precommit_quorum_sent_def fun_eq_iff)
  ultimately show ?case using faulty_prevote by (simp add: net_inv_def)
next
  case (faulty_precommit v N r h)
  let ?N = "N\<lparr>sent_precommits := insert (v, r, h) (sent_precommits N)\<rparr>"
  have "node_inv V w H ?N a" if "a \<in> G" for a
    using node_inv_frame [OF fin, of w H N a ?N] faulty_precommit that by (auto simp: net_inv_def votes_of_def)
  moreover have "precommit_quorum_sent V w ?N q b" if "precommit_quorum_sent V w N q b" for q b
    using that by (rule quorum_sent_mono(2) [OF fin, rotated]) auto
  ultimately show ?case using faulty_precommit by (auto simp: net_inv_def)
qed

section \<open>Agreement\<close>

lemma new_engine_fields:
  "engine_ok (BftEngine_new now H a tot)" "height (bft_state (BftEngine_new now H a tot)) = H"
  "our_address (BftEngine_new now H a tot) = a" "total_active_stake (bft_state (BftEngine_new now H a tot)) = tot"
  "node_recorded V w N (BftEngine_new now H a tot)"
  by (simp_all add: BftEngine_new_def BftRoundState_new_def node_recorded_def unsign_def)

lemma net_start_inv:
  assumes start: "net_start V w G H N"
  shows "net_inv V w G H N"
proof -
  have none: "votes_of (sent_prevotes N) a = {}" "votes_of (sent_precommits N) a = {}" for a
    using start by (auto simp: net_start_def votes_of_def)
  have "node_inv V w H N a" if "a \<in> G" for a
  proof -
    from start that have "\<exists>now. nodes N a = BftEngine_new now H a (sum w V)"
      by (simp only: net_start_def)
    then obtain now where e: "nodes N a = BftEngine_new now H a (sum w V)" ..
    show ?thesis
      unfolding node_inv_def Let_def none e by (simp only: new_engine_start new_engine_fields voter_inv_start simp_thms)
  qed
  moreover have "decisions N = {}" using start by (simp only: net_start_def)
  ultimately show ?thesis by (simp add: net_inv_def)
qed

lemma net_reach_inv:
  assumes "finite V" and "(net_step False V w G H)\<^sup>*\<^sup>* N N'" and "net_start V w G H N"
  shows "net_inv V w G H N'"
  using assms(2)
  by (induction rule: rtranclp_induct) (auto intro: net_start_inv [OF assms(3)] net_step_inv [OF assms(1)])

lemma correct_voter:
  assumes "net_inv V w G H N" and "v \<in> G"
  shows "voter_inv (prevote_quorum_sent V w N)
    (abs_voter (nodes N v) (votes_of (sent_prevotes N) v) (votes_of (sent_precommits N) v))"
  using assms by (simp add: net_inv_def node_inv_def)

lemma later_quorums_agree:
  assumes inv: "net_inv V w G H N" and fin: "finite V" and t: "sum w V \<le> U64_MAX"
    and bad: "3 * sum w (V - G) \<le> sum w V" and dec: "precommit_quorum_sent V w N r b"
  shows "r < q \<Longrightarrow> prevote_quorum_sent V w N q c \<Longrightarrow> b = c"
proof (induction q rule: less_induct)
  case (less q)
  show ?case
  proof (rule ccontr)
    assume ne: "b \<noteq> c"
    obtain v where v: "(v, r, Some b) \<in> sent_precommits N" "(v, q, Some c) \<in> sent_prevotes N" "v \<in> G"
      using bft.correct_overlap [OF fin t dec [unfolded precommit_quorum_sent_def]
          less.prems(2) [unfolded prevote_quorum_sent_def] bad] by blast
    from correct_voter [OF inv v(3)] v ne less.prems(1)
    obtain q' where "r < q'" "q' < q" "prevote_quorum_sent V w N q' c"
      unfolding voter_inv_def prevotes_follow_lock_def abs_voter_def votes_of_def by fastforce
    with less.IH ne show False by blast
  qed
qed

lemma decisions_agree_le:
  assumes inv: "net_inv V w G H N" and fin: "finite V" and t: "sum w V \<le> U64_MAX"
    and bad: "3 * sum w (V - G) \<le> sum w V"
    and dec: "precommit_quorum_sent V w N r b" "precommit_quorum_sent V w N r' b'" and le: "r \<le> r'"
  shows "b = b'"
proof (cases "r = r'")
  case True
  obtain v where v: "(v, r, Some b) \<in> sent_precommits N" "(v, r, Some b') \<in> sent_precommits N" "v \<in> G"
    using bft.correct_overlap [OF fin t dec [unfolded precommit_quorum_sent_def] bad] True by blast
  have "single_valued (votes_of (sent_precommits N) v)"
    using correct_voter [OF inv v(3)] by (simp add: voter_inv_def votes_once_def abs_voter_def)
  from single_valuedD [OF this, of r "Some b" "Some b'"] v show ?thesis by (simp add: votes_of_def)
next
  case False
  obtain v where v: "(v, r', Some b') \<in> sent_precommits N" "v \<in> G"
    using bft.correct_overlap [OF fin t dec(2,2) [unfolded precommit_quorum_sent_def] bad] by blast
  have "prevote_quorum_sent V w N r' b'"
    using correct_voter [OF inv v(2)] v(1)
    by (auto simp: voter_inv_def precommits_locked_def abs_voter_def votes_of_def)
  from later_quorums_agree [OF inv fin t bad dec(1) _ this] False le show ?thesis by simp
qed

end
