(* ===== verification/Bft_Agreement.thy ===== *)
theory Bft_Agreement
  imports Bft_Network
begin

text \<open>
  Agreement of correct validators, with a concrete run of two validators that finalize the same
  block, and the fork that one faulty validator of four can cause once a stale lock is dropped.
\<close>

section \<open>Running a schedule\<close>

datatype net_event =
    AtNode string engine_event
  | FaultyPrevote string u32 string
  | FaultyPrecommit string u32 string

fun net_apply :: "net_event \<Rightarrow> network \<Rightarrow> network" where
  "net_apply (AtNode a ev) N = after_step a (engine_step ev (nodes N a)) N"
| "net_apply (FaultyPrevote v r b) N = N\<lparr>sent_prevotes := insert (v, r, Some b) (sent_prevotes N)\<rparr>"
| "net_apply (FaultyPrecommit v r b) N = N\<lparr>sent_precommits := insert (v, r, Some b) (sent_precommits N)\<rparr>"

fun net_event_ok :: "bool \<Rightarrow> string set \<Rightarrow> (string \<Rightarrow> u64) \<Rightarrow> string set \<Rightarrow> u64 \<Rightarrow> network \<Rightarrow> net_event \<Rightarrow> bool" where
  "net_event_ok relax V w G H N (AtNode a ev) \<longleftrightarrow>
    a \<in> G \<and> event_ok ev (nodes N a) \<and> (relax \<or> keeps_lock ev (nodes N a)) \<and> delivered V w H N ev"
| "net_event_ok relax V w G H N (FaultyPrevote v r b) \<longleftrightarrow> v \<notin> G"
| "net_event_ok relax V w G H N (FaultyPrecommit v r b) \<longleftrightarrow> v \<notin> G"

fun net_run :: "bool \<Rightarrow> string set \<Rightarrow> (string \<Rightarrow> u64) \<Rightarrow> string set \<Rightarrow> u64 \<Rightarrow> net_event list \<Rightarrow> network \<Rightarrow> network option" where
  "net_run relax V w G H [] N = Some N"
| "net_run relax V w G H (x # xs) N =
    (if net_event_ok relax V w G H N x then net_run relax V w G H xs (net_apply x N) else None)"

lemma net_apply_step: "net_event_ok relax V w G H N x \<Longrightarrow> net_step relax V w G H N (net_apply x N)"
  by (cases x) (auto intro: net_step.intros)

lemma net_run_reach: "net_run relax V w G H xs N = Some N' \<Longrightarrow> (net_step relax V w G H)\<^sup>*\<^sup>* N N'"
proof (induction xs arbitrary: N)
  case (Cons x xs)
  then show ?case
    using net_apply_step [of relax V w G H N x]
    by (auto split: if_splits intro: converse_rtranclp_into_rtranclp)
qed simp

definition start_network :: "u64 \<Rightarrow> u64 \<Rightarrow> network" where
  "start_network H tot = \<lparr>nodes = (\<lambda>a. BftEngine_new 0 H a tot), sent_prevotes = {}, sent_precommits = {}, decisions = {}\<rparr>"

lemma start_network_start: "tot = sum w V \<Longrightarrow> net_start V w G H (start_network H tot)"
  by (auto simp: net_start_def start_network_def)

definition pvote :: "u32 \<Rightarrow> string option \<Rightarrow> string \<Rightarrow> engine_event" where
  "pvote r h v = EvPrevote 1 \<lparr>pv_height = 7, pv_round = r, pv_block_hash = h, pv_validator = v, pv_signature = []\<rparr> 10"

definition pcommit :: "u32 \<Rightarrow> string option \<Rightarrow> string \<Rightarrow> engine_event" where
  "pcommit r h v = EvPrecommit \<lparr>pc_height = 7, pc_round = r, pc_block_hash = h, pc_validator = v, pc_signature = []\<rparr> 10"

definition pair_events :: "net_event list" where
  "pair_events = [AtNode ''A'' (EvOwnProposal 1 ''x''), AtNode ''B'' (EvOwnProposal 1 ''x''),
     AtNode ''A'' (pvote 0 (Some ''x'') ''A''), AtNode ''A'' (pvote 0 (Some ''x'') ''B''),
     AtNode ''B'' (pvote 0 (Some ''x'') ''A''), AtNode ''B'' (pvote 0 (Some ''x'') ''B''),
     AtNode ''A'' (pcommit 0 (Some ''x'') ''A''), AtNode ''A'' (pcommit 0 (Some ''x'') ''B''),
     AtNode ''B'' (pcommit 0 (Some ''x'') ''A''), AtNode ''B'' (pcommit 0 (Some ''x'') ''B'')]"

lemmas net_eval = after_step_def start_network_def pvote_def pcommit_def

lemma pair_run:
  "\<exists>N'. net_run False {''A'', ''B''} (\<lambda>_. 10) {''A'', ''B''} 7 pair_events (start_network 7 20) = Some N' \<and>
     decisions N' = {(''A'', 0, ''x''), (''B'', 0, ''x'')}"
  by (simp add: pair_events_def net_eval bft_eval insert_commute)

section \<open>Agreement\<close>

text \<open>
  Agreement (C1): when faulty validators hold at most a third of the stake, no two correct validators
  finalize different blocks at a height, in the same round or in different ones, however the network
  delays, reorders, repeats or loses votes, as long as no correct validator drops a stale lock.
\<close>

theorem agreement:
  assumes "net_start V w G H N" and "(net_step False V w G H)\<^sup>*\<^sup>* N N'"
    and "finite V" and "sum w V \<le> U64_MAX" and "3 * sum w (V - G) \<le> sum w V"
    and "(a, r, b) \<in> decisions N'" and "(a', r', b') \<in> decisions N'"
  shows "b = b'"
proof -
  have inv: "net_inv V w G H N'" using net_reach_inv [OF assms(3,2,1)] .
  then have "precommit_quorum_sent V w N' r b" "precommit_quorum_sent V w N' r' b'"
    using assms(6,7) by (auto simp: net_inv_def)
  then show ?thesis
    using decisions_agree_le [OF inv assms(3-5), of r b r' b'] decisions_agree_le [OF inv assms(3-5), of r' b' r b]
    by (cases "r \<le> r'") auto
qed

theorem agreement_witness:
  "\<exists>N'. (net_step False {''A'', ''B''} (\<lambda>_. 10) {''A'', ''B''} 7)\<^sup>*\<^sup>* (start_network 7 20) N' \<and>
     {b. \<exists>a r. (a, r, b) \<in> decisions N'} = {''x''}"
proof -
  obtain N' where run: "net_run False {''A'', ''B''} (\<lambda>_. 10) {''A'', ''B''} 7 pair_events (start_network 7 20) = Some N'"
      and dec: "decisions N' = {(''A'', 0, ''x''), (''B'', 0, ''x'')}"
    using pair_run by blast
  note reach = net_run_reach [OF run]
  have start: "net_start {''A'', ''B''} (\<lambda>_. 10) {''A'', ''B''} 7 (start_network 7 20)"
    by (rule start_network_start) simp
  have mem: "(''A'', 0, ''x'') \<in> decisions N'" using dec by simp
  have "''x'' = b" if "(a, r, b) \<in> decisions N'" for a r b
    by (rule agreement [OF start reach _ _ _ mem that]) (simp_all add: U64_MAX_def)
  with reach mem show ?thesis by blast
qed

section \<open>Dropping a stale lock\<close>

text \<open>
  Four validators with equal stake, of which \<open>B\<close> is faulty. In round 0 everybody but \<open>D\<close> gets the
  proposal \<open>x\<close>; \<open>A\<close> and \<open>D\<close> see the prevote supermajority, and \<open>A\<close> finalizes \<open>x\<close>. The others do not hear
  of it and move on to round 17, where \<open>B\<close> proposes \<open>y\<close>: \<open>D\<close> holds a lock on \<open>x\<close> without its bytes and
  drops it.
\<close>

definition fork_registry :: stake_registry where
  "fork_registry = StakeRegistry_new\<lparr>active_set := [''B'', ''C'', ''D'', ''A'']\<rparr>"

definition fork_round_0 :: "net_event list" where
  "fork_round_0 =
    [AtNode ''A'' (EvStash ''x'' [1]), AtNode ''A'' (EvOwnProposal 1 ''x''),
     AtNode ''C'' (EvStash ''x'' [1]), AtNode ''C'' (EvProposal 1 ''x'' ''A'' fork_registry),
     AtNode ''D'' (EvTimeout 1), FaultyPrevote ''B'' 0 ''x'',
     AtNode ''A'' (pvote 0 (Some ''x'') ''A''), AtNode ''A'' (pvote 0 (Some ''x'') ''B''),
     AtNode ''A'' (pvote 0 (Some ''x'') ''C''),
     AtNode ''D'' (pvote 0 None ''D''), AtNode ''D'' (pvote 0 (Some ''x'') ''A''),
     AtNode ''D'' (pvote 0 (Some ''x'') ''B''), AtNode ''D'' (pvote 0 (Some ''x'') ''C''),
     FaultyPrecommit ''B'' 0 ''x'',
     AtNode ''A'' (pcommit 0 (Some ''x'') ''A''), AtNode ''A'' (pcommit 0 (Some ''x'') ''B''),
     AtNode ''A'' (pcommit 0 (Some ''x'') ''D'')]"

definition fork_round_17 :: "net_event list" where
  "fork_round_17 =
    [AtNode ''C'' (EvProposal 3 ''y'' ''B'' fork_registry), AtNode ''D'' (EvProposal 3 ''y'' ''B'' fork_registry),
     FaultyPrevote ''B'' 17 ''y'',
     AtNode ''C'' (pvote 17 (Some ''y'') ''B''), AtNode ''C'' (pvote 17 (Some ''y'') ''C''),
     AtNode ''C'' (pvote 17 (Some ''y'') ''D''),
     AtNode ''D'' (pvote 17 (Some ''y'') ''B''), AtNode ''D'' (pvote 17 (Some ''y'') ''C''),
     AtNode ''D'' (pvote 17 (Some ''y'') ''D''),
     FaultyPrecommit ''B'' 17 ''y'',
     AtNode ''D'' (pcommit 17 (Some ''y'') ''B''), AtNode ''D'' (pcommit 17 (Some ''y'') ''C''),
     AtNode ''D'' (pcommit 17 (Some ''y'') ''D'')]"

definition fork_events :: "net_event list" where
  "fork_events = fork_round_0 @ replicate 17 (AtNode ''C'' (EvAdvanceRound 2)) @
     replicate 17 (AtNode ''D'' (EvAdvanceRound 2)) @ fork_round_17"

text \<open>An engine after \<open>n\<close> more rounds.\<close>

definition advanced :: "nat \<Rightarrow> nat \<Rightarrow> bft_engine \<Rightarrow> bft_engine" where
  "advanced n now e = e\<lparr>bft_state := (state_advance_round (bft_state e))\<lparr>round := round (bft_state e) + n\<rparr>,
     collector := collector_reset (collector e), phase_start := now, round_start := now,
     pending_prevote := None, pending_precommit := None\<rparr>"

lemma advance_advanced:
  "round (bft_state e) < U32_MAX \<Longrightarrow> advance_round now e = advanced 1 now e"
  "round (bft_state e) + n < U32_MAX \<Longrightarrow> advance_round now (advanced n now e) = advanced (Suc n) now e"
  by (simp_all add: advance_round_def advanced_def state_advance_round_def saturating_add_u32_def collector_reset_def)

lemma net_run_append:
  "net_run relax V w G H (xs @ ys) N =
    (case net_run relax V w G H xs N of None \<Rightarrow> None | Some N' \<Rightarrow> net_run relax V w G H ys N')"
  by (induction xs arbitrary: N) auto

lemma network_id [simp]:
  "N\<lparr>nodes := f, sent_prevotes := sent_prevotes N, sent_precommits := sent_precommits N, decisions := decisions N\<rparr>
    = N\<lparr>nodes := f\<rparr>"
  by (cases N) simp

lemma net_run_advance:
  assumes "a \<in> G" and "0 < n" and "round (bft_state (nodes N a)) + n \<le> U32_MAX"
  shows "net_run relax V w G H (replicate n (AtNode a (EvAdvanceRound now))) N =
    Some (N\<lparr>nodes := (nodes N)(a := advanced n now (nodes N a))\<rparr>)"
  using assms(2,3)
proof (induction n)
  case (Suc n)
  note IH = Suc.IH and prems = Suc.prems
  show ?case
  proof (cases n)
    case 0
    with prems assms(1) show ?thesis by (simp add: after_step_def advance_advanced fun_upd_def)
  next
    case (Suc m)
    let ?N = "N\<lparr>nodes := (nodes N)(a := advanced n now (nodes N a))\<rparr>"
    have "round (bft_state (advanced n now (nodes N a))) = round (bft_state (nodes N a)) + n"
      by (simp add: advanced_def)
    with prems have last: "net_run relax V w G H [AtNode a (EvAdvanceRound now)] ?N =
        Some (N\<lparr>nodes := (nodes N)(a := advanced (Suc n) now (nodes N a))\<rparr>)"
      using assms(1) by (simp add: after_step_def advance_advanced(2))
    have rep: "replicate (Suc n) (AtNode a (EvAdvanceRound now)) =
        replicate n (AtNode a (EvAdvanceRound now)) @ [AtNode a (EvAdvanceRound now)]"
      by (simp add: replicate_append_same)
    have "net_run relax V w G H (replicate n (AtNode a (EvAdvanceRound now))) N = Some ?N"
      by (rule IH) (use prems Suc in simp_all)
    then show ?thesis unfolding rep net_run_append using last by (simp only: option.case)
  qed
qed simp

lemmas fork_eval = on_proposal_def weighted_proposer_def get_validator_def fork_registry_def StakeRegistry_new_def
  stash_proposal_bytes_def on_timeout_def advance_round_def state_advance_round_def collector_reset_def
  STALE_LOCK_ROUND_GAP_def

definition resting :: "string \<Rightarrow> string option \<Rightarrow> bft_engine" where
  "resting a l = (BftEngine_new 2 7 a 40)\<lparr>bft_state := (BftRoundState_new 7 17 40)
     \<lparr>locked_hash := l, locked_round := map_option (\<lambda>_. 0) l\<rparr>\<rparr>"

lemma fork_run_0:
  "\<exists>N'. net_run True {''A'', ''B'', ''C'', ''D''} (\<lambda>_. 10) {''A'', ''C'', ''D''} 7 fork_round_0 (start_network 7 40) = Some N' \<and>
     round (bft_state (nodes N' ''C'')) = 0 \<and> round (bft_state (nodes N' ''D'')) = 0 \<and>
     advanced 17 2 (nodes N' ''C'') = resting ''C'' None \<and> advanced 17 2 (nodes N' ''D'') = resting ''D'' (Some ''x'') \<and>
     decisions N' = {(''A'', 0, ''x'')}"
  by (simp add: fork_round_0_def net_eval bft_eval fork_eval advanced_def resting_def)

lemma fork_run_17:
  assumes "nodes N ''C'' = resting ''C'' None" and "nodes N ''D'' = resting ''D'' (Some ''x'')"
  shows "\<exists>N'. net_run True {''A'', ''B'', ''C'', ''D''} (\<lambda>_. 10) {''A'', ''C'', ''D''} 7 fork_round_17 N = Some N' \<and>
     decisions N' = insert (''D'', 17, ''y'') (decisions N)"
  using assms by (simp add: fork_round_17_def net_eval bft_eval fork_eval resting_def)

text \<open>
  Dropping a stale lock can fork the chain (C5): with four validators of equal stake of which one is
  faulty, there is a run in which correct validators only do what the engine does, and two of them
  finalize different blocks at the same height.
\<close>

theorem stale_lock_forks:
  "\<exists>N'. net_start {''A'', ''B'', ''C'', ''D''} (\<lambda>_. 10) {''A'', ''C'', ''D''} 7 (start_network 7 40) \<and>
     (net_step True {''A'', ''B'', ''C'', ''D''} (\<lambda>_. 10) {''A'', ''C'', ''D''} 7)\<^sup>*\<^sup>* (start_network 7 40) N' \<and>
     (''A'', 0, ''x'') \<in> decisions N' \<and> (''D'', 17, ''y'') \<in> decisions N'"
proof -
  let ?run = "net_run True {''A'', ''B'', ''C'', ''D''} (\<lambda>_. 10) {''A'', ''C'', ''D''} 7"
  obtain N0 where n0: "?run fork_round_0 (start_network 7 40) = Some N0"
      "round (bft_state (nodes N0 ''C'')) = 0" "round (bft_state (nodes N0 ''D'')) = 0"
      "advanced 17 2 (nodes N0 ''C'') = resting ''C'' None" "advanced 17 2 (nodes N0 ''D'') = resting ''D'' (Some ''x'')"
      "decisions N0 = {(''A'', 0, ''x'')}"
    using fork_run_0 by blast
  define N1 where "N1 = N0\<lparr>nodes := (nodes N0)(''C'' := resting ''C'' None)\<rparr>"
  define N2 where "N2 = N1\<lparr>nodes := (nodes N1)(''D'' := resting ''D'' (Some ''x''))\<rparr>"
  have n1: "?run (replicate 17 (AtNode ''C'' (EvAdvanceRound 2))) N0 = Some N1"
    using net_run_advance [of "''C''" "{''A'', ''C'', ''D''}" 17 N0] n0 by (simp add: N1_def U32_MAX_def)
  have "nodes N1 ''D'' = nodes N0 ''D''" by (simp add: N1_def)
  then have n2: "?run (replicate 17 (AtNode ''D'' (EvAdvanceRound 2))) N1 = Some N2"
    using net_run_advance [of "''D''" "{''A'', ''C'', ''D''}" 17 N1] n0 by (simp add: N2_def U32_MAX_def)
  have nodes: "nodes N2 ''C'' = resting ''C'' None" "nodes N2 ''D'' = resting ''D'' (Some ''x'')"
      and dec: "decisions N2 = {(''A'', 0, ''x'')}"
    using n0 by (simp_all add: N1_def N2_def)
  obtain N3 where n3: "?run fork_round_17 N2 = Some N3" "decisions N3 = insert (''D'', 17, ''y'') (decisions N2)"
    using fork_run_17 [OF nodes] by blast
  have "?run fork_events (start_network 7 40) = Some N3"
    unfolding fork_events_def by (simp only: net_run_append n0(1) n1 n2 n3(1) option.case)
  from net_run_reach [OF this] n3(2) dec show ?thesis
    using start_network_start [of 40 "\<lambda>_. 10" "{''A'', ''B'', ''C'', ''D''}" "{''A'', ''C'', ''D''}" 7] by auto
qed

end
