(* ===== verification/Bft_Rounds.thy ===== *)
theory Bft_Rounds
  imports Bft_Tally
begin

text \<open>
  Round changes and the cached block: catching up with the peers' round, the round that peers with
  more than a third of the stake have reached, and the bytes kept for the locked block.
\<close>

section \<open>Catching up\<close>

lemma catch_up_loop_fields:
  "round (bft_state e) < target \<Longrightarrow> target \<le> U32_MAX \<Longrightarrow>
   catch_up_loop target e = e\<lparr>bft_state := (state_advance_round (bft_state e))\<lparr>round := target\<rparr>,
     collector := collector_reset (collector e), pending_prevote := None, pending_precommit := None\<rparr>"
proof (induction target e rule: catch_up_loop.induct)
  case (1 target e)
  define e1 where "e1 = e\<lparr>bft_state := state_advance_round (bft_state e),
    collector := collector_reset (collector e), pending_prevote := None, pending_precommit := None\<rparr>"
  from 1(2,3) have cond: "round (bft_state e) < target \<and> round (bft_state e) < U32_MAX" by simp
  have eq: "catch_up_loop target e = catch_up_loop target e1"
    using cond by (subst catch_up_loop.simps) (simp add: e1_def)
  have r1: "round (bft_state e1) = Suc (round (bft_state e))"
    using cond by (simp add: e1_def state_advance_round_def saturating_add_u32_def)
  show ?case
  proof (cases "round (bft_state e1) < target")
    case True
    then have "catch_up_loop target e1 = e1\<lparr>bft_state := (state_advance_round (bft_state e1))\<lparr>round := target\<rparr>,
        collector := collector_reset (collector e1), pending_prevote := None, pending_precommit := None\<rparr>"
      using 1(1) [OF cond] 1(3) by (simp add: e1_def)
    then show ?thesis
      unfolding eq by (simp add: e1_def state_advance_round_def collector_reset_def)
  next
    case False
    with r1 1(2) have t: "target = Suc (round (bft_state e))" by simp
    then have "catch_up_loop target e1 = e1"
      using r1 by (subst catch_up_loop.simps) simp
    then show ?thesis
      using t cond unfolding eq by (simp add: e1_def state_advance_round_def saturating_add_u32_def)
  qed
qed

text \<open>
  Catching up enters the target round in silence (C30): the loop ends for every target round, and
  the engine is then at the target round in the propose phase, with no votes recorded or pending and
  with its lock kept. No prevote is ever returned, so a round status never makes the engine vote.
\<close>

theorem catch_up_enters_target:
  assumes "round (bft_state e) < target" and "target \<le> U32_MAX"
  shows "fst (catch_up_round now target reg e) = None \<and>
    bft_state (snd (catch_up_round now target reg e)) = (BftRoundState_new (height (bft_state e)) target
      (total_active_stake (bft_state e)))\<lparr>locked_hash := locked_hash (bft_state e),
        locked_round := locked_round (bft_state e), locked_block := locked_block (bft_state e)\<rparr> \<and>
    pending_prevote (snd (catch_up_round now target reg e)) = None \<and>
    pending_precommit (snd (catch_up_round now target reg e)) = None \<and>
    (\<forall>st stake v. fst (on_round_status_weighted now st stake reg e) \<noteq> BroadcastPrevote v) \<and>
    (\<forall>st v. fst (on_round_status now st reg e) \<noteq> BroadcastPrevote v)"
proof -
  have none: "catch_up_round now t reg e' = (None, snd (catch_up_round now t reg e'))" for t e'
    by (simp add: catch_up_round_def)
  have "fst (on_round_status_weighted now st stake reg e) \<noteq> BroadcastPrevote v" for st stake v
    unfolding on_round_status_weighted_def Let_def by (subst none) (simp split: option.split)
  moreover have "fst (on_round_status now st reg e) \<noteq> BroadcastPrevote v" for st v
    unfolding on_round_status_def by (subst none) simp
  moreover have "bft_state (snd (catch_up_round now target reg e)) = (BftRoundState_new (height (bft_state e)) target
      (total_active_stake (bft_state e)))\<lparr>locked_hash := locked_hash (bft_state e),
        locked_round := locked_round (bft_state e), locked_block := locked_block (bft_state e)\<rparr>"
    using assms by (simp add: catch_up_round_def catch_up_loop_fields state_advance_round_def BftRoundState_new_def)
  ultimately show ?thesis
    using assms by (simp add: catch_up_round_def catch_up_loop_fields)
qed

theorem catch_up_enters_target_witness:
  "round (bft_state (snd (catch_up_round 5 3 StakeRegistry_new (BftEngine_new 0 7 ''a'' 10)))) = 3"
proof -
  have "round (bft_state (BftEngine_new 0 7 ''a'' 10)) < 3"
    by (simp add: BftEngine_new_def BftRoundState_new_def)
  from catch_up_enters_target [OF this, of 5 StakeRegistry_new] show ?thesis
    by (simp add: U32_MAX_def BftRoundState_new_def)
qed

section \<open>The round of the peers\<close>

definition stake_from :: "u32 \<Rightarrow> (u32 \<times> u64) list \<Rightarrow> nat" where
  "stake_from r peers = sum_list (map snd (filter (\<lambda>p. r \<le> fst p) peers))"

lemma stake_from_antimono: "r \<le> r' \<Longrightarrow> stake_from r' peers \<le> stake_from r peers"
  by (induction peers) (auto simp: stake_from_def)

lemma stake_from_mset: "mset ps = mset qs \<Longrightarrow> stake_from r ps = stake_from r qs"
proof -
  assume "mset ps = mset qs"
  then have "mset (map snd (filter (\<lambda>p. r \<le> fst p) ps)) = mset (map snd (filter (\<lambda>p. r \<le> fst p) qs))"
    by (simp only: mset_map mset_filter)
  then show ?thesis
    unfolding stake_from_def by (simp only: sum_mset_sum_list [symmetric])
qed

lemma stake_from_higher: "q < r \<Longrightarrow> stake_from r (filter (\<lambda>(x, w). q < x) peers) = stake_from r peers"
  by (induction peers) (auto simp: stake_from_def)

text \<open>
  The scan from the highest round down: the stake already passed is that of all peers above the ones
  still to come.
\<close>

lemma first_round_reaching_Some:
  assumes "sorted_wrt (\<lambda>p q. fst q \<le> fst p) (done @ peers)"
    and "acc = min (sum_list (map snd done)) U64_MAX" and "t \<le> U64_MAX" and "sum_list (map snd done) < t"
    and "first_round_reaching t acc peers = Some r"
  shows "r \<in> fst ` set peers \<and> t \<le> stake_from r (done @ peers) \<and> (\<forall>r' > r. stake_from r' (done @ peers) < t)"
  using assms
proof (induction peers arbitrary: "done" acc)
  case (Cons p peers)
  obtain q w where p: "p = (q, w)" by force
  show ?case
  proof (cases "t \<le> saturating_add_u64 acc w")
    case True
    with Cons.prems p have r: "r = q" by simp
    have reach: "t \<le> sum_list (map snd done) + w"
      using True Cons.prems(2,3) by (auto simp: saturating_add_u64_def min_def split: if_splits)
    have "filter (\<lambda>p. q \<le> fst p) (done @ p # peers) = done @ p # filter (\<lambda>p. q \<le> fst p) peers"
      using Cons.prems(1) p by (auto simp: sorted_wrt_append intro: filter_True)
    then have "t \<le> stake_from q (done @ p # peers)"
      using reach p by (simp add: stake_from_def)
    moreover have "stake_from r' (done @ p # peers) < t" if "q < r'" for r'
    proof -
      have "filter (\<lambda>p. r' \<le> fst p) (p # peers) = []"
        using Cons.prems(1) p that by (auto simp: sorted_wrt_append filter_empty_conv)
      then have "stake_from r' (done @ p # peers) = stake_from r' done" by (simp add: stake_from_def)
      also have "\<dots> \<le> sum_list (map snd done)" by (induction "done") (auto simp: stake_from_def)
      finally show ?thesis using Cons.prems(4) by simp
    qed
    ultimately show ?thesis using r p by simp
  next
    case False
    have "saturating_add_u64 acc w = min (sum_list (map snd (done @ [p]))) U64_MAX"
      using Cons.prems(2) p by (simp add: saturating_add_u64_def min_def)
    moreover have "sum_list (map snd (done @ [p])) < t"
      using False Cons.prems(2,3) p by (auto simp: saturating_add_u64_def min_def split: if_splits)
    ultimately show ?thesis
      using Cons.IH [of "done @ [p]" "saturating_add_u64 acc w"] Cons.prems False p by auto
  qed
qed simp

lemma first_round_reaching_None:
  assumes "acc = min s U64_MAX" and "t \<le> U64_MAX" and "s < t"
  shows "first_round_reaching t acc peers = None \<longleftrightarrow> s + sum_list (map snd peers) < t"
  using assms
proof (induction peers arbitrary: acc s)
  case (Cons p peers)
  obtain q w where p: "p = (q, w)" by force
  have a: "saturating_add_u64 acc w = min (s + w) U64_MAX"
    using Cons.prems(1) by (simp add: saturating_add_u64_def min_def)
  show ?case
  proof (cases "t \<le> s + w")
    case True
    with Cons.prems p a show ?thesis by (simp add: min_def)
  next
    case False
    then show ?thesis using Cons.IH [OF a Cons.prems(2)] Cons.prems p a by (simp add: add.assoc)
  qed
qed simp

lemma sorted_higher_peers: "sorted_wrt (\<lambda>p q. fst q \<le> fst p) (higher_peers e)"
  unfolding higher_peers_def by (rule sorted_sort_by) auto

lemma stake_from_higher_peers:
  "round (bft_state e) < r \<Longrightarrow> stake_from r (higher_peers e) = stake_from r (hvalues (peer_rounds e))"
  using stake_from_higher [of "round (bft_state e)" r "hvalues (peer_rounds e)"]
  by (simp add: higher_peers_def stake_from_mset [OF mset_sort_by])

text \<open>
  The round to skip to: with stake to count, \<open>f_plus_one_round\<close> gives the largest round above
  our own that peers with more than a third of the stake have reached, and gives none exactly when
  the peers above our round have at most a third.
\<close>

theorem f_plus_one_round_exact:
  assumes "total_active_stake (bft_state e) \<le> U64_MAX" and "total_active_stake (bft_state e) \<noteq> 0"
  shows "(\<forall>r. f_plus_one_round e = Some r \<longrightarrow> round (bft_state e) < r \<and>
      total_active_stake (bft_state e) < 3 * stake_from r (hvalues (peer_rounds e)) \<and>
      (\<forall>r' > r. 3 * stake_from r' (hvalues (peer_rounds e)) \<le> total_active_stake (bft_state e))) \<and>
    (f_plus_one_round e = None \<longleftrightarrow>
      3 * stake_from (Suc (round (bft_state e))) (hvalues (peer_rounds e)) \<le> total_active_stake (bft_state e))"
proof -
  define t where "t = total_active_stake (bft_state e) div 3 + 1"
  have tle: "t \<le> U64_MAX" using assms(1) by (simp add: t_def U64_MAX_def)
  have thr: "t \<le> s \<longleftrightarrow> total_active_stake (bft_state e) < 3 * s" for s
    unfolding t_def by presburger
  have f: "f_plus_one_round e = first_round_reaching t 0 (higher_peers e)"
    using assms(2) by (simp add: f_plus_one_round_def t_def)
  have "round (bft_state e) < r \<and> total_active_stake (bft_state e) < 3 * stake_from r (hvalues (peer_rounds e)) \<and>
      (\<forall>r' > r. 3 * stake_from r' (hvalues (peer_rounds e)) \<le> total_active_stake (bft_state e))"
    if "f_plus_one_round e = Some r" for r
  proof -
    have s: "r \<in> fst ` set (higher_peers e) \<and> t \<le> stake_from r (higher_peers e) \<and>
        (\<forall>r' > r. stake_from r' (higher_peers e) < t)"
      using first_round_reaching_Some [of "[]" "higher_peers e" 0 t r] sorted_higher_peers [of e] tle that f
      by (simp add: t_def)
    then have above: "round (bft_state e) < r" by (auto simp: higher_peers_def)
    have "stake_from r' (higher_peers e) = stake_from r' (hvalues (peer_rounds e))" if "r \<le> r'" for r'
      using stake_from_higher_peers [of e r'] above that by simp
    with s above thr show ?thesis by (metis less_imp_le not_less order_refl)
  qed
  moreover have "f_plus_one_round e = None \<longleftrightarrow>
      3 * stake_from (Suc (round (bft_state e))) (hvalues (peer_rounds e)) \<le> total_active_stake (bft_state e)"
  proof -
    have "stake_from (Suc (round (bft_state e))) (higher_peers e) = sum_list (map snd (higher_peers e))"
      unfolding stake_from_def by (subst filter_True) (auto simp: higher_peers_def)
    then have "sum_list (map snd (higher_peers e)) = stake_from (Suc (round (bft_state e))) (hvalues (peer_rounds e))"
      using stake_from_higher_peers [of e "Suc (round (bft_state e))"] by simp
    then show ?thesis
      using first_round_reaching_None [of 0 0 t "higher_peers e"] tle f thr [of "sum_list (map snd (higher_peers e))"]
      by (simp add: t_def) linarith
  qed
  ultimately show ?thesis by blast
qed

definition example_peers :: bft_engine where
  "example_peers = (BftEngine_new 0 7 ''a'' 40)\<lparr>peer_rounds := [(''b'', 3, 10), (''c'', 5, 10), (''d'', 4, 10)]\<rparr>"

theorem f_plus_one_round_exact_witness:
  "f_plus_one_round example_peers = Some 4 \<and> 40 < 3 * stake_from 4 [(3, 10), (5, 10), (4, 10)]"
proof -
  have "f_plus_one_round example_peers = Some 4"
    by (simp add: f_plus_one_round_def higher_peers_def sort_by_def example_peers_def BftEngine_new_def
        BftRoundState_new_def saturating_add_u64_def U64_MAX_def)
  then show ?thesis
    using f_plus_one_round_exact [of example_peers]
    by (simp add: example_peers_def BftEngine_new_def BftRoundState_new_def U64_MAX_def)
qed

section \<open>The cached block\<close>

text \<open>\<open>good h bytes\<close> says that \<open>bytes\<close> encode the block with hash \<open>h\<close>.\<close>

definition cache_ok :: "(string \<Rightarrow> u8 list \<Rightarrow> bool) \<Rightarrow> bft_round_state \<Rightarrow> bool" where
  "cache_ok good s \<longleftrightarrow>
    (\<forall>h bytes. staging_block s = Some (h, bytes) \<longrightarrow> good h bytes) \<and>
    (\<forall>bytes. locked_block s = Some bytes \<longrightarrow> (\<exists>h. locked_hash s = Some h \<and> good h bytes))"

fun stash_good :: "(string \<Rightarrow> u8 list \<Rightarrow> bool) \<Rightarrow> engine_event \<Rightarrow> bool" where
  "stash_good good (EvStash h bytes) \<longleftrightarrow> good h bytes"
| "stash_good good _ \<longleftrightarrow> True"

lemma cache_emit [simp]:
  "cache_ok good (bft_state (snd (emit_prevote v e))) \<longleftrightarrow> cache_ok good (bft_state e)"
  "cache_ok good (bft_state (snd (emit_precommit u e))) \<longleftrightarrow> cache_ok good (bft_state e)"
  by (simp_all add: emit_prevote_def emit_precommit_def split: option.split)

lemma cache_relax: "cache_ok good s \<Longrightarrow> cache_ok good (relax_stale_lock h s)"
  by (auto simp: cache_ok_def relax_stale_lock_def stale_lock_def split: option.splits)

lemma cache_lock_on: "cache_ok good s \<Longrightarrow> cache_ok good (lock_on h s)"
  by (auto simp: cache_ok_def lock_on_def split: option.splits if_splits)

lemma cache_phase [simp]:
  "cache_ok good (s\<lparr>phase := p\<rparr>) \<longleftrightarrow> cache_ok good s" "cache_ok good (s\<lparr>proposed_hash := x\<rparr>) \<longleftrightarrow> cache_ok good s"
  "cache_ok good (s\<lparr>prevotes := pvs\<rparr>) \<longleftrightarrow> cache_ok good s" "cache_ok good (s\<lparr>precommits := pcs\<rparr>) \<longleftrightarrow> cache_ok good s"
  "cache_ok good (s\<lparr>phase := p, proposed_hash := x\<rparr>) \<longleftrightarrow> cache_ok good s"
  "cache_ok good (s\<lparr>our_prevote_cast := c\<rparr>) \<longleftrightarrow> cache_ok good s" "cache_ok good (s\<lparr>our_precommit_cast := c\<rparr>) \<longleftrightarrow> cache_ok good s"
  by (simp_all add: cache_ok_def)

lemma cache_accept: "cache_ok good (bft_state e) \<Longrightarrow> cache_ok good (bft_state (snd (accept_proposal now h e)))"
  using cache_relax [of good "bft_state e" h] by (simp add: accept_proposal_def)

lemma cache_quorum: "cache_ok good (bft_state e) \<Longrightarrow> cache_ok good (bft_state (snd (prevote_quorum now h e)))"
  using cache_lock_on [of good "(bft_state e)\<lparr>phase := Precommit\<rparr>"]
  by (simp add: prevote_quorum_def split: option.split)

lemma cache_count:
  assumes "cache_ok good (bft_state e)"
  shows "cache_ok good (bft_state (snd (count_prevote now v stake e)))"
    "cache_ok good (bft_state (snd (count_precommit u stake e)))"
proof -
  define e' where "e' = e\<lparr>bft_state := (bft_state e)\<lparr>prevotes :=
      hput (prevotes (bft_state e)) (pv_validator v) (pv_block_hash v, stake)\<rparr>,
      collector := collector_add_prevote (pv_block_hash v) stake (collector e)\<rparr>"
  have "cache_ok good (bft_state e')" using assms by (simp add: e'_def)
  then show "cache_ok good (bft_state (snd (count_prevote now v stake e)))"
    unfolding count_prevote_def Let_def e'_def [symmetric] using cache_quorum by (simp split: option.split)
  show "cache_ok good (bft_state (snd (count_precommit u stake e)))"
    using assms by (simp add: count_precommit_def split: option.split)
qed

lemma cache_votes:
  assumes "cache_ok good (bft_state e)"
  shows "cache_ok good (bft_state (snd (on_prevote_weighted now v stake e)))"
    "cache_ok good (bft_state (snd (on_precommit_weighted u stake e)))"
proof -
  have "cache_ok good (bft_state (if own then e\<lparr>pending_prevote := None\<rparr> else e))"
       "cache_ok good (bft_state (if own then e\<lparr>pending_precommit := None\<rparr> else e))" for own
    using assms by simp_all
  then show "cache_ok good (bft_state (snd (on_prevote_weighted now v stake e)))"
    "cache_ok good (bft_state (snd (on_precommit_weighted u stake e)))"
    unfolding on_prevote_weighted_def on_precommit_weighted_def Let_def
    using assms cache_count by (simp_all only: if_distrib [of snd] snd_conv split: if_split) simp_all
qed

lemma cache_catch_up:
  assumes "cache_ok good (bft_state e)"
  shows "cache_ok good (bft_state (snd (catch_up_round now target reg e)))"
proof -
  have adv: "cache_ok good (state_advance_round s)" if "cache_ok good s" for s
    using that by (simp add: cache_ok_def state_advance_round_def)
  have "cache_ok good (bft_state (catch_up_loop target e))"
    using assms
  proof (induction target e rule: catch_up_loop.induct)
    case (1 target e)
    show ?case
    proof (cases "round (bft_state e) < target \<and> round (bft_state e) < U32_MAX")
      case False
      then have "catch_up_loop target e = e" by (subst catch_up_loop.simps) (simp only: if_False)
      with 1(2) show ?thesis by simp
    next
      case True
      then show ?thesis
        using 1(1) [OF True] adv [OF 1(2)] by (subst catch_up_loop.simps) simp
    qed
  qed
  with assms show ?thesis by (simp add: catch_up_round_def)
qed

lemma cache_step:
  assumes ok: "cache_ok good (bft_state e)" and st: "stash_good good ev"
  shows "cache_ok good (bft_state (snd (engine_step ev e)))"
proof (cases ev)
  case (EvProposal now h proposer reg)
  then show ?thesis using ok cache_accept [OF ok] by (simp add: on_proposal_def split: option.split)
next
  case (EvOwnProposal now h)
  then show ?thesis using ok cache_accept [OF ok] by (simp add: on_own_proposal_def split: option.split)
next
  case (EvTimeout now)
  then show ?thesis using ok by (simp add: on_timeout_def split: option.split bft_phase.split)
next
  case (EvRoundStatus now rs stake reg)
  have "cache_ok good (bft_state (record_peer_round rs stake e))"
    using ok by (simp add: record_peer_round_def)
  with EvRoundStatus ok cache_catch_up show ?thesis
    by (simp add: on_round_status_weighted_def case_prod_beta split: option.split)
next
  case (EvPlainRoundStatus now rs reg)
  with ok cache_catch_up [OF ok] show ?thesis
    by (simp add: on_round_status_def case_prod_beta split: option.split)
next
  case (EvStash h bytes)
  with ok st show ?thesis by (simp add: stash_proposal_bytes_def cache_ok_def)
qed (use ok cache_votes [OF ok] cache_catch_up [OF ok] in
  \<open>simp_all add: mark_prevote_cast_def mark_precommit_cast_def advance_round_def state_advance_round_def cache_ok_def\<close>)

lemma cache_run:
  "cache_ok good (bft_state e) \<Longrightarrow> \<forall>ev \<in> set evs. stash_good good ev \<Longrightarrow>
   cache_ok good (bft_state (snd (engine_run evs e)))"
  by (induction evs arbitrary: e) (simp_all add: case_prod_beta cache_step)

text \<open>
  A re-proposed block is the locked one (C29): in every run of a new engine whose stashed bytes encode
  the block they are stashed for, the bytes handed out for a re-proposal encode the block the engine
  is locked on, also after the lock moves to another block or a stale lock is dropped.
\<close>

theorem repropose_bytes_match_lock:
  assumes "\<forall>ev \<in> set evs. stash_good good ev"
    and "locked_proposal_bytes (snd (engine_run evs (BftEngine_new now h addr tot))) = Some (b, bytes)"
  shows "locked_hash (bft_state (snd (engine_run evs (BftEngine_new now h addr tot)))) = Some b \<and> good b bytes"
proof -
  have "cache_ok good (bft_state (BftEngine_new now h addr tot))"
    by (simp add: cache_ok_def BftEngine_new_def BftRoundState_new_def)
  from cache_run [OF this assms(1)] assms(2) show ?thesis
    by (auto simp: cache_ok_def locked_proposal_bytes_def split: option.splits)
qed

theorem repropose_bytes_match_lock_witness:
  "locked_proposal_bytes (snd (engine_run (EvStash ''x'' [1, 2] # solo_events) (BftEngine_new 0 7 ''a'' 10)))
     = Some (''x'', [1, 2]) \<and>
   locked_hash (bft_state (snd (engine_run (EvStash ''x'' [1, 2] # solo_events) (BftEngine_new 0 7 ''a'' 10)))) = Some ''x''"
proof -
  have bytes: "locked_proposal_bytes (snd (engine_run (EvStash ''x'' [1, 2] # solo_events) (BftEngine_new 0 7 ''a'' 10)))
      = Some (''x'', [1, 2])"
    by (simp add: solo_events_def bft_eval stash_proposal_bytes_def locked_proposal_bytes_def)
  have "\<forall>ev \<in> set (EvStash ''x'' [1, 2] # solo_events). stash_good (\<lambda>h bs. h = ''x'' \<and> bs = [1, 2]) ev"
    by (simp add: solo_events_def)
  from repropose_bytes_match_lock [OF this bytes] bytes show ?thesis by simp
qed

end
