(* ===== verification/Encoding.thy ===== *)
theory Encoding
  imports Rust_Prelude
begin

text \<open>
  Byte encodings that the state digests feed to the hash function. An encoding is uniquely readable
  when a value and the bytes after it can be told from the whole byte string. Values of a fixed
  width and length-prefixed strings are, and pairs and counted sequences of uniquely readable
  encodings are again.
\<close>

locale encoding =
  fixes enc :: "'a \<Rightarrow> u8 list" and ok :: "'a \<Rightarrow> bool"
  assumes read_unique: "ok x \<Longrightarrow> ok y \<Longrightarrow> enc x @ r = enc y @ s \<Longrightarrow> x = y \<and> r = s"
begin

lemma read_list_unique:
  "length xs = length ys \<Longrightarrow> list_all ok xs \<Longrightarrow> list_all ok ys \<Longrightarrow>
    concat (map enc xs) @ r = concat (map enc ys) @ s \<Longrightarrow> xs = ys \<and> r = s"
proof (induction xs ys rule: list_induct2)
  case (Cons x xs y ys)
  then have "x = y \<and> concat (map enc xs) @ r = concat (map enc ys) @ s"
    by (intro read_unique) simp_all
  with Cons show ?case by simp
qed simp

lemma read_cong:
  "ok x \<Longrightarrow> ok y \<Longrightarrow> enc x @ r = enc y @ s \<longleftrightarrow> x = y \<and> r = s"
  using read_unique by blast

end

locale encoding_pair = fst_enc: encoding enc1 ok1 + snd_enc: encoding enc2 ok2
  for enc1 :: "'a \<Rightarrow> u8 list" and ok1 and enc2 :: "'b \<Rightarrow> u8 list" and ok2
begin

lemma read_pair_unique:
  assumes "ok1 (fst p) \<and> ok2 (snd p)" "ok1 (fst q) \<and> ok2 (snd q)"
    and eq: "(enc1 (fst p) @ enc2 (snd p)) @ r = (enc1 (fst q) @ enc2 (snd q)) @ s"
  shows "p = q \<and> r = s"
proof -
  from eq have "fst p = fst q \<and> enc2 (snd p) @ r = enc2 (snd q) @ s"
    using assms by (intro fst_enc.read_unique) simp_all
  moreover from this have "snd p = snd q \<and> r = s"
    using assms by (intro snd_enc.read_unique) simp_all
  ultimately show ?thesis by (simp add: prod_eq_iff)
qed

end

sublocale encoding_pair \<subseteq> pair: encoding "\<lambda>p. enc1 (fst p) @ enc2 (snd p)" "\<lambda>p. ok1 (fst p) \<and> ok2 (snd p)"
  by unfold_locales (rule read_pair_unique)

section \<open>Fixed widths and length-prefixed strings\<close>

definition be_u64 :: "u64 \<Rightarrow> u8 list" where
  "be_u64 n = be_bytes 8 n"

definition fits_u64 :: "u64 \<Rightarrow> bool" where
  "fits_u64 n \<longleftrightarrow> n \<le> U64_MAX"

lemma length_be_bytes [simp]: "length (be_bytes k n) = k"
  by (simp add: be_bytes_def)

lemma fixed_width_unique:
  "length (f x) = length (f y) \<Longrightarrow> f x @ r = f y @ s \<longleftrightarrow> f x = f y \<and> r = s"
  by simp

interpretation be64: encoding be_u64 fits_u64
  by unfold_locales (simp add: be_u64_def fits_u64_def be_bytes_def)

definition len_str :: "string \<Rightarrow> u8 list" where
  "len_str s = be_bytes 8 (length s) @ str_bytes s"

definition fits_len :: "'a list \<Rightarrow> bool" where
  "fits_len s \<longleftrightarrow> length s \<le> U64_MAX"

lemma length_str_bytes [simp]: "length (str_bytes s) = length s"
  by (simp add: str_bytes_def)

interpretation lstr: encoding len_str fits_len
proof
  fix x y :: string and r s
  assume x: "fits_len x" and y: "fits_len y" and eq: "len_str x @ r = len_str y @ s"
  from eq have "be_u64 (length x) @ (str_bytes x @ r) = be_u64 (length y) @ (str_bytes y @ s)"
    by (simp add: len_str_def be_u64_def)
  with x y have "length x = length y \<and> str_bytes x @ r = str_bytes y @ s"
    by (intro be64.read_unique) (simp_all add: fits_len_def fits_u64_def)
  then show "x = y \<and> r = s" using fixed_width_unique [of str_bytes x y r s] by simp
qed

interpretation str_u64: encoding_pair len_str fits_len be_u64 fits_u64
  by unfold_locales

interpretation str_str_u64: encoding_pair len_str fits_len "\<lambda>p. len_str (fst p) @ be_u64 (snd p)"
    "\<lambda>p. fits_len (fst p) \<and> fits_u64 (snd p)"
  by unfold_locales

section \<open>Sorted listings of maps\<close>

lemma sort_by_unique:
  assumes le: "\<And>x y. le x y \<or> le y x" "\<And>x y z. le x y \<Longrightarrow> le y z \<Longrightarrow> le x z"
    and anti: "\<And>x y. x \<in> set xs \<Longrightarrow> y \<in> set xs \<Longrightarrow> le x y \<Longrightarrow> le y x \<Longrightarrow> x = y"
    and d: "distinct xs" "distinct ys" and eq: "set xs = set ys"
  shows "sort_by le xs = sort_by le ys"
proof -
  have sorted: "sorted_wrt le (sort_by le zs)" for zs
    by (rule sorted_sort_by [of le]) (fact le)+
  have m: "mset (sort_by le xs) = mset (sort_by le ys)"
    using eq d by (simp add: set_eq_iff_mset_eq_distinct)
  show ?thesis by (rule sorted_wrt_unique [OF sorted sorted m]) (auto intro: anti)
qed

end
