(* ===== verification/Src20.thy ===== *)
theory Src20
  imports Encoding
begin

text \<open>
  SRC-20 tokens: \<open>sentrix-core/src/vm.rs\<close>. SHA-256 (\<open>sha\<close>) and hexadecimal encoding (\<open>hex\<close>) are
  parameters. The JSON parameters of a call are what \<open>as_str\<close> and \<open>as_u64\<close> give for a key, and the JSON
  replies are a datatype with one constructor per shape.
\<close>

section \<open>The contract\<close>

record src20_contract =
  contract_address :: string
  token_name :: string
  token_symbol :: string
  decimals :: u8
  token_owner :: string
  token_supply :: u64
  token_max_supply :: u64
  balances :: "(string, u64) hmap"
  allowances :: "(string, (string, u64) hmap) hmap"

definition SRC20Contract_new :: "string \<Rightarrow> string \<Rightarrow> string \<Rightarrow> u8 \<Rightarrow> string \<Rightarrow> u64 \<Rightarrow> src20_contract" where
  "SRC20Contract_new addr name symbol dec own max_supply =
    \<lparr>contract_address = addr, token_name = name, token_symbol = symbol, decimals = dec, token_owner = own,
     token_supply = 0, token_max_supply = max_supply, balances = [], allowances = []\<rparr>"

definition read_u64 :: "(string, u64) hmap \<Rightarrow> string \<Rightarrow> u64" where
  "read_u64 m k = (case hget m k of None \<Rightarrow> 0 | Some v \<Rightarrow> v)"

definition balance_of :: "src20_contract \<Rightarrow> string \<Rightarrow> u64" where
  "balance_of c address = read_u64 (balances c) address"

definition allowance :: "src20_contract \<Rightarrow> string \<Rightarrow> string \<Rightarrow> u64" where
  "allowance c owner spender =
    (case hget (allowances c) owner of None \<Rightarrow> 0 | Some m \<Rightarrow> read_u64 m spender)"

text \<open>\<open>entry(k).or_insert(0)\<close> followed by a checked update of the entry, which stays 0 when new and refused.\<close>

definition put_balance :: "src20_contract \<Rightarrow> string \<Rightarrow> u64 \<Rightarrow> src20_contract" where
  "put_balance c k v = c\<lparr>balances := hput (balances c) k v\<rparr>"

definition mint :: "src20_contract \<Rightarrow> string \<Rightarrow> string \<Rightarrow> u64 \<Rightarrow> unit result \<times> src20_contract" where
  "mint c caller to amount =
    (if caller \<noteq> token_owner c then (Err (UnauthorizedValidator ''only the contract owner can mint tokens''), c)
     else if to = [] \<or> amount = 0 then (Err (InvalidTransaction ''invalid mint params''), c)
     else if 0 < token_max_supply c \<and> U64_MAX < token_supply c + amount
     then (Err (Internal ''token supply overflow''), c)
     else if 0 < token_max_supply c \<and> token_max_supply c < token_supply c + amount
     then (Err (InvalidTransaction (''mint would exceed max_supply: '' @ show_nat (token_supply c) @ '' + '' @
             show_nat amount @ '' > '' @ show_nat (token_max_supply c))), c)
     else
       ok_or (checked_add_u64 (balance_of c to) amount) (Internal ''token balance overflow'')
         (put_balance c to (balance_of c to)) (\<lambda>b.
       let c1 = put_balance c to b
       in ok_or (checked_add_u64 (token_supply c1) amount) (Internal ''token supply overflow'') c1 (\<lambda>s.
       (Ok (), c1\<lparr>token_supply := s\<rparr>))))"

definition token_burn :: "src20_contract \<Rightarrow> string \<Rightarrow> u64 \<Rightarrow> unit result \<times> src20_contract" where
  "token_burn c from amount =
    (if from = [] \<or> amount = 0 then (Err (InvalidTransaction ''invalid burn params''), c)
     else if balance_of c from < amount then (Err (InsufficientBalance (balance_of c from) amount), c)
     else
       ok_or (checked_sub (balance_of c from) amount) (Internal ''token burn underflow'')
         (put_balance c from (balance_of c from)) (\<lambda>b.
       let c1 = put_balance c from b
       in ok_or (checked_sub (token_supply c1) amount) (Internal ''supply underflow'') c1 (\<lambda>s.
       (Ok (), c1\<lparr>token_supply := s\<rparr>))))"

definition token_transfer :: "src20_contract \<Rightarrow> string \<Rightarrow> string \<Rightarrow> u64 \<Rightarrow> unit result \<times> src20_contract" where
  "token_transfer c from to amount =
    (if from = [] \<or> to = [] \<or> amount = 0 then (Err (InvalidTransaction ''invalid transfer params''), c)
     else if from = to then (Err (InvalidTransaction ''cannot transfer to self''), c)
     else if balance_of c from < amount then (Err (InsufficientBalance (balance_of c from) amount), c)
     else
       ok_or (checked_sub (balance_of c from) amount) (Internal ''transfer underflow'')
         (put_balance c from (balance_of c from)) (\<lambda>b.
       let c1 = put_balance c from b
       in ok_or (checked_add_u64 (balance_of c1 to) amount) (Internal ''transfer overflow'')
            (put_balance c1 to (balance_of c1 to)) (\<lambda>b'.
       (Ok (), put_balance c1 to b'))))"

definition put_allowance :: "src20_contract \<Rightarrow> string \<Rightarrow> string \<Rightarrow> u64 \<Rightarrow> src20_contract" where
  "put_allowance c owner spender amount =
    (let m = (case hget (allowances c) owner of None \<Rightarrow> [] | Some m \<Rightarrow> m)
     in c\<lparr>allowances := hput (allowances c) owner (hput m spender amount)\<rparr>)"

definition approve :: "src20_contract \<Rightarrow> string \<Rightarrow> string \<Rightarrow> u64 \<Rightarrow> unit result \<times> src20_contract" where
  "approve c owner spender amount =
    (if owner = [] \<or> spender = [] then (Err (InvalidTransaction ''invalid approve params''), c)
     else if allowance c owner spender \<noteq> 0 \<and> amount \<noteq> 0
     then (Err (InvalidTransaction ''must set allowance to 0 before changing to non-zero value''), c)
     else (Ok (), put_allowance c owner spender amount))"

definition increase_allowance :: "src20_contract \<Rightarrow> string \<Rightarrow> string \<Rightarrow> u64 \<Rightarrow> unit result \<times> src20_contract" where
  "increase_allowance c owner spender delta =
    (if owner = [] \<or> spender = [] \<or> delta = 0
     then (Err (InvalidTransaction ''invalid increase_allowance params''), c)
     else
       ok_or (checked_add_u64 (allowance c owner spender) delta) (Internal ''allowance overflow'')
         (put_allowance c owner spender (allowance c owner spender)) (\<lambda>a.
       (Ok (), put_allowance c owner spender a)))"

definition decrease_allowance :: "src20_contract \<Rightarrow> string \<Rightarrow> string \<Rightarrow> u64 \<Rightarrow> unit result \<times> src20_contract" where
  "decrease_allowance c owner spender delta =
    (if owner = [] \<or> spender = [] \<or> delta = 0
     then (Err (InvalidTransaction ''invalid decrease_allowance params''), c)
     else
       ok_or (checked_sub (allowance c owner spender) delta) (InvalidTransaction ''allowance underflow'')
         (put_allowance c owner spender (allowance c owner spender)) (\<lambda>a.
       (Ok (), put_allowance c owner spender a)))"

definition transfer_from ::
  "src20_contract \<Rightarrow> string \<Rightarrow> string \<Rightarrow> string \<Rightarrow> u64 \<Rightarrow> unit result \<times> src20_contract" where
  "transfer_from c spender from to amount =
    (if spender = [] \<or> from = [] \<or> to = [] \<or> amount = 0
     then (Err (InvalidTransaction ''invalid transfer_from params''), c)
     else if allowance c from spender < amount
     then (Err (InvalidTransaction (''allowance '' @ show_nat (allowance c from spender) @ '' < amount '' @
             show_nat amount)), c)
     else if balance_of c from < amount then (Err (InsufficientBalance (balance_of c from) amount), c)
     else
       ok_or (checked_sub (allowance c from spender) amount) (Internal ''allowance underflow'') c (\<lambda>a.
       let c1 = put_allowance c from spender a
       in ok_or (checked_sub (balance_of c1 from) amount) (Internal ''transfer_from underflow'')
            (put_balance c1 from (balance_of c1 from)) (\<lambda>b.
       let c2 = put_balance c1 from b
       in ok_or (checked_add_u64 (balance_of c2 to) amount) (Internal ''transfer_from overflow'')
            (put_balance c2 to (balance_of c2 to)) (\<lambda>b'.
       (Ok (), put_balance c2 to b')))))"

definition holders :: "src20_contract \<Rightarrow> usize" where
  "holders c = length (filter (\<lambda>b. 0 < b) (hvalues (balances c)))"

definition list_holders :: "src20_contract \<Rightarrow> (string \<times> u64) list" where
  "list_holders c = sort_by (\<lambda>p q. snd q \<le> snd p) (filter (\<lambda>(a, b). 0 < b) (balances c))"

section \<open>Canonical hash\<close>

definition sorted_balances :: "src20_contract \<Rightarrow> (string \<times> u64) list" where
  "sorted_balances c = sort_by (\<lambda>p q. fst p \<le> fst q) (balances c)"

definition flat_allowances :: "src20_contract \<Rightarrow> (string \<times> string \<times> u64) list" where
  "flat_allowances c = concat (map (\<lambda>(own, m). map (\<lambda>(sp, v). (own, sp, v)) m) (allowances c))"

definition sorted_allowances :: "src20_contract \<Rightarrow> (string \<times> string \<times> u64) list" where
  "sorted_allowances c =
    sort_by (\<lambda>p q. fst p < fst q \<or> fst p = fst q \<and> fst (snd p) \<le> fst (snd q)) (flat_allowances c)"

definition contract_bytes :: "src20_contract \<Rightarrow> u8 list" where
  "contract_bytes c =
    concat (map len_str [contract_address c, token_name c, token_symbol c, token_owner c]) @ [decimals c] @
    be_bytes 8 (token_supply c) @ be_bytes 8 (token_max_supply c) @
    be_bytes 8 (length (sorted_balances c)) @
    concat (map (\<lambda>(a, n). len_str a @ be_bytes 8 n) (sorted_balances c)) @
    be_bytes 8 (length (sorted_allowances c)) @
    concat (map (\<lambda>(own, sp, v). len_str own @ len_str sp @ be_bytes 8 v) (sorted_allowances c))"

definition canonical_hash :: "(u8 list \<Rightarrow> u8 list) \<Rightarrow> src20_contract \<Rightarrow> u8 list" where
  "canonical_hash sha c = sha (contract_bytes c)"

section \<open>The registry\<close>

record contract_registry =
  contracts :: "(string, src20_contract) hmap"

definition ContractRegistry_new :: contract_registry where
  "ContractRegistry_new = \<lparr>contracts = []\<rparr>"

definition compute_contract_address ::
  "(u8 list \<Rightarrow> u8 list) \<Rightarrow> (u8 list \<Rightarrow> string) \<Rightarrow> string \<Rightarrow> string \<Rightarrow> string" where
  "compute_contract_address sha hex deployer seed =
    ''SRC20_'' @ hex (take 20 (sha (str_bytes (deployer @ ''|'' @ seed))))"

definition contract_exists :: "contract_registry \<Rightarrow> string \<Rightarrow> bool" where
  "contract_exists r address \<longleftrightarrow> hget (contracts r) address \<noteq> None"

text \<open>The collision loop of \<open>deploy\<close>; \<open>None\<close> is a loop that does not end.\<close>

partial_function (option) free_address ::
  "(u8 list \<Rightarrow> u8 list) \<Rightarrow> (u8 list \<Rightarrow> string) \<Rightarrow> contract_registry \<Rightarrow> string \<Rightarrow> string \<Rightarrow> u64 \<Rightarrow> string \<Rightarrow> string option" where
  "free_address sha hex r deployer seed counter addr =
    (if contract_exists r addr then
       let counter' = wrapping_add_u64 counter 1
       in free_address sha hex r deployer seed counter'
            (compute_contract_address sha hex deployer (seed @ ''|'' @ show_nat counter'))
     else Some addr)"

definition ascii_alphanumeric :: "char \<Rightarrow> bool" where
  "ascii_alphanumeric ch \<longleftrightarrow> (let n = (of_char ch :: nat) in
     48 \<le> n \<and> n \<le> 57 \<or> 65 \<le> n \<and> n \<le> 90 \<or> 97 \<le> n \<and> n \<le> 122)"

definition deploy ::
  "(u8 list \<Rightarrow> u8 list) \<Rightarrow> (u8 list \<Rightarrow> string) \<Rightarrow> contract_registry \<Rightarrow> string \<Rightarrow> string \<Rightarrow> string \<Rightarrow> u8 \<Rightarrow> u64 \<Rightarrow> u64
    \<Rightarrow> string \<Rightarrow> (string result \<times> contract_registry) option" where
  "deploy sha hex r deployer name symbol dec supply max_supply seed =
    (if name = [] \<or> 64 < length name
     then Some (Err (InvalidTransaction (''token name must be 1'' @ en_dash @ ''64 characters'')), r)
     else if symbol = [] \<or> 10 < length symbol \<or> \<not> (\<forall>ch \<in> set symbol. ascii_alphanumeric ch)
     then Some (Err (InvalidTransaction (''token symbol must be 1'' @ en_dash @ ''10 ASCII alphanumeric characters'')), r)
     else case free_address sha hex r deployer seed 0 (compute_contract_address sha hex deployer seed) of
            None \<Rightarrow> None
          | Some addr \<Rightarrow>
              (case mint (SRC20Contract_new addr name symbol dec deployer max_supply) deployer deployer supply of
                 (Err e, c) \<Rightarrow> Some (Err e, r)
               | (Ok u, c) \<Rightarrow> Some (Ok addr, r\<lparr>contracts := hput (contracts r) addr c\<rparr>)))"

definition get_contract :: "contract_registry \<Rightarrow> string \<Rightarrow> src20_contract option" where
  "get_contract r address = hget (contracts r) address"

definition contract_count :: "contract_registry \<Rightarrow> usize" where
  "contract_count r = length (contracts r)"

definition get_token_balance :: "contract_registry \<Rightarrow> string \<Rightarrow> string \<Rightarrow> u64" where
  "get_token_balance r contract address =
    (case hget (contracts r) contract of None \<Rightarrow> 0 | Some c \<Rightarrow> balance_of c address)"

definition get_holders_list :: "contract_registry \<Rightarrow> string \<Rightarrow> (string \<times> u64) list option" where
  "get_holders_list r contract = map_option list_holders (hget (contracts r) contract)"

definition registry_bytes :: "(u8 list \<Rightarrow> u8 list) \<Rightarrow> contract_registry \<Rightarrow> u8 list" where
  "registry_bytes sha r =
    (let addrs = sort (hkeys (contracts r))
     in be_bytes 8 (length addrs) @
        concat (map (\<lambda>addr. len_str addr @
          (case hget (contracts r) addr of Some c \<Rightarrow> canonical_hash sha c | None \<Rightarrow> [])) addrs))"

definition registry_hash :: "(u8 list \<Rightarrow> u8 list) \<Rightarrow> contract_registry \<Rightarrow> u8 list" where
  "registry_hash sha r = sha (registry_bytes sha r)"

text \<open>A method called on the contract that \<open>get_mut\<close> gives: what it leaves behind is in the registry.\<close>

definition on_contract ::
  "contract_registry \<Rightarrow> string \<Rightarrow> (src20_contract \<Rightarrow> 'a result \<times> src20_contract) \<Rightarrow> 'a result \<times> contract_registry" where
  "on_contract r contract f =
    (case hget (contracts r) contract of
       None \<Rightarrow> (Err (NotFound (''contract '' @ contract)), r)
     | Some c \<Rightarrow> let (res, c') = f c in (res, r\<lparr>contracts := hput (contracts r) contract c'\<rparr>))"

definition execute_transfer :: "contract_registry \<Rightarrow> string \<Rightarrow> string \<Rightarrow> string \<Rightarrow> u64 \<Rightarrow> unit result \<times> contract_registry" where
  "execute_transfer r contract from to amount = on_contract r contract (\<lambda>c. token_transfer c from to amount)"

definition execute_burn :: "contract_registry \<Rightarrow> string \<Rightarrow> string \<Rightarrow> u64 \<Rightarrow> unit result \<times> contract_registry" where
  "execute_burn r contract from amount = on_contract r contract (\<lambda>c. token_burn c from amount)"

definition execute_mint :: "contract_registry \<Rightarrow> string \<Rightarrow> string \<Rightarrow> string \<Rightarrow> u64 \<Rightarrow> unit result \<times> contract_registry" where
  "execute_mint r contract caller to amount = on_contract r contract (\<lambda>c. mint c caller to amount)"

definition execute_approve :: "contract_registry \<Rightarrow> string \<Rightarrow> string \<Rightarrow> string \<Rightarrow> u64 \<Rightarrow> unit result \<times> contract_registry" where
  "execute_approve r contract owner spender amount = on_contract r contract (\<lambda>c. approve c owner spender amount)"

record call_params =
  param_str :: "string \<Rightarrow> string option"
  param_u64 :: "string \<Rightarrow> u64 option"

datatype call_reply =
    StatusOk
  | StatusBurned u64
  | BalanceReply u64
  | AllowanceReply u64
  | InfoReply string string string u8 u64 u64 string usize

definition get_info :: "src20_contract \<Rightarrow> call_reply" where
  "get_info c = InfoReply (contract_address c) (token_name c) (token_symbol c) (decimals c) (token_supply c)
     (token_max_supply c) (token_owner c) (holders c)"

definition list_contracts :: "contract_registry \<Rightarrow> call_reply list" where
  "list_contracts r = map get_info (hvalues (contracts r))"

definition str_or_empty :: "call_params \<Rightarrow> string \<Rightarrow> string" where
  "str_or_empty ps k = (case param_str ps k of Some s \<Rightarrow> s | None \<Rightarrow> '''')"

definition u64_or_0 :: "call_params \<Rightarrow> string \<Rightarrow> u64" where
  "u64_or_0 ps k = (case param_u64 ps k of Some n \<Rightarrow> n | None \<Rightarrow> 0)"

definition reply_with :: "call_reply \<Rightarrow> unit result \<times> 's \<Rightarrow> call_reply result \<times> 's" where
  "reply_with a res = (case res of (Ok u, s) \<Rightarrow> (Ok a, s) | (Err e, s) \<Rightarrow> (Err e, s))"

definition dispatch :: "src20_contract \<Rightarrow> string \<Rightarrow> string \<Rightarrow> call_params \<Rightarrow> call_reply result \<times> src20_contract" where
  "dispatch c method caller ps =
    (let amount = u64_or_0 ps ''amount''; to = str_or_empty ps ''to''; spender = str_or_empty ps ''spender''
     in if method = ''mint'' then reply_with StatusOk (mint c caller to amount)
       else if method = ''burn'' then reply_with (StatusBurned amount) (token_burn c caller amount)
       else if method = ''transfer'' then reply_with StatusOk (token_transfer c caller to amount)
       else if method = ''approve'' then reply_with StatusOk (approve c caller spender amount)
       else if method = ''increase_allowance'' then reply_with StatusOk (increase_allowance c caller spender amount)
       else if method = ''decrease_allowance'' then reply_with StatusOk (decrease_allowance c caller spender amount)
       else if method = ''transfer_from''
       then reply_with StatusOk (transfer_from c caller (str_or_empty ps ''from'') to amount)
       else if method = ''balance_of'' then (Ok (BalanceReply (balance_of c (str_or_empty ps ''address''))), c)
       else if method = ''allowance'' then (Ok (AllowanceReply (allowance c (str_or_empty ps ''owner'') spender)), c)
       else if method = ''get_info'' then (Ok (get_info c), c)
       else (Err (NotFound (''method '' @ method)), c))"

definition call :: "contract_registry \<Rightarrow> string \<Rightarrow> string \<Rightarrow> string \<Rightarrow> call_params \<Rightarrow> call_reply result \<times> contract_registry" where
  "call r addr method caller ps = on_contract r addr (\<lambda>c. dispatch c method caller ps)"

end
