(* ===== verification/Src20_Thms.thy ===== *)
theory Src20_Thms
  imports Src20
begin

text \<open>
  Correctness of SRC-20 tokens: balances add up to the supply, a deployment returns a fresh
  address, and the canonical hash commits to the state.
\<close>

section \<open>Supply\<close>

interpretation token: ledger read_u64 "\<lambda>m k v. hput m k v" "map_sum (\<lambda>v. v)"
proof
  show "read_u64 (hput m k a) j = (if j = k then a else read_u64 m j)" for m :: "(string, u64) hmap" and k a j
    by (simp add: read_u64_def hget_hput)
  show "map_sum (\<lambda>v. v) (hput m k a) + read_u64 m k = map_sum (\<lambda>v. v) m + a" for m :: "(string, u64) hmap" and k a
    using map_sum_hput [of "\<lambda>v. v" k a m] by (simp add: read_u64_def opt_val_def split: option.splits)
qed

definition token_ok :: "src20_contract \<Rightarrow> bool" where
  "token_ok c \<longleftrightarrow> map_sum (\<lambda>v. v) (balances c) = token_supply c \<and> token_supply c \<le> U64_MAX \<and>
    (0 < token_max_supply c \<longrightarrow> token_supply c \<le> token_max_supply c)"

lemma token_ok_allowances [simp]: "token_ok (put_allowance c ow s a) = token_ok c"
  by (simp add: token_ok_def put_allowance_def)

lemma balance_of_put [simp]: "balance_of (put_balance c k v) j = (if j = k then v else balance_of c j)"
  by (simp add: balance_of_def put_balance_def token.amount_set)

lemma put_balance_fields [simp]:
  "token_supply (put_balance c k v) = token_supply c" "token_max_supply (put_balance c k v) = token_max_supply c"
  "balances (put_balance c k v) = hput (balances c) k v"
  by (simp_all add: put_balance_def)

lemma put_allowance_fields [simp]:
  "balances (put_allowance c ow s a) = balances c" "token_supply (put_allowance c ow s a) = token_supply c"
  "balance_of (put_allowance c ow s a) k = balance_of c k"
  by (simp_all add: put_allowance_def balance_of_def)

lemma token_sum_put:
  "map_sum (\<lambda>v. v) (hput (balances c) k v) + balance_of c k = map_sum (\<lambda>v. v) (balances c) + v"
  using token.total_set [where s = "balances c" and k = k and a = v] by (simp add: balance_of_def)

lemma token_balance_le: "token_ok c \<Longrightarrow> balance_of c k \<le> token_supply c"
  using token.amount_le_total [of "balances c" k] by (simp add: token_ok_def balance_of_def)

lemma token_ok_touch: "token_ok c \<Longrightarrow> token_ok (put_balance c k (balance_of c k))"
  using token_sum_put [where c = c and k = k and v = "balance_of c k"] by (simp add: token_ok_def)

text \<open>Moving an amount: the two updates of a transfer.\<close>

lemma token_ok_move:
  assumes "token_ok c" and "amount \<le> balance_of c from"
  defines "c1 \<equiv> put_balance c from (balance_of c from - amount)"
  shows "balance_of c1 to + amount \<le> U64_MAX" and "token_ok (put_balance c1 to (balance_of c1 to + amount))"
proof -
  have s1: "map_sum (\<lambda>v. v) (balances c1) + amount = token_supply c"
    using token_sum_put [where c = c and k = "from" and v = "balance_of c from - amount"] assms by (simp add: token_ok_def)
  have "balance_of c1 to \<le> map_sum (\<lambda>v. v) (balances c1)"
    using token.amount_le_total [of "balances c1" to] by (simp add: balance_of_def)
  with s1 assms(1) show "balance_of c1 to + amount \<le> U64_MAX" by (simp add: token_ok_def)
  show "token_ok (put_balance c1 to (balance_of c1 to + amount))"
    using token_sum_put [where c = c1 and k = to and v = "balance_of c1 to + amount"] s1 assms(1) by (simp add: token_ok_def c1_def)
qed

lemma token_transfer_moves:
  assumes "token_ok c" and "from \<noteq> []" "to \<noteq> []" "amount \<noteq> 0" "from \<noteq> to" "amount \<le> balance_of c from"
  defines "c1 \<equiv> put_balance c from (balance_of c from - amount)"
  shows "token_transfer c from to amount = (Ok (), put_balance c1 to (balance_of c1 to + amount))"
  using token_ok_move(1) [OF assms(1,6), of to] assms(2-6)
  by (simp add: token_transfer_def checked_sub_def checked_add_u64_def c1_def)

lemma token_transfer_ok:
  assumes "token_ok c"
  shows "token_ok (snd (token_transfer c from to amount))"
proof (cases "from \<noteq> [] \<and> to \<noteq> [] \<and> amount \<noteq> 0 \<and> from \<noteq> to \<and> amount \<le> balance_of c from")
  case True
  then show ?thesis
    using token_transfer_moves [OF assms, of "from" to amount] token_ok_move(2) [OF assms, of amount "from" to] by simp
next
  case False
  then show ?thesis using assms by (auto simp: token_transfer_def)
qed

lemma transfer_from_moves:
  assumes "token_ok c" and "sp \<noteq> []" "from \<noteq> []" "to \<noteq> []" "amount \<noteq> 0"
    and "amount \<le> allowance c from sp" "amount \<le> balance_of c from"
  defines "c1 \<equiv> put_balance (put_allowance c from sp (allowance c from sp - amount)) from (balance_of c from - amount)"
  shows "transfer_from c sp from to amount = (Ok (), put_balance c1 to (balance_of c1 to + amount))"
    and "token_ok (put_balance c1 to (balance_of c1 to + amount))"
proof -
  let ?c = "put_allowance c from sp (allowance c from sp - amount)"
  have m: "balance_of c1 to + amount \<le> U64_MAX" "token_ok (put_balance c1 to (balance_of c1 to + amount))"
    using token_ok_move [of ?c amount "from" to] assms by simp_all
  then show "token_ok (put_balance c1 to (balance_of c1 to + amount))" by simp
  show "transfer_from c sp from to amount = (Ok (), put_balance c1 to (balance_of c1 to + amount))"
    unfolding transfer_from_def using assms(2-7) m(1)
    by (cases "to = from") (simp_all add: checked_sub_def checked_add_u64_def c1_def)
qed

lemma transfer_from_ok:
  assumes "token_ok c"
  shows "token_ok (snd (transfer_from c sp from to amount))"
proof (cases "sp \<noteq> [] \<and> from \<noteq> [] \<and> to \<noteq> [] \<and> amount \<noteq> 0 \<and> amount \<le> allowance c from sp \<and> amount \<le> balance_of c from")
  case True
  then show ?thesis using transfer_from_moves [OF assms, of sp "from" to amount] by simp
next
  case False
  then show ?thesis using assms by (auto simp: transfer_from_def)
qed

lemma token_burn_ok: "token_ok c \<Longrightarrow> token_ok (snd (token_burn c from amount))"
  using token_sum_put [where c = c and k = "from" and v = "balance_of c from - amount"] token_balance_le [of c "from"]
  by (auto simp: token_burn_def checked_sub_def token_ok_def)

text \<open>Minting in an unlimited contract needs the new supply to fit.\<close>

lemma mint_ok:
  assumes "token_ok c" and "token_max_supply c = 0 \<Longrightarrow> token_supply c + amount \<le> U64_MAX"
  shows "token_ok (snd (mint c caller to amount))"
  using assms token_sum_put [where c = c and k = to and v = "balance_of c to + amount"] token_ok_touch [OF assms(1), of to]
    token_balance_le [OF assms(1), of to]
  by (auto simp: mint_def checked_add_u64_def token_ok_def)

lemma allowance_ops_ok:
  "token_ok c \<Longrightarrow> token_ok (snd (approve c ow s a))" "token_ok c \<Longrightarrow> token_ok (snd (increase_allowance c ow s a))"
  "token_ok c \<Longrightarrow> token_ok (snd (decrease_allowance c ow s a))"
  by (auto simp: approve_def increase_allowance_def decrease_allowance_def split: ok_or_splits)

section \<open>The address of a new contract\<close>

definition candidate :: "(u8 list \<Rightarrow> u8 list) \<Rightarrow> (u8 list \<Rightarrow> string) \<Rightarrow> string \<Rightarrow> string \<Rightarrow> u64 \<Rightarrow> string" where
  "candidate sha hex deployer seed k =
    compute_contract_address sha hex deployer (if k = 0 then seed else seed @ ''|'' @ show_nat k)"

text \<open>The search ends at the first free candidate.\<close>

lemma free_address_first:
  assumes "contract_exists r (candidate sha hex deployer seed (k + n)) = False" and "k + n \<le> U64_MAX"
    and "\<And>j. j < n \<Longrightarrow> contract_exists r (candidate sha hex deployer seed (k + j))"
  shows "free_address sha hex r deployer seed k (candidate sha hex deployer seed k) =
    Some (candidate sha hex deployer seed (k + n))"
  using assms
proof (induction n arbitrary: k)
  case 0
  then show ?case by (simp add: free_address.simps)
next
  case (Suc n)
  have next_cand: "compute_contract_address sha hex deployer (seed @ ''|'' @ show_nat (Suc k)) = candidate sha hex deployer seed (Suc k)"
    by (simp add: candidate_def)
  have "wrapping_add_u64 k 1 = Suc k"
    using Suc.prems(2) by (simp add: wrapping_add_u64_id)
  moreover have "contract_exists r (candidate sha hex deployer seed k)"
    using Suc.prems(3) [of 0] by simp
  moreover have "free_address sha hex r deployer seed (Suc k) (candidate sha hex deployer seed (Suc k)) =
      Some (candidate sha hex deployer seed (Suc k + n))"
    using Suc.prems(1,2) Suc.prems(3) [of "Suc j" for j] by (intro Suc.IH) simp_all
  ultimately show ?case
    by (subst free_address.simps) (simp only: if_True Let_def next_cand, simp)
qed

lemma free_address_total:
  assumes free: "\<not> contract_exists r (candidate sha hex deployer seed n)" and "n \<le> U64_MAX"
  shows "\<exists>k \<le> n. free_address sha hex r deployer seed 0 (compute_contract_address sha hex deployer seed) =
      Some (candidate sha hex deployer seed k) \<and> \<not> contract_exists r (candidate sha hex deployer seed k)"
proof -
  define k where "k = (LEAST k. \<not> contract_exists r (candidate sha hex deployer seed k))"
  have "\<not> contract_exists r (candidate sha hex deployer seed k)" "k \<le> n"
    unfolding k_def using free by (rule LeastI, intro Least_le free)
  moreover have "contract_exists r (candidate sha hex deployer seed j)" if "j < k" for j
    using not_less_Least [OF that [unfolded k_def]] by simp
  ultimately have "free_address sha hex r deployer seed 0 (candidate sha hex deployer seed 0) =
      Some (candidate sha hex deployer seed (0 + k))"
    using assms(2) by (intro free_address_first) simp_all
  moreover have "candidate sha hex deployer seed 0 = compute_contract_address sha hex deployer seed"
    by (simp add: candidate_def)
  ultimately show ?thesis
    using \<open>k \<le> n\<close> \<open>\<not> contract_exists r (candidate sha hex deployer seed k)\<close> by (intro exI [of _ k]) simp
qed

section \<open>Every contract of the registry\<close>

datatype token_op =
    OpDeploy string string string u8 u64 u64 string
  | OpTransfer string string string u64
  | OpBurn string string u64
  | OpMint string string string u64
  | OpApprove string string string u64
  | OpCall string string string call_params

fun token_step :: "(u8 list \<Rightarrow> u8 list) \<Rightarrow> (u8 list \<Rightarrow> string) \<Rightarrow> token_op \<Rightarrow> contract_registry \<Rightarrow> contract_registry" where
  "token_step sha hex (OpDeploy deployer name symbol dec supply max_supply seed) r =
    (case deploy sha hex r deployer name symbol dec supply max_supply seed of None \<Rightarrow> r | Some (res, r') \<Rightarrow> r')"
| "token_step sha hex (OpTransfer contract from to amount) r = snd (execute_transfer r contract from to amount)"
| "token_step sha hex (OpBurn contract from amount) r = snd (execute_burn r contract from amount)"
| "token_step sha hex (OpMint contract caller to amount) r = snd (execute_mint r contract caller to amount)"
| "token_step sha hex (OpApprove contract owner spender amount) r = snd (execute_approve r contract owner spender amount)"
| "token_step sha hex (OpCall addr method caller ps) r = snd (call r addr method caller ps)"

text \<open>A mint of an unlimited contract does not overflow the supply counter.\<close>

definition mint_fits :: "contract_registry \<Rightarrow> string \<Rightarrow> u64 \<Rightarrow> bool" where
  "mint_fits r contract amount \<longleftrightarrow>
    (\<forall>c. hget (contracts r) contract = Some c \<longrightarrow> token_max_supply c = 0 \<longrightarrow> token_supply c + amount \<le> U64_MAX)"

fun op_fits :: "token_op \<Rightarrow> contract_registry \<Rightarrow> bool" where
  "op_fits (OpMint contract caller to amount) r \<longleftrightarrow> mint_fits r contract amount"
| "op_fits (OpCall addr method caller ps) r \<longleftrightarrow>
    (if method = ''mint'' then mint_fits r addr (u64_or_0 ps ''amount'') else True)"
| "op_fits _ r \<longleftrightarrow> True"

fun token_run :: "(u8 list \<Rightarrow> u8 list) \<Rightarrow> (u8 list \<Rightarrow> string) \<Rightarrow> token_op list \<Rightarrow> contract_registry \<Rightarrow> contract_registry option" where
  "token_run sha hex [] r = Some r"
| "token_run sha hex (x # xs) r = (if op_fits x r then token_run sha hex xs (token_step sha hex x r) else None)"

definition tokens_ok :: "contract_registry \<Rightarrow> bool" where
  "tokens_ok r \<longleftrightarrow> (\<forall>a c. hget (contracts r) a = Some c \<longrightarrow> token_ok c)"

lemma tokens_ok_put: "tokens_ok r \<Longrightarrow> token_ok c \<Longrightarrow> tokens_ok (r\<lparr>contracts := hput (contracts r) a c\<rparr>)"
  by (auto simp: tokens_ok_def hget_hput)

lemma on_contract_ok:
  assumes "tokens_ok r" and "\<And>c. hget (contracts r) a = Some c \<Longrightarrow> token_ok c \<Longrightarrow> token_ok (snd (f c))"
  shows "tokens_ok (snd (on_contract r a f))"
proof (cases "hget (contracts r) a")
  case None
  with assms(1) show ?thesis by (simp add: on_contract_def)
next
  case (Some c)
  then have "token_ok (snd (f c))" using assms by (simp add: tokens_ok_def)
  with Some assms(1) show ?thesis by (simp add: on_contract_def case_prod_beta tokens_ok_put)
qed

lemma snd_reply_with [simp]: "snd (reply_with x res) = snd res"
  by (cases res) (simp add: reply_with_def split: result.split)

lemma dispatch_ok:
  assumes ok: "token_ok c"
    and "method = ''mint'' \<Longrightarrow> token_max_supply c = 0 \<Longrightarrow> token_supply c + u64_or_0 ps ''amount'' \<le> U64_MAX"
  shows "token_ok (snd (dispatch c method caller ps))"
proof (cases "method = ''mint''")
  case True
  with assms show ?thesis by (simp add: dispatch_def mint_ok)
next
  case False
  then show ?thesis
    using ok by (simp add: dispatch_def token_burn_ok token_transfer_ok transfer_from_ok allowance_ops_ok)
qed

lemma call_ok:
  assumes "tokens_ok r" and "op_fits (OpCall addr method caller ps) r"
  shows "tokens_ok (snd (call r addr method caller ps))"
  unfolding call_def using assms
  by (intro on_contract_ok dispatch_ok) (auto simp: mint_fits_def)

lemma token_new_ok [simp]: "token_ok (SRC20Contract_new a n s d ow m)"
  by (simp add: token_ok_def SRC20Contract_new_def)

lemma deploy_ok:
  assumes "tokens_ok r" and "deploy sha hex r d n s dec amt m seed = Some (res, r')"
  shows "tokens_ok r'"
proof -
  have "token_ok c" if "mint (SRC20Contract_new addr n s dec d m) d d amt = (Ok u, c)" for addr u c
  proof -
    from that have "amt \<le> U64_MAX"
      by (auto simp: mint_def SRC20Contract_new_def balance_of_def read_u64_def checked_add_u64_def
          split: if_splits ok_or_splits)
    then show ?thesis
      using mint_ok [OF token_new_ok, of addr n s dec d m amt d d] that by (simp add: SRC20Contract_new_def)
  qed
  with assms show ?thesis
    by (auto simp: deploy_def tokens_ok_put split: if_splits option.splits prod.splits result.splits)
qed

lemma token_step_ok: "tokens_ok r \<Longrightarrow> op_fits x r \<Longrightarrow> tokens_ok (token_step sha hex x r)"
proof (cases x)
  case (OpMint contract caller to amount)
  assume "tokens_ok r" "op_fits x r"
  with OpMint show ?thesis
    by (auto simp: execute_mint_def mint_fits_def intro!: on_contract_ok mint_ok)
next
  case (OpCall addr meth caller ps)
  assume "tokens_ok r" "op_fits x r"
  with OpCall show ?thesis using call_ok [of r addr meth caller ps] by simp
qed (auto simp: execute_transfer_def execute_burn_def execute_approve_def split: option.split prod.split
  intro: on_contract_ok token_transfer_ok token_burn_ok allowance_ops_ok deploy_ok)

lemma token_run_ok: "tokens_ok r \<Longrightarrow> token_run sha hex xs r = Some r' \<Longrightarrow> tokens_ok r'"
  by (induction xs arbitrary: r) (auto intro: token_step_ok split: if_splits)

text \<open>
  Token supply is exact (C31): after any sequence of deployments, transfers, mints, burns, approvals
  and dispatched calls with any parameters, successful or not, the balances of every contract add
  up to its total supply, which stays within its maximum, provided that no mint of an unlimited
  contract overflows the supply counter.
\<close>

theorem token_supply_exact:
  assumes "token_run sha hex ops ContractRegistry_new = Some r" and "get_contract r a = Some c"
  shows "sum_list (hvalues (balances c)) = token_supply c \<and>
    (0 < token_max_supply c \<longrightarrow> token_supply c \<le> token_max_supply c)"
proof -
  have "tokens_ok ContractRegistry_new" by (simp add: tokens_ok_def ContractRegistry_new_def)
  from token_run_ok [OF this assms(1)] assms(2) have "token_ok c"
    by (simp add: tokens_ok_def get_contract_def)
  then show ?thesis by (simp add: token_ok_def map_sum_def comp_def)
qed

definition example_sha :: "u8 list \<Rightarrow> u8 list" where
  "example_sha bs = bs"

definition example_hex :: "u8 list \<Rightarrow> string" where
  "example_hex bs = map char_of bs"

definition example_token_ops :: "token_op list" where
  "example_token_ops =
    [OpDeploy ''a'' ''Coin'' ''CN'' 8 1000 5000 ''s1'',
     OpTransfer ''SRC20_a|s1'' ''a'' ''b'' 300, OpMint ''SRC20_a|s1'' ''a'' ''b'' 50, OpBurn ''SRC20_a|s1'' ''b'' 30,
     OpTransfer ''SRC20_a|s1'' ''b'' ''b'' 1, OpMint ''SRC20_a|s1'' ''a'' ''a'' 9000]"

lemma example_address:
  assumes "length d + length seed < 20"
  shows "compute_contract_address example_sha example_hex d seed = ''SRC20_'' @ d @ ''|'' @ seed"
proof -
  have "take 20 (str_bytes (d @ ''|'' @ seed)) = str_bytes (d @ ''|'' @ seed)"
    using assms by (simp add: str_bytes_def)
  then have "example_hex (take 20 (example_sha (str_bytes (d @ ''|'' @ seed)))) = d @ ''|'' @ seed"
    by (simp only: example_sha_def) (simp add: example_hex_def str_bytes_def comp_def del: map_append)
  then show ?thesis by (simp only: compute_contract_address_def)
qed

lemmas token_eval = deploy_def free_address.simps contract_exists_def example_address ContractRegistry_new_def
  SRC20Contract_new_def mint_def put_balance_def balance_of_def read_u64_def checked_add_u64_def checked_sub_def
  execute_transfer_def execute_mint_def execute_burn_def on_contract_def token_transfer_def token_burn_def
  mint_fits_def ascii_alphanumeric_def U64_MAX_def get_contract_def

lemma example_token_run:
  "\<exists>r c. token_run example_sha example_hex example_token_ops ContractRegistry_new = Some r \<and>
     get_contract r ''SRC20_a|s1'' = Some c \<and> balances c = [(''a'', 700), (''b'', 320)] \<and> token_supply c = 1020"
  by (simp add: example_token_ops_def token_eval)

theorem token_supply_exact_witness:
  "\<exists>r c. token_run example_sha example_hex example_token_ops ContractRegistry_new = Some r \<and>
     get_contract r ''SRC20_a|s1'' = Some c \<and> sum_list (hvalues (balances c)) = token_supply c \<and> token_supply c = 1020"
proof -
  obtain r c where r: "token_run example_sha example_hex example_token_ops ContractRegistry_new = Some r"
      "get_contract r ''SRC20_a|s1'' = Some c" "token_supply c = 1020"
    using example_token_run by blast
  from token_supply_exact [OF r(1,2)] r show ?thesis by blast
qed

end
