(* ===== verification/Src20_Digest.thy ===== *)
theory Src20_Digest
  imports Src20
begin

text \<open>
  The state digest of the SRC-20 contracts: the bytes that \<open>SRC20Contract::canonical_hash\<close> feeds to
  the hash function determine the contract's state and do not depend on the order of its maps.
\<close>

definition stored_allowance :: "src20_contract \<Rightarrow> string \<times> string \<Rightarrow> u64 option" where
  "stored_allowance c = (\<lambda>(ow, sp). case hget (allowances c) ow of None \<Rightarrow> None | Some m \<Rightarrow> hget m sp)"

text \<open>Maps without repeated keys, and every string length, count and amount within its width.\<close>

definition contract_fits :: "src20_contract \<Rightarrow> bool" where
  "contract_fits c \<longleftrightarrow>
    list_all fits_len [contract_address c, token_name c, token_symbol c, token_owner c] \<and>
    decimals c < 256 \<and> fits_u64 (token_supply c) \<and> fits_u64 (token_max_supply c) \<and>
    wf_map (balances c) \<and> wf_map (allowances c) \<and> list_all wf_map (hvalues (allowances c)) \<and>
    fits_len (balances c) \<and> fits_len (flat_allowances c) \<and>
    list_all (\<lambda>p. fits_len (fst p) \<and> fits_u64 (snd p)) (balances c) \<and>
    list_all (\<lambda>p. fits_len (fst p) \<and> fits_len (fst (snd p)) \<and> fits_u64 (snd (snd p))) (flat_allowances c)"

definition same_contract :: "src20_contract \<Rightarrow> src20_contract \<Rightarrow> bool" where
  "same_contract c d \<longleftrightarrow>
    contract_address c = contract_address d \<and> token_name c = token_name d \<and> token_symbol c = token_symbol d \<and>
    token_owner c = token_owner d \<and> decimals c = decimals d \<and> token_supply c = token_supply d \<and>
    token_max_supply c = token_max_supply d \<and> hget (balances c) = hget (balances d) \<and>
    stored_allowance c = stored_allowance d"

lemma set_flat_allowances:
  assumes "contract_fits c"
  shows "(ow, sp, v) \<in> set (flat_allowances c) \<longleftrightarrow> stored_allowance c (ow, sp) = Some v"
proof -
  have wf: "wf_map (allowances c)" and inner: "\<And>o' m. (o', m) \<in> set (allowances c) \<Longrightarrow> wf_map m"
    using assms by (auto simp: contract_fits_def list_all_iff)
  have "(ow, sp, v) \<in> set (flat_allowances c) \<longleftrightarrow> (\<exists>m. (ow, m) \<in> set (allowances c) \<and> (sp, v) \<in> set m)"
    by (force simp: flat_allowances_def)
  also have "\<dots> \<longleftrightarrow> (\<exists>m. hget (allowances c) ow = Some m \<and> hget m sp = Some v)"
    using set_wf_map [OF inner] by (simp add: set_wf_map [OF wf, symmetric] cong: conj_cong)
  finally show ?thesis by (auto simp: stored_allowance_def split: option.split)
qed

lemma distinct_flat_allowances:
  assumes "contract_fits c"
  shows "distinct (flat_allowances c)"
proof -
  have "wf_map xs \<Longrightarrow> list_all wf_map (hvalues xs) \<Longrightarrow>
      distinct (concat (map (\<lambda>(ow, m). map (\<lambda>(sp, v). (ow, sp, v)) m) xs))" for xs :: "(string, (string, u64) hmap) hmap"
  proof (induction xs)
    case (Cons x xs)
    then have "distinct (snd x)" "fst x \<notin> fst ` set xs"
      by (auto simp: wf_map_def distinct_map)
    with Cons show ?case
      by (auto simp: wf_map_def distinct_map inj_on_def case_prod_beta list_all_iff)
  qed simp
  with assms show ?thesis by (simp add: flat_allowances_def contract_fits_def)
qed

lemma sorted_balances_eq:
  assumes "contract_fits c" "contract_fits d"
  shows "sorted_balances c = sorted_balances d \<longleftrightarrow> hget (balances c) = hget (balances d)"
proof
  have wf: "wf_map (balances c)" "wf_map (balances d)" using assms by (simp_all add: contract_fits_def)
  show "hget (balances c) = hget (balances d)" if "sorted_balances c = sorted_balances d"
  proof -
    from that have "set (balances c) = set (balances d)" unfolding sorted_balances_def by (metis set_sort_by)
    then show ?thesis using wf by (simp add: wf_map_def map_of_inject_set)
  qed
  show "sorted_balances c = sorted_balances d" if eq: "hget (balances c) = hget (balances d)"
    unfolding sorted_balances_def
  proof (rule sort_by_unique)
    show "set (balances c) = set (balances d)" using wf eq by (simp add: wf_map_def map_of_inject_set)
    show "x = y" if "x \<in> set (balances c)" "y \<in> set (balances c)" "fst x \<le> fst y" "fst y \<le> fst x" for x y
      using that set_wf_map [OF wf(1)] by (metis order_antisym option.inject prod.collapse)
  qed (use wf in \<open>auto simp: wf_map_def distinct_map\<close>)
qed

lemma sorted_allowances_eq:
  assumes "contract_fits c" "contract_fits d"
  shows "sorted_allowances c = sorted_allowances d \<longleftrightarrow> stored_allowance c = stored_allowance d"
proof
  have set_iff: "set (flat_allowances c) = set (flat_allowances d) \<longleftrightarrow> stored_allowance c = stored_allowance d"
  proof
    assume "set (flat_allowances c) = set (flat_allowances d)"
    then have "stored_allowance c p = Some v \<longleftrightarrow> stored_allowance d p = Some v" for p v
      using assms by (cases p) (simp add: set_flat_allowances [symmetric])
    then show "stored_allowance c = stored_allowance d" by (intro ext) (metis not_None_eq)
  qed (use assms in \<open>auto simp: set_flat_allowances\<close>)
  show "stored_allowance c = stored_allowance d" if "sorted_allowances c = sorted_allowances d"
    using arg_cong [OF that, of set] by (simp add: sorted_allowances_def set_iff)
  show "sorted_allowances c = sorted_allowances d" if "stored_allowance c = stored_allowance d"
    unfolding sorted_allowances_def
  proof (rule sort_by_unique)
    show "set (flat_allowances c) = set (flat_allowances d)" using that set_iff by simp
    show "x = y" if "x \<in> set (flat_allowances c)" "y \<in> set (flat_allowances c)"
        "fst x < fst y \<or> fst x = fst y \<and> fst (snd x) \<le> fst (snd y)"
        "fst y < fst x \<or> fst y = fst x \<and> fst (snd y) \<le> fst (snd x)" for x y
    proof -
      from that(3,4) have "fst x = fst y" "fst (snd x) = fst (snd y)" by auto
      with that(1,2) show ?thesis
        using set_flat_allowances [OF assms(1)] by (metis option.inject prod.collapse)
    qed
    show "(fst x < fst z \<or> fst x = fst z \<and> fst (snd x) \<le> fst (snd z))"
      if "fst x < fst y \<or> fst x = fst y \<and> fst (snd x) \<le> fst (snd y)"
        "fst y < fst z \<or> fst y = fst z \<and> fst (snd y) \<le> fst (snd z)" for x y z :: "string \<times> string \<times> u64"
      using that by auto
    show "(fst x < fst y \<or> fst x = fst y \<and> fst (snd x) \<le> fst (snd y)) \<or>
        (fst y < fst x \<or> fst y = fst x \<and> fst (snd y) \<le> fst (snd x))" for x y :: "string \<times> string \<times> u64"
      by (cases "fst x" "fst y" rule: linorder_cases) auto
  qed (simp_all add: assms distinct_flat_allowances)
qed

definition balance_entry :: "string \<times> u64 \<Rightarrow> u8 list" where
  "balance_entry p = len_str (fst p) @ be_u64 (snd p)"

definition allowance_entry :: "string \<times> string \<times> u64 \<Rightarrow> u8 list" where
  "allowance_entry p = len_str (fst p) @ balance_entry (snd p)"

lemma contract_bytes_split:
  "contract_bytes c =
    len_str (contract_address c) @ len_str (token_name c) @ len_str (token_symbol c) @ len_str (token_owner c) @
    [decimals c] @ be_u64 (token_supply c) @ be_u64 (token_max_supply c) @
    be_u64 (length (sorted_balances c)) @ concat (map balance_entry (sorted_balances c)) @
    be_u64 (length (sorted_allowances c)) @ concat (map allowance_entry (sorted_allowances c)) @ []"
proof -
  have "(\<lambda>(a, n). len_str a @ be_bytes 8 n) = balance_entry"
    "(\<lambda>(own, sp, v). len_str own @ len_str sp @ be_bytes 8 v) = allowance_entry"
    by (auto simp: balance_entry_def allowance_entry_def be_u64_def)
  then show ?thesis by (simp add: contract_bytes_def be_u64_def)
qed

lemma fits_sorted:
  assumes "contract_fits c"
  shows "fits_u64 (length (sorted_balances c))" "fits_u64 (length (sorted_allowances c))"
    "list_all (\<lambda>p. fits_len (fst p) \<and> fits_u64 (snd p)) (sorted_balances c)"
    "list_all (\<lambda>p. fits_len (fst p) \<and> fits_len (fst (snd p)) \<and> fits_u64 (snd (snd p))) (sorted_allowances c)"
  using assms by (simp_all add: contract_fits_def sorted_balances_def sorted_allowances_def fits_len_def fits_u64_def list_all_iff)

lemma contract_bytes_fields:
  assumes c: "contract_fits c" and d: "contract_fits d" and eq: "contract_bytes c = contract_bytes d"
  shows "contract_address c = contract_address d \<and> token_name c = token_name d \<and> token_symbol c = token_symbol d \<and>
    token_owner c = token_owner d \<and> decimals c = decimals d \<and> token_supply c = token_supply d \<and>
    token_max_supply c = token_max_supply d \<and> sorted_balances c = sorted_balances d \<and>
    sorted_allowances c = sorted_allowances d"
proof -
  have ok: "fits_len (contract_address c)" "fits_len (token_name c)" "fits_len (token_symbol c)" "fits_len (token_owner c)"
    "fits_u64 (token_supply c)" "fits_u64 (token_max_supply c)"
    if "contract_fits c" for c using that by (simp_all add: contract_fits_def)
  note eq' = eq [unfolded contract_bytes_split]
  note heads = lstr.read_unique [OF ok(1) [OF c] ok(1) [OF d] eq']
  note heads2 = lstr.read_unique [OF ok(2) [OF c] ok(2) [OF d] conjunct2 [OF heads]]
  note heads3 = lstr.read_unique [OF ok(3) [OF c] ok(3) [OF d] conjunct2 [OF heads2]]
  note heads4 = lstr.read_unique [OF ok(4) [OF c] ok(4) [OF d] conjunct2 [OF heads3]]
  from conjunct2 [OF heads4] have dec: "decimals c = decimals d"
    and rest: "be_u64 (token_supply c) @ be_u64 (token_max_supply c) @
      be_u64 (length (sorted_balances c)) @ concat (map balance_entry (sorted_balances c)) @
      be_u64 (length (sorted_allowances c)) @ concat (map allowance_entry (sorted_allowances c)) @ [] =
      be_u64 (token_supply d) @ be_u64 (token_max_supply d) @
      be_u64 (length (sorted_balances d)) @ concat (map balance_entry (sorted_balances d)) @
      be_u64 (length (sorted_allowances d)) @ concat (map allowance_entry (sorted_allowances d)) @ []"
    by simp_all
  note sup = be64.read_unique [OF ok(5) [OF c] ok(5) [OF d] rest]
  note msup = be64.read_unique [OF ok(6) [OF c] ok(6) [OF d] conjunct2 [OF sup]]
  note nb = be64.read_unique [OF fits_sorted(1) [OF c] fits_sorted(1) [OF d] conjunct2 [OF msup]]
  note bals = str_u64.pair.read_list_unique [OF conjunct1 [OF nb] fits_sorted(3) [OF c] fits_sorted(3) [OF d],
      folded balance_entry_def, OF conjunct2 [OF nb]]
  note na = be64.read_unique [OF fits_sorted(2) [OF c] fits_sorted(2) [OF d] conjunct2 [OF bals]]
  note alls = str_str_u64.pair.read_list_unique [OF conjunct1 [OF na] fits_sorted(4) [OF c] fits_sorted(4) [OF d],
      folded balance_entry_def allowance_entry_def, OF conjunct2 [OF na]]
  show ?thesis using heads heads2 heads3 heads4 dec sup msup bals alls by simp
qed

text \<open>
  The digest input of a token is exact (C35): two contracts whose strings, counts and amounts fit their
  widths feed the same bytes to the hash exactly if they have the same metadata, the same supply,
  the same stored balances and the same stored allowances, in whatever order their maps list them.
\<close>

theorem contract_digest_exact:
  assumes "contract_fits c" and "contract_fits d"
  shows "contract_bytes c = contract_bytes d \<longleftrightarrow> same_contract c d"
proof
  assume "contract_bytes c = contract_bytes d"
  from contract_bytes_fields [OF assms this] show "same_contract c d"
    by (simp add: same_contract_def sorted_balances_eq [OF assms] sorted_allowances_eq [OF assms])
next
  assume "same_contract c d"
  then show "contract_bytes c = contract_bytes d"
    by (simp add: contract_bytes_split same_contract_def sorted_balances_eq [OF assms, symmetric]
        sorted_allowances_eq [OF assms, symmetric])
qed

definition example_contract :: "(string, u64) hmap \<Rightarrow> src20_contract" where
  "example_contract bs = (SRC20Contract_new ''SRC20_1'' ''Coin'' ''CN'' 8 ''a'' 0)
     \<lparr>token_supply := 30, balances := bs, allowances := [(''a'', [(''b'', 5)])]\<rparr>"

theorem contract_digest_exact_witness:
  "contract_bytes (example_contract [(''a'', 10), (''b'', 20)]) = contract_bytes (example_contract [(''b'', 20), (''a'', 10)])
   \<and> contract_bytes (example_contract [(''a'', 10), (''b'', 20)]) \<noteq> contract_bytes (example_contract [(''a'', 20), (''b'', 10)])"
proof -
  have fits: "contract_fits (example_contract [(x, i), (y, j)])"
    if "x \<noteq> y" "length x = 1" "length y = 1" "i < 30" "j < 30" for x y i j
    using that by (simp add: contract_fits_def example_contract_def SRC20Contract_new_def fits_len_def fits_u64_def
        wf_map_def flat_allowances_def U64_MAX_def)
  have same: "same_contract (example_contract bs) (example_contract bs') \<longleftrightarrow> hget bs = hget bs'" for bs bs'
    by (simp add: same_contract_def example_contract_def SRC20Contract_new_def stored_allowance_def fun_eq_iff)
  have "hget [(''a'', 10), (''b'', 20)] = hget [(''b'', 20), (''a'', 10 :: u64)]"
    by auto
  moreover have "hget [(''a'', 10), (''b'', 20)] ''a'' \<noteq> hget [(''a'', 20), (''b'', 10 :: u64)] ''a''"
    by simp
  then have "hget [(''a'', 10), (''b'', 20)] \<noteq> hget [(''a'', 20), (''b'', 10 :: u64)]"
    by metis
  ultimately show ?thesis
    using contract_digest_exact [OF fits fits, of "''a''" "''b''" 10 20 "''b''" "''a''" 20 10]
      contract_digest_exact [OF fits fits, of "''a''" "''b''" 10 20 "''a''" "''b''" 20 10] same by simp
qed

end
