(* ===== verification/Trie_Store.thy ===== *)
theory Trie_Store
  imports Rust_Prelude
begin

text \<open>
  Nodes, proofs and storage of the state trie: \<open>sentrix-trie/src/node.rs\<close>, \<open>proof.rs\<close>, \<open>storage.rs\<close>
  and the write buffers of \<open>cache.rs\<close>. SHA-256, BLAKE3 and hexadecimal encoding are parameters. The
  database tables are maps: a table returns what was stored under a key, and bincode gives a stored
  node back. The LRU in front of the buffers is the subject of \<open>Trie_Cache\<close>.
\<close>

type_synonym node_hash = "u8 list"
type_synonym trie_key = "u8 list"

record hasher =
  sha256 :: "u8 list \<Rightarrow> node_hash"
  blake3 :: "u8 list \<Rightarrow> node_hash"
  hex_encode :: "u8 list \<Rightarrow> string"

section \<open>Node hashes\<close>

definition NULL_HASH :: node_hash where
  "NULL_HASH = replicate 32 0"

definition hash_internal :: "hasher \<Rightarrow> node_hash \<Rightarrow> node_hash \<Rightarrow> node_hash" where
  "hash_internal H left right = sha256 H ([1] @ left @ right)"

definition hash_leaf :: "hasher \<Rightarrow> trie_key \<Rightarrow> u8 list \<Rightarrow> node_hash" where
  "hash_leaf H key val = blake3 H ([0] @ key @ val)"

text \<open>The table of empty-subtree hashes is built upwards from the leaf level.\<close>

definition compute_empty_hashes :: "hasher \<Rightarrow> node_hash list" where
  "compute_empty_hashes H =
    fold (\<lambda>d table. table[d := hash_internal H (table ! (d + 1)) (table ! (d + 1))]) (rev [0..<256])
      ((replicate 257 NULL_HASH)[256 := sha256 H (replicate 32 0)])"

definition empty_hash :: "hasher \<Rightarrow> usize \<Rightarrow> node_hash" where
  "empty_hash H depth =
    (let table = compute_empty_hashes H in if depth < length table then table ! depth else NULL_HASH)"

text \<open>Bit \<open>i\<close> of a key, most significant bit of byte 0 first; the code indexes the key, so \<open>i < 256\<close>.\<close>

definition get_bit :: "trie_key \<Rightarrow> usize \<Rightarrow> bool" where
  "get_bit key i =
    (let byte_idx = i div 8; bit_idx = 7 - i mod 8 in key ! byte_idx div 2 ^ bit_idx mod 2 = 1)"

datatype trie_node =
    Leaf trie_key node_hash
  | Internal_node node_hash node_hash node_hash

fun node_hash_of :: "trie_node \<Rightarrow> node_hash" where
  "node_hash_of (Leaf key value_hash) = value_hash"
| "node_hash_of (Internal_node left right hash) = hash"

section \<open>Merkle proofs\<close>

record merkle_proof =
  mp_key :: trie_key
  mp_value :: "u8 list"
  mp_siblings :: "node_hash list"
  mp_depth :: usize
  mp_found :: bool
  mp_terminal_hash :: node_hash

text \<open>
  The siblings are indexed only after the length check of the callers. The bits of the key are not:
  a depth above 256 indexes past the key and panics, which is \<open>None\<close>.
\<close>

definition compute_root :: "hasher \<Rightarrow> merkle_proof \<Rightarrow> node_hash \<Rightarrow> node_hash option" where
  "compute_root H p leaf_hash =
    (if 256 < mp_depth p then None
     else Some (fold (\<lambda>d current.
        let (left, right) = (if get_bit (mp_key p) d then (mp_siblings p ! d, current) else (current, mp_siblings p ! d))
        in hash_internal H left right)
      (rev [0..<mp_depth p]) leaf_hash))"

definition verify_membership :: "hasher \<Rightarrow> merkle_proof \<Rightarrow> node_hash \<Rightarrow> bool option" where
  "verify_membership H p root =
    (if \<not> mp_found p then Some False
     else if length (mp_siblings p) \<noteq> mp_depth p then Some False
     else map_option (\<lambda>h. h = root) (compute_root H p (hash_leaf H (mp_key p) (mp_value p))))"

definition verify_nonmembership :: "hasher \<Rightarrow> merkle_proof \<Rightarrow> node_hash \<Rightarrow> bool option" where
  "verify_nonmembership H p root =
    (if mp_found p then Some False
     else if length (mp_siblings p) \<noteq> mp_depth p then Some False
     else map_option (\<lambda>h. h = root) (compute_root H p (mp_terminal_hash p)))"

section \<open>Persistent tables\<close>

record trie_storage =
  trie_nodes :: "(node_hash, trie_node) hmap"
  trie_values :: "(node_hash, u8 list) hmap"
  trie_roots :: "(u64, node_hash) hmap"
  trie_committed_roots :: "(node_hash, u64) hmap"
  committed_ready :: bool
  trie_tombstones :: "(u8 \<times> node_hash, u64) hmap"

definition ensure_committed_roots_index :: "trie_storage \<Rightarrow> trie_storage" where
  "ensure_committed_roots_index s =
    (if committed_ready s then s
     else
       let s1 = fold (\<lambda>(k, v) s. s\<lparr>trie_committed_roots := hput (trie_committed_roots s) v k\<rparr>) (trie_roots s) s
       in if trie_roots s \<noteq> [] then s1\<lparr>committed_ready := True\<rparr> else s1)"

definition TrieStorage_new :: "trie_storage \<Rightarrow> trie_storage" where
  "TrieStorage_new mdbx = ensure_committed_roots_index mdbx"

definition store_node :: "trie_storage \<Rightarrow> node_hash \<Rightarrow> trie_node \<Rightarrow> trie_storage" where
  "store_node s hash node = s\<lparr>trie_nodes := hput (trie_nodes s) hash node\<rparr>"

definition load_node :: "trie_storage \<Rightarrow> node_hash \<Rightarrow> trie_node option" where
  "load_node s hash = hget (trie_nodes s) hash"

definition storage_delete_node :: "trie_storage \<Rightarrow> node_hash \<Rightarrow> trie_storage" where
  "storage_delete_node s hash = s\<lparr>trie_nodes := hdel (trie_nodes s) hash\<rparr>"

definition storage_store_value :: "trie_storage \<Rightarrow> node_hash \<Rightarrow> u8 list \<Rightarrow> trie_storage" where
  "storage_store_value s hash val = s\<lparr>trie_values := hput (trie_values s) hash val\<rparr>"

definition storage_load_value :: "trie_storage \<Rightarrow> node_hash \<Rightarrow> u8 list option" where
  "storage_load_value s hash = hget (trie_values s) hash"

definition storage_delete_value :: "trie_storage \<Rightarrow> node_hash \<Rightarrow> trie_storage" where
  "storage_delete_value s hash = s\<lparr>trie_values := hdel (trie_values s) hash\<rparr>"

definition store_root :: "trie_storage \<Rightarrow> u64 \<Rightarrow> node_hash \<Rightarrow> trie_storage" where
  "store_root s version root =
    s\<lparr>trie_roots := hput (trie_roots s) version root,
      trie_committed_roots := hput (trie_committed_roots s) root version, committed_ready := True\<rparr>"

definition load_root :: "trie_storage \<Rightarrow> u64 \<Rightarrow> node_hash option" where
  "load_root s version = hget (trie_roots s) version"

definition is_committed_root :: "trie_storage \<Rightarrow> node_hash \<Rightarrow> bool" where
  "is_committed_root s hash \<longleftrightarrow> hget (trie_committed_roots s) hash \<noteq> None"

definition latest_version :: "trie_storage \<Rightarrow> u64 option" where
  "latest_version s =
    fold (\<lambda>v m. Some (case m of None \<Rightarrow> v | Some old \<Rightarrow> max old v)) (hkeys (trie_roots s)) None"

text \<open>The batch is one transaction: every write lands or none does.\<close>

definition flush_trie_batch ::
  "(node_hash \<times> trie_node) list \<Rightarrow> (node_hash \<times> u8 list) list \<Rightarrow> u64 \<Rightarrow> node_hash \<Rightarrow> trie_storage \<Rightarrow> trie_storage" where
  "flush_trie_batch nodes vals version root s =
    (let s1 = fold (\<lambda>(h, n) s. store_node s h n) nodes s;
         s2 = fold (\<lambda>(h, v) s. storage_store_value s h v) vals s1
     in s2\<lparr>trie_roots := hput (trie_roots s2) version root,
           trie_committed_roots := hput (trie_committed_roots s2) root version\<rparr>)"

section \<open>Pruning the tables\<close>

definition prune_old_roots :: "u64 \<Rightarrow> u64 \<Rightarrow> trie_storage \<Rightarrow> usize \<times> trie_storage" where
  "prune_old_roots latest keep s =
    (if latest \<le> keep then (0, s)
     else
       let cutoff = latest - keep;
           to_delete = filter (\<lambda>(version, root). version \<le> cutoff) (trie_roots s)
       in (length to_delete,
           fold (\<lambda>(version, root) s. s\<lparr>trie_roots := hdel (trie_roots s) version,
               trie_committed_roots := hdel (trie_committed_roots s) root\<rparr>) to_delete s))"

definition gc_table :: "node_hash set \<Rightarrow> (node_hash, 'v) hmap \<Rightarrow> usize \<times> (node_hash, 'v) hmap" where
  "gc_table live table =
    (let to_delete = filter (\<lambda>h. h \<notin> live) (hkeys table)
     in (length to_delete, fold (\<lambda>h t. hdel t h) to_delete table))"

definition gc_nodes :: "node_hash set \<Rightarrow> trie_storage \<Rightarrow> usize \<times> trie_storage" where
  "gc_nodes live s = (case gc_table live (trie_nodes s) of (n, t) \<Rightarrow> (n, s\<lparr>trie_nodes := t\<rparr>))"

definition gc_values :: "node_hash set \<Rightarrow> trie_storage \<Rightarrow> usize \<times> trie_storage" where
  "gc_values live s = (case gc_table live (trie_values s) of (n, t) \<Rightarrow> (n, s\<lparr>trie_values := t\<rparr>))"

definition gc_orphaned_nodes :: "node_hash set \<Rightarrow> trie_storage \<Rightarrow> usize \<times> trie_storage" where
  "gc_orphaned_nodes live s =
    (let (node_count, s1) = gc_nodes live s; (value_count, s2) = gc_values live s1
     in (node_count + value_count, s2))"

text \<open>
  Generational collection of one table: drop the tombstones of live hashes, delete what was
  tombstoned in an earlier cycle and is still unreachable, and tombstone new orphans.
\<close>

definition gc_table_generational ::
  "u8 \<Rightarrow> node_hash set \<Rightarrow> u64 \<Rightarrow> (node_hash, 'v) hmap \<Rightarrow> (u8 \<times> node_hash, u64) hmap
    \<Rightarrow> usize \<times> (node_hash, 'v) hmap \<times> (u8 \<times> node_hash, u64) hmap" where
  "gc_table_generational disc live version table tombs =
    (let mine = filter (\<lambda>((d, h), tv). d = disc) tombs;
         tombstoned = map (\<lambda>((d, h), tv). h) mine;
         clear = filter (\<lambda>h. h \<in> live) tombstoned;
         reap = map (\<lambda>((d, h), tv). h) (filter (\<lambda>((d, h), tv). h \<notin> live \<and> tv < version) mine);
         tombs1 = fold (\<lambda>h t. hdel t (disc, h)) (clear @ reap) tombs;
         table1 = fold (\<lambda>h t. hdel t h) reap table;
         new_tomb = filter (\<lambda>h. h \<notin> live \<and> h \<notin> set tombstoned) (hkeys table1)
     in (length reap, table1, fold (\<lambda>h t. hput t (disc, h) version) new_tomb tombs1))"

definition gc_nodes_generational :: "node_hash set \<Rightarrow> u64 \<Rightarrow> trie_storage \<Rightarrow> usize \<times> trie_storage" where
  "gc_nodes_generational live version s =
    (case gc_table_generational 110 live version (trie_nodes s) (trie_tombstones s) of
       (n, t, tombs) \<Rightarrow> (n, s\<lparr>trie_nodes := t, trie_tombstones := tombs\<rparr>))"

definition gc_values_generational :: "node_hash set \<Rightarrow> u64 \<Rightarrow> trie_storage \<Rightarrow> usize \<times> trie_storage" where
  "gc_values_generational live version s =
    (case gc_table_generational 118 live version (trie_values s) (trie_tombstones s) of
       (n, t, tombs) \<Rightarrow> (n, s\<lparr>trie_values := t, trie_tombstones := tombs\<rparr>))"

section \<open>Write buffers\<close>

record trie_cache =
  pending_nodes :: "(node_hash, trie_node) hmap"
  pending_values :: "(node_hash, u8 list) hmap"
  storage :: trie_storage

definition TrieCache_new :: "trie_storage \<Rightarrow> trie_cache" where
  "TrieCache_new s = \<lparr>pending_nodes = [], pending_values = [], storage = s\<rparr>"

definition get_node :: "trie_cache \<Rightarrow> node_hash \<Rightarrow> trie_node option" where
  "get_node c hash =
    (case hget (pending_nodes c) hash of Some node \<Rightarrow> Some node | None \<Rightarrow> load_node (storage c) hash)"

definition put_node :: "trie_cache \<Rightarrow> node_hash \<Rightarrow> trie_node \<Rightarrow> trie_cache" where
  "put_node c hash node = c\<lparr>pending_nodes := hput (pending_nodes c) hash node\<rparr>"

definition store_value :: "trie_cache \<Rightarrow> node_hash \<Rightarrow> u8 list \<Rightarrow> trie_cache" where
  "store_value c hash val = c\<lparr>pending_values := hput (pending_values c) hash val\<rparr>"

definition load_value :: "trie_cache \<Rightarrow> node_hash \<Rightarrow> u8 list option" where
  "load_value c hash =
    (case hget (pending_values c) hash of Some v \<Rightarrow> Some v | None \<Rightarrow> storage_load_value (storage c) hash)"

text \<open>\<open>commit_res\<close> is the outcome of the database transaction.\<close>

definition flush_pending :: "unit result \<Rightarrow> u64 \<Rightarrow> node_hash \<Rightarrow> trie_cache \<Rightarrow> unit result \<times> trie_cache" where
  "flush_pending commit_res version root c =
    (case commit_res of
       Err e \<Rightarrow> (Err e, c)
     | Ok _ \<Rightarrow> (Ok (), c\<lparr>storage := flush_trie_batch (pending_nodes c) (pending_values c) version root (storage c),
                     pending_nodes := [], pending_values := []\<rparr>))"

definition cache_delete_node :: "trie_cache \<Rightarrow> node_hash \<Rightarrow> trie_cache" where
  "cache_delete_node c hash =
    c\<lparr>storage := storage_delete_node (storage c) hash, pending_nodes := hdel (pending_nodes c) hash\<rparr>"

definition cache_delete_value :: "trie_cache \<Rightarrow> node_hash \<Rightarrow> trie_cache" where
  "cache_delete_value c hash =
    c\<lparr>storage := storage_delete_value (storage c) hash, pending_values := hdel (pending_values c) hash\<rparr>"

end
