(* ===== verification/Trie.thy ===== *)
theory Trie
  imports Trie_Store "HOL-Library.Monad_Syntax"
begin

text \<open>
  The binary sparse Merkle tree: \<open>sentrix-trie/src/tree.rs\<close>. The loops that descend the tree are
  recursive functions on the depth, which they bound by 256. The walks that verify and collect nodes
  have no bound in the code and are partial functions. The hashes of replaced nodes that \<open>insert\<close>
  and \<open>delete\<close> gather and then ignore are left out.
\<close>

record sentrix_trie =
  cache :: trie_cache
  root :: node_hash
  trie_version :: u64
  canonical_delete :: bool

definition open_trie :: "hasher \<Rightarrow> trie_storage \<Rightarrow> u64 \<Rightarrow> sentrix_trie" where
  "open_trie H mdbx version =
    (let s = TrieStorage_new mdbx
     in \<lparr>cache = TrieCache_new s,
         root = (case load_root s version of Some r \<Rightarrow> r | None \<Rightarrow> empty_hash H 0),
         trie_version = version, canonical_delete = False\<rparr>)"

definition set_canonical_delete :: "bool \<Rightarrow> sentrix_trie \<Rightarrow> sentrix_trie" where
  "set_canonical_delete b t = t\<lparr>canonical_delete := b\<rparr>"

definition missing_node :: "hasher \<Rightarrow> node_hash \<Rightarrow> sentrix_error" where
  "missing_node H h = Internal (''trie: missing node '' @ hex_encode H h)"

section \<open>Insertion\<close>

text \<open>Below a leaf with another key: one empty sibling per shared bit, then the leaf itself.\<close>

function expand_leaf ::
  "hasher \<Rightarrow> trie_key \<Rightarrow> trie_key \<Rightarrow> node_hash \<Rightarrow> usize \<Rightarrow> (node_hash \<times> bool) list \<Rightarrow> (node_hash \<times> bool) list result" where
  "expand_leaf H key leaf_key leaf_vh split path =
    (if 256 \<le> split then Err (Internal ''trie: two keys are identical'')
     else if get_bit key split \<noteq> get_bit leaf_key split then Ok (path @ [(leaf_vh, get_bit key split)])
     else expand_leaf H key leaf_key leaf_vh (split + 1) (path @ [(empty_hash H (split + 1), get_bit key split)]))"
  by pat_completeness auto
termination by (relation "measure (\<lambda>(H, k, lk, vh, split, p). 256 - split)") auto

function insert_walk ::
  "hasher \<Rightarrow> trie_cache \<Rightarrow> trie_key \<Rightarrow> node_hash \<Rightarrow> usize \<Rightarrow> (node_hash \<times> bool) list \<Rightarrow> (node_hash \<times> bool) list result" where
  "insert_walk H c key current depth path =
    (if 256 < depth then Err (Internal (''SMT depth exceeded 256 '' @ em_dash @ '' key space exhausted''))
     else if current = empty_hash H depth then Ok path
     else case get_node c current of
         None \<Rightarrow> Err (missing_node H current)
       | Some (Leaf leaf_key leaf_vh) \<Rightarrow>
           if leaf_key = key then Ok path else expand_leaf H key leaf_key leaf_vh depth path
       | Some (Internal_node left right _) \<Rightarrow>
           if 256 \<le> depth
           then Err (Internal (''trie: corrupt tree '' @ em_dash @ '' Internal node at depth 256 (key space exhausted)''))
           else
             let bit = get_bit key depth;
                 (child, sibling) = (if bit then (right, left) else (left, right))
             in insert_walk H c key child (depth + 1) (path @ [(sibling, bit)]))"
  by pat_completeness auto
termination by (relation "measure (\<lambda>(H, c, k, h, depth, p). 257 - depth)") auto

declare expand_leaf.simps [simp del] insert_walk.simps [simp del]

definition link_up :: "hasher \<Rightarrow> node_hash \<times> bool \<Rightarrow> node_hash \<times> trie_cache \<Rightarrow> node_hash \<times> trie_cache" where
  "link_up H = (\<lambda>(sibling, is_right) (up_hash, c).
    let (left, right) = (if is_right then (sibling, up_hash) else (up_hash, sibling));
        h = hash_internal H left right
    in (h, put_node c h (Internal_node left right h)))"

definition trie_insert :: "hasher \<Rightarrow> trie_key \<Rightarrow> u8 list \<Rightarrow> sentrix_trie \<Rightarrow> node_hash result \<times> sentrix_trie" where
  "trie_insert H key val t =
    (let new_value_hash = hash_leaf H key val
     in case insert_walk H (cache t) key (root t) 0 [] of
          Err e \<Rightarrow> (Err e, t)
        | Ok path \<Rightarrow>
            let c1 = put_node (cache t) new_value_hash (Leaf key new_value_hash);
                c2 = store_value c1 new_value_hash val;
                (up_hash, c3) = fold (link_up H) (rev path) (new_value_hash, c2)
            in (Ok up_hash, t\<lparr>cache := c3, root := up_hash\<rparr>))"

section \<open>Lookup\<close>

text \<open>\<open>None\<close> is the panic of indexing bit 256 below an internal node of a corrupt tree.\<close>

function get_walk :: "hasher \<Rightarrow> trie_cache \<Rightarrow> trie_key \<Rightarrow> node_hash \<Rightarrow> usize \<Rightarrow> u8 list option result option" where
  "get_walk H c key current depth =
    (if 256 < depth then Some (Ok None)
     else if current = empty_hash H depth then Some (Ok None)
     else case get_node c current of
         None \<Rightarrow> Some (Err (missing_node H current))
       | Some (Leaf leaf_key value_hash) \<Rightarrow>
           if leaf_key = key then Some (Ok (load_value c value_hash)) else Some (Ok None)
       | Some (Internal_node left right _) \<Rightarrow>
           if 256 \<le> depth then None
           else get_walk H c key (if get_bit key depth then right else left) (depth + 1))"
  by pat_completeness auto
termination by (relation "measure (\<lambda>(H, c, k, h, depth). 257 - depth)") auto

declare get_walk.simps [simp del]

definition trie_get :: "hasher \<Rightarrow> sentrix_trie \<Rightarrow> trie_key \<Rightarrow> u8 list option result option" where
  "trie_get H t key = get_walk H (cache t) key (root t) 0"

section \<open>Deletion\<close>

text \<open>The walk down: \<open>Ok None\<close> when the key is absent, else the path to its leaf.\<close>

function delete_walk ::
  "hasher \<Rightarrow> trie_cache \<Rightarrow> trie_key \<Rightarrow> node_hash \<Rightarrow> usize \<Rightarrow> (node_hash \<times> bool) list
    \<Rightarrow> (usize \<times> (node_hash \<times> bool) list) option result" where
  "delete_walk H c key current depth path =
    (if 256 < depth then Ok None
     else if current = empty_hash H depth then Ok None
     else case get_node c current of
         None \<Rightarrow> Err (missing_node H current)
       | Some (Leaf leaf_key leaf_vh) \<Rightarrow> if leaf_key \<noteq> key then Ok None else Ok (Some (depth, path))
       | Some (Internal_node left right _) \<Rightarrow>
           if 256 \<le> depth then Err (Internal (''trie: corrupt tree '' @ em_dash @ '' Internal node at depth 256''))
           else
             let bit = get_bit key depth;
                 (child, sibling) = (if bit then (right, left) else (left, right))
             in delete_walk H c key child (depth + 1) (path @ [(sibling, bit)]))"
  by pat_completeness auto
termination by (relation "measure (\<lambda>(H, c, k, h, depth, p). 257 - depth)") auto

declare delete_walk.simps [simp del]

datatype up = UpEmpty | UpLeaf node_hash | UpInternal node_hash

fun up_or :: "node_hash \<Rightarrow> up \<Rightarrow> node_hash" where
  "up_or d UpEmpty = d"
| "up_or d (UpLeaf h) = h"
| "up_or d (UpInternal h) = h"

definition is_leaf_node :: "trie_node option \<Rightarrow> bool" where
  "is_leaf_node n = (case n of Some (Leaf _ _) \<Rightarrow> True | _ \<Rightarrow> False)"

text \<open>One level of the walk up, from depth \<open>d + 1\<close> to depth \<open>d\<close>.\<close>

definition relink :: "hasher \<Rightarrow> bool \<Rightarrow> usize \<Rightarrow> node_hash \<times> bool \<Rightarrow> up \<times> trie_cache \<Rightarrow> up \<times> trie_cache" where
  "relink H canonical d = (\<lambda>(sibling, is_right) (up, c).
    let child_empty = empty_hash H (d + 1);
        sib_empty = (sibling = child_empty);
        our_hash = up_or child_empty up;
        (left, right) = (if is_right then (sibling, our_hash) else (our_hash, sibling));
        h = hash_internal H left right;
        branch = (UpInternal h, put_node c h (Internal_node left right h))
    in if canonical then
         let sib_is_leaf = (if sib_empty then False else is_leaf_node (get_node c sibling))
         in case up of
              UpEmpty \<Rightarrow> if sib_empty then (UpEmpty, c) else if sib_is_leaf then (UpLeaf sibling, c) else branch
            | UpLeaf h' \<Rightarrow> if sib_empty then (UpLeaf h', c) else branch
            | UpInternal h' \<Rightarrow> branch
       else if left = child_empty \<and> right = child_empty then (UpEmpty, c) else branch)"

text \<open>The walk up over the reversed path, which stops early at depth 0.\<close>

fun relink_path :: "hasher \<Rightarrow> bool \<Rightarrow> (node_hash \<times> bool) list \<Rightarrow> usize \<Rightarrow> up \<times> trie_cache \<Rightarrow> usize \<times> up \<times> trie_cache" where
  "relink_path H canonical [] up_depth st = (up_depth, st)"
| "relink_path H canonical (x # xs) up_depth st =
    (if up_depth = 0 then (up_depth, st)
     else relink_path H canonical xs (up_depth - 1) (relink H canonical (up_depth - 1) x st))"

definition trie_delete :: "hasher \<Rightarrow> trie_key \<Rightarrow> sentrix_trie \<Rightarrow> node_hash result \<times> sentrix_trie" where
  "trie_delete H key t =
    (case delete_walk H (cache t) key (root t) 0 [] of
       Err e \<Rightarrow> (Err e, t)
     | Ok None \<Rightarrow> (Ok (root t), t)
     | Ok (Some (found_depth, path)) \<Rightarrow>
         let (up_depth, up, c) = relink_path H (canonical_delete t) (rev path) found_depth (UpEmpty, cache t);
             up_hash = up_or (empty_hash H up_depth) up
         in (Ok up_hash, t\<lparr>cache := c, root := up_hash\<rparr>))"

section \<open>Proofs\<close>

function prove_walk ::
  "hasher \<Rightarrow> trie_cache \<Rightarrow> trie_key \<Rightarrow> node_hash \<Rightarrow> usize \<Rightarrow> node_hash list \<Rightarrow> merkle_proof result" where
  "prove_walk H c key current depth siblings =
    (let absent = (\<lambda>terminal. \<lparr>mp_key = key, mp_value = [], mp_siblings = siblings, mp_depth = depth,
           mp_found = False, mp_terminal_hash = terminal\<rparr>)
     in if 256 < depth then Ok (absent (empty_hash H depth))
        else if current = empty_hash H depth then Ok (absent (empty_hash H depth))
        else case get_node c current of
            None \<Rightarrow> Err (Internal ''trie: missing node in prove'')
          | Some (Leaf leaf_key value_hash) \<Rightarrow>
              if leaf_key = key then
                let val = (case load_value c value_hash of Some v \<Rightarrow> v | None \<Rightarrow> [])
                in Ok \<lparr>mp_key = key, mp_value = val, mp_siblings = siblings, mp_depth = depth,
                       mp_found = True, mp_terminal_hash = hash_leaf H key val\<rparr>
              else Ok (absent value_hash)
          | Some (Internal_node left right _) \<Rightarrow>
              if 256 \<le> depth
              then Err (Internal (''trie: corrupt tree '' @ em_dash @ '' Internal node at depth 256 in prove''))
              else
                let (child, sibling) = (if get_bit key depth then (right, left) else (left, right))
                in prove_walk H c key child (depth + 1) (siblings @ [sibling]))"
  by pat_completeness auto
termination by (relation "measure (\<lambda>(H, c, k, h, depth, s). 257 - depth)") auto

declare prove_walk.simps [simp del]

definition prove :: "hasher \<Rightarrow> sentrix_trie \<Rightarrow> trie_key \<Rightarrow> merkle_proof result" where
  "prove H t key = prove_walk H (cache t) key (root t) 0 []"

section \<open>Versions\<close>

definition trie_commit :: "unit result \<Rightarrow> u64 \<Rightarrow> sentrix_trie \<Rightarrow> node_hash result \<times> sentrix_trie" where
  "trie_commit commit_res version t =
    (case flush_pending commit_res version (root t) (cache t) of
       (Err e, c) \<Rightarrow> (Err e, t\<lparr>cache := c\<rparr>)
     | (Ok _, c) \<Rightarrow> (Ok (root t), t\<lparr>cache := c, trie_version := version\<rparr>))"

definition root_at_version :: "sentrix_trie \<Rightarrow> u64 \<Rightarrow> node_hash option" where
  "root_at_version t version = load_root (storage (cache t)) version"

definition node_exists :: "sentrix_trie \<Rightarrow> node_hash \<Rightarrow> bool" where
  "node_exists t hash \<longleftrightarrow> load_node (storage (cache t)) hash \<noteq> None"

definition reset_to_empty :: "hasher \<Rightarrow> sentrix_trie \<Rightarrow> sentrix_trie" where
  "reset_to_empty H t = t\<lparr>root := empty_hash H 0\<rparr>"

definition set_root :: "node_hash \<Rightarrow> sentrix_trie \<Rightarrow> sentrix_trie" where
  "set_root target_root t = t\<lparr>root := target_root\<rparr>"

definition clone_trie :: "sentrix_trie \<Rightarrow> sentrix_trie" where
  "clone_trie t = t\<lparr>cache := TrieCache_new (storage (cache t))\<rparr>"

section \<open>Integrity\<close>

text \<open>
  Both walks recurse as long as nodes are found; \<open>None\<close> is a walk that does not end.
\<close>

definition orphan_node_msg :: "hasher \<Rightarrow> node_hash \<Rightarrow> usize \<Rightarrow> string" where
  "orphan_node_msg H hash depth =
    ''trie integrity: orphan node reference '' @ hex_encode H hash @ '' at depth '' @ show_nat depth @ '' '' @ em_dash @
    '' the trie references a node that is missing from trie_nodes. Chain.db is damaged (historical artifact of a pre-v2.1.5 state_import or a crash mid-commit). Recover via rsync of chain.db from a healthy peer.''"

definition orphan_value_msg :: "hasher \<Rightarrow> node_hash \<Rightarrow> node_hash \<Rightarrow> usize \<Rightarrow> string" where
  "orphan_value_msg H value_hash hash depth =
    ''trie integrity: orphan value reference '' @ hex_encode H value_hash @ '' from leaf '' @ hex_encode H hash @
    '' at depth '' @ show_nat depth @ '' '' @ em_dash @
    '' the trie references a value that is missing from trie_values. Same recovery as orphan-node: rsync chain.db from a healthy peer.''"

definition strict_leaf_msg :: "hasher \<Rightarrow> node_hash \<Rightarrow> node_hash \<Rightarrow> node_hash \<Rightarrow> string" where
  "strict_leaf_msg H hash value_hash computed =
    ''trie strict integrity: leaf at '' @ hex_encode H hash @ '' declares value_hash '' @ hex_encode H value_hash @
    '' but hash_leaf(key, value) computes '' @ hex_encode H computed @ '' '' @ em_dash @
    '' MDBX trie node table contents do not match their content-addressing. Likely cause: chain.db was rsync'' @ [CHR 0x27] @
    ''d while the source validator was actively writing. Recovery: rsync from a HALTED source.''"

definition strict_self_msg :: "hasher \<Rightarrow> node_hash \<Rightarrow> node_hash \<Rightarrow> string" where
  "strict_self_msg H hash stored_hash =
    ''trie strict integrity: internal node loaded by hash '' @ hex_encode H hash @ '' declares self-hash '' @
    hex_encode H stored_hash @ '' '' @ em_dash @ '' node was stored under the wrong key (MDBX corruption)''"

definition strict_children_msg :: "hasher \<Rightarrow> node_hash \<Rightarrow> node_hash \<Rightarrow> node_hash \<Rightarrow> node_hash \<Rightarrow> node_hash \<Rightarrow> string" where
  "strict_children_msg H hash stored_hash left right computed =
    ''trie strict integrity: internal node at '' @ hex_encode H hash @ '' declares self-hash '' @ hex_encode H stored_hash @
    '' but hash_internal(left='' @ hex_encode H left @ '', right='' @ hex_encode H right @ '') computes '' @
    hex_encode H computed @ '' '' @ em_dash @
    '' children relationship broken. Likely cause: chain.db rsync-while-live, where some MDBX pages were copied at a different commit snapshot than this internal node'' @ [CHR 0x27] @
    ''s parent expected. The trie loads cleanly (presence check passes) but produces wrong state_roots on insert. Recovery: rsync chain.db from a HALTED source validator.''"

partial_function (option) walk_verify :: "hasher \<Rightarrow> trie_storage \<Rightarrow> node_hash \<Rightarrow> usize \<Rightarrow> unit result option" where
  "walk_verify H s hash depth =
    (if hash = empty_hash H (min depth 256) then Some (Ok ())
     else case load_node s hash of
         None \<Rightarrow> Some (Err (Internal (orphan_node_msg H hash depth)))
       | Some (Leaf key value_hash) \<Rightarrow>
           if storage_load_value s value_hash = None
           then Some (Err (Internal (orphan_value_msg H value_hash hash depth)))
           else Some (Ok ())
       | Some (Internal_node left right _) \<Rightarrow>
           Option.bind (walk_verify H s left (depth + 1)) (\<lambda>res.
             case res of Err e \<Rightarrow> Some (Err e) | Ok _ \<Rightarrow> walk_verify H s right (depth + 1)))"

partial_function (option) walk_verify_strict :: "hasher \<Rightarrow> trie_storage \<Rightarrow> node_hash \<Rightarrow> usize \<Rightarrow> unit result option" where
  "walk_verify_strict H s hash depth =
    (if hash = empty_hash H (min depth 256) then Some (Ok ())
     else case load_node s hash of
         None \<Rightarrow> Some (Err (Internal (''trie strict integrity: missing node '' @ hex_encode H hash @ '' at depth '' @ show_nat depth)))
       | Some (Leaf key value_hash) \<Rightarrow>
           (case storage_load_value s value_hash of
              None \<Rightarrow> Some (Err (Internal (''trie strict integrity: missing value '' @ hex_encode H value_hash @ '' at leaf '' @ hex_encode H hash)))
            | Some v \<Rightarrow>
                if hash_leaf H key v \<noteq> value_hash
                then Some (Err (Internal (strict_leaf_msg H hash value_hash (hash_leaf H key v))))
                else Some (Ok ()))
       | Some (Internal_node left right stored_hash) \<Rightarrow>
           if stored_hash \<noteq> hash
           then Some (Err (Internal (strict_self_msg H hash stored_hash)))
           else if hash_internal H left right \<noteq> stored_hash
           then Some (Err (Internal (strict_children_msg H hash stored_hash left right (hash_internal H left right))))
           else Option.bind (walk_verify_strict H s left (depth + 1)) (\<lambda>res.
             case res of Err e \<Rightarrow> Some (Err e) | Ok _ \<Rightarrow> walk_verify_strict H s right (depth + 1)))"

definition verify_integrity :: "hasher \<Rightarrow> sentrix_trie \<Rightarrow> unit result option" where
  "verify_integrity H t =
    (if root t = empty_hash H 0 then Some (Ok ()) else walk_verify H (storage (cache t)) (root t) 0)"

definition verify_integrity_strict :: "hasher \<Rightarrow> sentrix_trie \<Rightarrow> unit result option" where
  "verify_integrity_strict H t =
    (if root t = empty_hash H 0 then Some (Ok ()) else walk_verify_strict H (storage (cache t)) (root t) 0)"

section \<open>Pruning\<close>

partial_function (option) collect_reachable ::
  "hasher \<Rightarrow> trie_storage \<Rightarrow> node_hash \<Rightarrow> usize \<Rightarrow> node_hash set \<Rightarrow> node_hash set option" where
  "collect_reachable H s hash depth live =
    (if hash = empty_hash H depth \<or> hash \<in> live then Some live
     else case load_node s hash of
         None \<Rightarrow> Some (insert hash live)
       | Some (Leaf key value_hash) \<Rightarrow> Some (insert value_hash (insert hash live))
       | Some (Internal_node left right _) \<Rightarrow>
           Option.bind (collect_reachable H s left (depth + 1) (insert hash live)) (\<lambda>live.
             collect_reachable H s right (depth + 1) live))"

fun collect_versions :: "hasher \<Rightarrow> trie_storage \<Rightarrow> u64 list \<Rightarrow> node_hash set \<Rightarrow> node_hash set option" where
  "collect_versions H s [] live = Some live"
| "collect_versions H s (version # vs) live =
    (case load_root s version of
       Some r \<Rightarrow>
         if r \<notin> live then Option.bind (collect_reachable H s r 0 live) (collect_versions H s vs)
         else collect_versions H s vs live
     | None \<Rightarrow> collect_versions H s vs live)"

definition live_set :: "hasher \<Rightarrow> sentrix_trie \<Rightarrow> trie_storage \<Rightarrow> u64 \<Rightarrow> node_hash set option" where
  "live_set H t s keep =
    Option.bind (collect_reachable H s (root t) 0 {}) (\<lambda>live.
      let cutoff = saturating_sub (trie_version t) keep
      in collect_versions H s [cutoff + 1..<trie_version t + 1] live)"

definition with_storage :: "sentrix_trie \<Rightarrow> trie_storage \<Rightarrow> sentrix_trie" where
  "with_storage t s = t\<lparr>cache := (cache t)\<lparr>storage := s\<rparr>\<rparr>"

definition prune_offline :: "hasher \<Rightarrow> u64 \<Rightarrow> sentrix_trie \<Rightarrow> ((usize \<times> usize) \<times> sentrix_trie) option" where
  "prune_offline H keep t =
    (let (roots_pruned, s1) = prune_old_roots (trie_version t) keep (storage (cache t))
     in if roots_pruned = 0 then Some ((0, 0), with_storage t s1)
        else Option.bind (live_set H t s1 keep) (\<lambda>live.
          let (gc, s2) = gc_orphaned_nodes live s1 in Some ((roots_pruned, gc), with_storage t s2)))"

definition augment_live_to_latest ::
  "hasher \<Rightarrow> sentrix_trie \<Rightarrow> trie_storage \<Rightarrow> node_hash set \<Rightarrow> u64 \<Rightarrow> (u64 \<times> node_hash set) option" where
  "augment_live_to_latest H t s live from_version =
    (let latest = (case latest_version s of Some v \<Rightarrow> v | None \<Rightarrow> trie_version t)
     in map_option (\<lambda>live. (latest, live)) (collect_versions H s [from_version..<latest + 1] live))"

text \<open>
  The background prune. Between its passes other threads commit: \<open>during\<close> is what they do to the
  storage after the roots are pruned and the live set is walked, before the nodes pass and before the
  values pass.
\<close>

definition prune ::
  "hasher \<Rightarrow> (trie_storage \<Rightarrow> trie_storage) \<times> (trie_storage \<Rightarrow> trie_storage) \<times> (trie_storage \<Rightarrow> trie_storage)
    \<Rightarrow> u64 \<Rightarrow> sentrix_trie \<Rightarrow> ((usize \<times> usize) \<times> sentrix_trie) option" where
  "prune H during keep t =
    (let (during1, during2, during3) = during;
         (roots_pruned, s1) = prune_old_roots (trie_version t) keep (storage (cache t))
     in if roots_pruned = 0 then Some ((0, 0), with_storage t s1)
        else Option.bind (live_set H t s1 keep) (\<lambda>live0.
          let s2 = during1 s1
          in Option.bind (augment_live_to_latest H t s2 live0 (trie_version t + 1)) (\<lambda>(on_disk_latest, live1).
            let (nodes_gc, s3) = gc_nodes_generational live1 (trie_version t) (during2 s2);
                s4 = during3 s3
            in Option.bind (augment_live_to_latest H t s4 live1 (on_disk_latest + 1)) (\<lambda>(_, live2).
              let (values_gc, s5) = gc_values_generational live2 (trie_version t) s4
              in Some ((roots_pruned, nodes_gc + values_gc), with_storage t s5)))))"

end
