(* ===== verification/Trie_Tree.thy ===== *)
theory Trie_Tree
  imports Trie
begin

text \<open>
  Key-value trees as data, without hashes or storage: the shapes that the trie keeps, their
  insertion, lookup and deletion, and the hash of a tree. A tree without lone leaves below the point
  where their keys branch is canonical and determined by its entries.
\<close>

section \<open>Empty subtrees and key bits\<close>

definition table_from :: "hasher \<Rightarrow> nat \<Rightarrow> node_hash list" where
  "table_from H m =
    fold (\<lambda>d table. table[d := hash_internal H (table ! (d + 1)) (table ! (d + 1))]) (rev [256 - m..<256])
      ((replicate 257 NULL_HASH)[256 := sha256 H (replicate 32 0)])"

lemma table_from_0: "table_from H 0 = (replicate 257 NULL_HASH)[256 := sha256 H (replicate 32 0)]"
  by (simp add: table_from_def)

lemma table_from_Suc:
  assumes "m < 256"
  shows "table_from H (Suc m) =
    (table_from H m)[255 - m := hash_internal H (table_from H m ! (256 - m)) (table_from H m ! (256 - m))]"
proof -
  have "[256 - Suc m..<256] = (255 - m) # [256 - m..<256]"
    using assms by (subst upt_conv_Cons) (auto simp: Suc_diff_le [symmetric])
  then have "rev [256 - Suc m..<256] = rev [256 - m..<256] @ [255 - m]" by simp
  moreover have "255 - m + 1 = 256 - m" using assms by simp
  ultimately show ?thesis by (simp add: table_from_def del: upt_Suc)
qed

lemma table_from_entries:
  assumes "m \<le> 256"
  shows "length (table_from H m) = 257 \<and> table_from H m ! 256 = sha256 H (replicate 32 0) \<and>
    (\<forall>d. 256 - m \<le> d \<longrightarrow> d < 256 \<longrightarrow>
      table_from H m ! d = hash_internal H (table_from H m ! (d + 1)) (table_from H m ! (d + 1)))"
  using assms
proof (induction m)
  case 0
  then show ?case by (simp add: table_from_0)
next
  case (Suc m)
  then have "Suc (255 - m) = 256 - m" by simp
  with Suc show ?case by (auto simp: table_from_Suc nth_list_update)
qed

lemma empty_hash_256: "empty_hash H 256 = sha256 H (replicate 32 0)"
  and empty_hash_step: "d < 256 \<Longrightarrow> empty_hash H d = hash_internal H (empty_hash H (d + 1)) (empty_hash H (d + 1))"
proof -
  have "compute_empty_hashes H = table_from H 256" by (simp add: compute_empty_hashes_def table_from_def)
  with table_from_entries [of 256 H]
  show "empty_hash H 256 = sha256 H (replicate 32 0)"
    and "d < 256 \<Longrightarrow> empty_hash H d = hash_internal H (empty_hash H (d + 1)) (empty_hash H (d + 1))"
    by (simp_all add: empty_hash_def)
qed

definition valid_key :: "trie_key \<Rightarrow> bool" where
  "valid_key k \<longleftrightarrow> length k = 32 \<and> list_all (\<lambda>b. b < 256) k"

lemma byte_bits_differ:
  assumes "x < 256" "y < (256 :: nat)" "x \<noteq> y"
  shows "\<exists>b < 8. (x div 2 ^ b mod 2 = 1) \<noteq> (y div 2 ^ b mod 2 = 1)"
proof (rule ccontr)
  assume same: "\<not> ?thesis"
  have "bit x n \<longleftrightarrow> bit y n" for n
  proof (cases "n < 8")
    case True
    with same show ?thesis by (auto simp: bit_nat_def odd_iff_mod_2_eq_one)
  next
    case False
    then have "(2 :: nat) ^ 8 \<le> 2 ^ n" by (intro power_increasing) auto
    then have "x div 2 ^ n = 0" "y div 2 ^ n = 0" using assms by auto
    then show ?thesis by (simp add: bit_nat_def)
  qed
  then have "x = y" by (simp add: bit_eq_iff)
  with assms(3) show False by simp
qed

lemma keys_differ:
  assumes "valid_key k" "valid_key k'" "k \<noteq> k'"
  shows "\<exists>i < 256. get_bit k i \<noteq> get_bit k' i"
proof -
  from assms obtain j where j: "j < 32" "k ! j \<noteq> k' ! j"
    by (auto simp: valid_key_def list_eq_iff_nth_eq)
  have "k ! j < 256" "k' ! j < 256" using assms j by (auto simp: valid_key_def list_all_length)
  from byte_bits_differ [OF this j(2)] obtain b
    where b: "b < 8" "(k ! j div 2 ^ b mod 2 = 1) \<noteq> (k' ! j div 2 ^ b mod 2 = 1)" by blast
  define c where "c = 7 - b"
  define i where "i = 8 * j + c"
  have "c < 8" "7 - c = b" using b(1) by (simp_all add: c_def)
  then have "i div 8 = j" "7 - i mod 8 = b" "i < 256"
    using j(1) by (simp_all add: i_def)
  with b(2) show ?thesis by (intro exI [of _ i]) (simp add: get_bit_def)
qed

section \<open>Trees\<close>

datatype smt = E | L trie_key "u8 list" | N smt smt

fun entries :: "smt \<Rightarrow> (trie_key \<times> u8 list) set" where
  "entries E = {}"
| "entries (L k v) = {(k, v)}"
| "entries (N l r) = entries l \<union> entries r"

fun is_N :: "smt \<Rightarrow> bool" where
  "is_N (N l r) = True"
| "is_N _ = False"

text \<open>Keys sit on the side their bit selects, and no branch is empty on both sides.\<close>

fun wf_tree :: "nat \<Rightarrow> smt \<Rightarrow> bool" where
  "wf_tree d E = (d \<le> 256)"
| "wf_tree d (L k v) = (d \<le> 256 \<and> valid_key k)"
| "wf_tree d (N l r) = (d < 256 \<and> \<not> (l = E \<and> r = E) \<and> wf_tree (Suc d) l \<and> wf_tree (Suc d) r \<and>
     (\<forall>(k, v) \<in> entries l. \<not> get_bit k d) \<and> (\<forall>(k, v) \<in> entries r. get_bit k d))"

text \<open>The canonical shape: a branch with an empty side has a branch on the other.\<close>

fun canonical :: "smt \<Rightarrow> bool" where
  "canonical E = True"
| "canonical (L k v) = True"
| "canonical (N l r) = (canonical l \<and> canonical r \<and> (l = E \<longrightarrow> is_N r) \<and> (r = E \<longrightarrow> is_N l))"

fun tget :: "nat \<Rightarrow> trie_key \<Rightarrow> smt \<Rightarrow> u8 list option" where
  "tget d k E = None"
| "tget d k (L k' v) = (if k' = k then Some v else None)"
| "tget d k (N l r) = tget (Suc d) k (if get_bit k d then r else l)"

text \<open>Two leaves under the branches of their shared bits.\<close>

function two_leaves :: "nat \<Rightarrow> trie_key \<Rightarrow> u8 list \<Rightarrow> trie_key \<Rightarrow> u8 list \<Rightarrow> smt" where
  "two_leaves d k v k' v' =
    (if 256 \<le> d then E
     else if get_bit k d \<noteq> get_bit k' d then (if get_bit k d then N (L k' v') (L k v) else N (L k v) (L k' v'))
     else if get_bit k d then N E (two_leaves (Suc d) k v k' v') else N (two_leaves (Suc d) k v k' v') E)"
  by pat_completeness auto
termination by (relation "measure (\<lambda>(d, k, v, k', v'). 256 - d)") auto

declare two_leaves.simps [simp del]

fun tins :: "nat \<Rightarrow> trie_key \<Rightarrow> u8 list \<Rightarrow> smt \<Rightarrow> smt" where
  "tins d k v E = L k v"
| "tins d k v (L k' v') = (if k' = k then L k v else two_leaves d k v k' v')"
| "tins d k v (N l r) = (if get_bit k d then N l (tins (Suc d) k v r) else N (tins (Suc d) k v l) r)"

fun join :: "bool \<Rightarrow> smt \<Rightarrow> smt \<Rightarrow> smt" where
  "join canon E E = E"
| "join canon E (L k v) = (if canon then L k v else N E (L k v))"
| "join canon (L k v) E = (if canon then L k v else N (L k v) E)"
| "join canon l r = N l r"

fun tdel :: "bool \<Rightarrow> nat \<Rightarrow> trie_key \<Rightarrow> smt \<Rightarrow> smt" where
  "tdel canon d k E = E"
| "tdel canon d k (L k' v') = (if k' = k then E else L k' v')"
| "tdel canon d k (N l r) =
    (if get_bit k d then join canon l (tdel canon (Suc d) k r) else join canon (tdel canon (Suc d) k l) r)"

fun thash :: "hasher \<Rightarrow> nat \<Rightarrow> smt \<Rightarrow> node_hash" where
  "thash H d E = empty_hash H d"
| "thash H d (L k v) = hash_leaf H k v"
| "thash H d (N l r) = hash_internal H (thash H (Suc d) l) (thash H (Suc d) r)"

section \<open>Lookup, insertion and deletion on trees\<close>

lemma entries_valid: "wf_tree d t \<Longrightarrow> (k, v) \<in> entries t \<Longrightarrow> valid_key k"
  by (induction t arbitrary: d) auto

lemma entries_nonempty: "wf_tree d t \<Longrightarrow> t \<noteq> E \<Longrightarrow> entries t \<noteq> {}"
proof (induction t arbitrary: d)
  case (N l r)
  then show ?case by (cases "l = E") (simp_all, blast+)
qed auto

lemma tget_entries: "wf_tree d t \<Longrightarrow> tget d k t = Some v \<longleftrightarrow> (k, v) \<in> entries t"
proof (induction t arbitrary: d)
  case (N l r)
  then show ?case by (cases "get_bit k d") fastforce+
qed auto

lemma entries_unique: "wf_tree d t \<Longrightarrow> (k, v) \<in> entries t \<Longrightarrow> (k, w) \<in> entries t \<Longrightarrow> v = w"
  by (metis option.inject tget_entries)

lemma wf_tree_depth: "wf_tree d t \<Longrightarrow> d \<le> 256"
  by (cases t) auto

text \<open>Two keys that agree on the first \<open>d\<close> bits differ at a later one.\<close>

definition agree_below :: "nat \<Rightarrow> trie_key \<Rightarrow> trie_key \<Rightarrow> bool" where
  "agree_below d k k' \<longleftrightarrow> (\<forall>i < d. get_bit k i = get_bit k' i)"

lemma agree_below_Suc: "agree_below d k k' \<Longrightarrow> get_bit k d = get_bit k' d \<Longrightarrow> agree_below (Suc d) k k'"
  by (auto simp: agree_below_def less_Suc_eq)

lemma agree_below_256:
  "valid_key k \<Longrightarrow> valid_key k' \<Longrightarrow> k \<noteq> k' \<Longrightarrow> agree_below d k k' \<Longrightarrow> d < 256"
  using keys_differ [of k k'] by (metis agree_below_def linorder_not_less order_less_le_trans)

lemma two_leaves_props:
  assumes "valid_key k" "valid_key k'" "k \<noteq> k'" "agree_below d k k'"
  shows "wf_tree d (two_leaves d k v k' v') \<and> entries (two_leaves d k v k' v') = {(k, v), (k', v')} \<and>
    canonical (two_leaves d k v k' v') \<and> is_N (two_leaves d k v k' v')"
  using assms
proof (induction d k v k' v' rule: two_leaves.induct)
  case (1 d k v k' v')
  have d: "d < 256" by (rule agree_below_256 [OF "1.prems"])
  show ?case
  proof (cases "get_bit k d = get_bit k' d")
    case True
    with 1 d have IH: "wf_tree (Suc d) (two_leaves (Suc d) k v k' v') \<and>
        entries (two_leaves (Suc d) k v k' v') = {(k, v), (k', v')} \<and>
        canonical (two_leaves (Suc d) k v k' v') \<and> is_N (two_leaves (Suc d) k v k' v')"
      by (cases "get_bit k d") (simp_all add: agree_below_Suc)
    then have "two_leaves (Suc d) k v k' v' \<noteq> E" by auto
    with IH True d show ?thesis by (subst (1 2 3 4) two_leaves.simps) auto
  next
    case False
    with d "1.prems" show ?thesis by (subst (1 2 3 4) two_leaves.simps) auto
  qed
qed

text \<open>A subtree at depth \<open>d\<close> holds keys that agree below \<open>d\<close> with each other.\<close>

definition fits_under :: "nat \<Rightarrow> trie_key \<Rightarrow> smt \<Rightarrow> bool" where
  "fits_under d k t \<longleftrightarrow> (\<forall>(k', v') \<in> entries t. agree_below d k k')"

lemma fits_under_0 [simp]: "fits_under 0 k t"
  by (simp add: fits_under_def agree_below_def)

lemma fits_under_child:
  assumes "wf_tree d (N l r)" "fits_under d k (N l r)"
  shows "fits_under (Suc d) k (if get_bit k d then r else l)"
  using assms by (auto simp: fits_under_def split: if_splits intro!: agree_below_Suc)

lemma entries_tins:
  "wf_tree d t \<Longrightarrow> valid_key k \<Longrightarrow> fits_under d k t \<Longrightarrow>
    entries (tins d k v t) = insert (k, v) {p \<in> entries t. fst p \<noteq> k}"
proof (induction t arbitrary: d)
  case (L k' v')
  then show ?case using two_leaves_props [of k k' d v v'] by (auto simp: fits_under_def)
next
  case (N l r)
  note child = fits_under_child [OF N.prems(1,3)]
  have side: "\<forall>p \<in> entries l. \<not> get_bit (fst p) d" "\<forall>p \<in> entries r. get_bit (fst p) d"
    using N.prems(1) by auto
  show ?case
  proof (cases "get_bit k d")
    case True
    with N child have "entries (tins (Suc d) k v r) = insert (k, v) {p \<in> entries r. fst p \<noteq> k}" by simp
    moreover have "{p \<in> entries l. fst p \<noteq> k} = entries l" using side True by blast
    ultimately show ?thesis using True by (simp add: Collect_disj_eq conj_disj_distribR)
  next
    case False
    with N child have "entries (tins (Suc d) k v l) = insert (k, v) {p \<in> entries l. fst p \<noteq> k}" by simp
    moreover have "{p \<in> entries r. fst p \<noteq> k} = entries r" using side False by blast
    ultimately show ?thesis using False by (simp add: Collect_disj_eq conj_disj_distribR)
  qed
qed simp

lemma tins_not_E:
  "wf_tree d t \<Longrightarrow> valid_key k \<Longrightarrow> fits_under d k t \<Longrightarrow> tins d k v t \<noteq> E"
  using entries_tins [of d t k v] by auto

lemma wf_tins: "wf_tree d t \<Longrightarrow> valid_key k \<Longrightarrow> fits_under d k t \<Longrightarrow> wf_tree d (tins d k v t)"
proof (induction t arbitrary: d)
  case (L k' v')
  then show ?case using two_leaves_props [of k k' d v v'] by (auto simp: fits_under_def)
next
  case (N l r)
  note child = fits_under_child [OF N.prems(1,3)]
  show ?case
  proof (cases "get_bit k d")
    case True
    with N.prems child have "wf_tree (Suc d) r" "valid_key k" "fits_under (Suc d) k r" by simp_all
    from N.IH(2) [OF this] entries_tins [OF this, of v] tins_not_E [OF this, of v]
    show ?thesis using N.prems(1) True by simp
  next
    case False
    with N.prems child have "wf_tree (Suc d) l" "valid_key k" "fits_under (Suc d) k l" by simp_all
    from N.IH(1) [OF this] entries_tins [OF this, of v] tins_not_E [OF this, of v]
    show ?thesis using N.prems(1) False by simp
  qed
qed simp

lemma is_N_tins: "is_N t \<Longrightarrow> is_N (tins d k v t)"
  by (cases t) auto

lemma canonical_tins:
  "wf_tree d t \<Longrightarrow> valid_key k \<Longrightarrow> fits_under d k t \<Longrightarrow> canonical t \<Longrightarrow> canonical (tins d k v t)"
proof (induction t arbitrary: d)
  case (L k' v')
  then show ?case using two_leaves_props [of k k' d v v'] by (auto simp: fits_under_def)
next
  case (N l r)
  note child = fits_under_child [OF N.prems(1,3)]
  show ?case
  proof (cases "get_bit k d")
    case True
    with N.prems child have "wf_tree (Suc d) r" "valid_key k" "fits_under (Suc d) k r" by simp_all
    from N.IH(2) [OF this] tins_not_E [OF this, of v] is_N_tins [of r "Suc d" k v]
    show ?thesis using N.prems(4) True by simp
  next
    case False
    with N.prems child have "wf_tree (Suc d) l" "valid_key k" "fits_under (Suc d) k l" by simp_all
    from N.IH(1) [OF this] tins_not_E [OF this, of v] is_N_tins [of l "Suc d" k v]
    show ?thesis using N.prems(4) False by simp
  qed
qed simp

lemma wf_tree_L [simp]: "d \<le> 256 \<Longrightarrow> valid_key k \<Longrightarrow> wf_tree d (L k v)"
  by simp

lemma entries_join: "entries (join canon l r) = entries l \<union> entries r"
  by (cases "(canon, l, r)" rule: join.cases) auto

lemma wf_join:
  assumes "d < 256" "wf_tree (Suc d) l" "wf_tree (Suc d) r"
    "\<forall>(k, v) \<in> entries l. \<not> get_bit k d" "\<forall>(k, v) \<in> entries r. get_bit k d"
  shows "wf_tree d (join canon l r)"
  using assms by (cases "(canon, l, r)" rule: join.cases) auto

lemma canonical_join: "canonical l \<Longrightarrow> canonical r \<Longrightarrow> canonical (join True l r)"
  by (cases "(True, l, r)" rule: join.cases) auto

lemma entries_tdel:
  "wf_tree d t \<Longrightarrow> entries (tdel canon d k t) = {(k', v') \<in> entries t. k' \<noteq> k}"
proof (induction t arbitrary: d)
  case (N l r)
  then show ?case by (cases "get_bit k d") (auto simp: entries_join)
qed auto

lemma wf_tdel: "wf_tree d t \<Longrightarrow> wf_tree d (tdel canon d k t)"
proof (induction t arbitrary: d)
  case (N l r)
  then show ?case by (cases "get_bit k d") (auto intro!: wf_join simp: entries_tdel)
qed auto

lemma canonical_tdel: "canonical t \<Longrightarrow> canonical (tdel True d k t)"
  by (induction t arbitrary: d) (auto intro: canonical_join)

section \<open>Canonical trees are determined by their entries\<close>

lemma canonical_N_entries:
  "wf_tree d t \<Longrightarrow> canonical t \<Longrightarrow> is_N t \<Longrightarrow> \<exists>p q. p \<in> entries t \<and> q \<in> entries t \<and> p \<noteq> q"
proof (induction t arbitrary: d)
  case (N l r)
  consider "l = E" | "r = E" | "l \<noteq> E" "r \<noteq> E" by blast
  then show ?case
  proof cases
    case 1
    with N.prems have "wf_tree (Suc d) r" "canonical r" "is_N r" by simp_all
    from N.IH(2) [OF this] show ?thesis by (simp add: 1)
  next
    case 2
    with N.prems have "wf_tree (Suc d) l" "canonical l" "is_N l" by simp_all
    from N.IH(1) [OF this] show ?thesis by (simp add: 2)
  next
    case 3
    with N.prems(1) have "entries l \<noteq> {}" "entries r \<noteq> {}"
      by (simp_all add: entries_nonempty [of "Suc d"])
    then obtain p q where pq: "p \<in> entries l" "q \<in> entries r" by blast
    then have "\<not> get_bit (fst p) d" "get_bit (fst q) d"
      using N.prems(1) by auto
    then have "p \<noteq> q" by metis
    with pq show ?thesis by (intro exI [of _ p] exI [of _ q]) simp
  qed
qed simp_all

lemma canonical_N_not_single: "wf_tree d (N l r) \<Longrightarrow> canonical (N l r) \<Longrightarrow> entries (N l r) \<noteq> {p}"
  using canonical_N_entries [of d "N l r"] by (metis is_N.simps(1) singletonD)

lemma entries_side:
  assumes "wf_tree d (N l r)"
  shows "entries l = {p \<in> entries (N l r). \<not> get_bit (fst p) d}" "entries r = {p \<in> entries (N l r). get_bit (fst p) d}"
  using assms by auto

lemma canonical_unique:
  assumes "wf_tree d t" "wf_tree d t'" "canonical t" "canonical t'" "entries t = entries t'"
  shows "t = t'"
  using assms
proof (induction t arbitrary: d t')
  case E
  then show ?case using entries_nonempty [of d t'] by auto
next
  case (L k v)
  show ?case
  proof (cases t')
    case (N l r)
    with L.prems canonical_N_not_single [of d l r "(k, v)"] show ?thesis
      by (metis entries.simps(2))
  qed (use L in auto)
next
  case (N l r)
  show ?case
  proof (cases t')
    case E
    with N.prems(5) entries_nonempty [OF N.prems(1)] show ?thesis by simp
  next
    case (L k v)
    with N.prems canonical_N_not_single [of d l r "(k, v)"] show ?thesis
      by (metis entries.simps(2))
  next
    case t': (N l' r')
    have eq: "entries (N l r) = entries (N l' r')" and wf': "wf_tree d (N l' r')"
      using N.prems t' by simp_all
    have "entries l = entries l'"
      by (rule trans [OF entries_side(1) [OF N.prems(1)]], subst eq, rule entries_side(1) [OF wf', symmetric])
    moreover have "entries r = entries r'"
      by (rule trans [OF entries_side(2) [OF N.prems(1)]], subst eq, rule entries_side(2) [OF wf', symmetric])
    moreover have "l = l'" if "entries l = entries l'" using N.IH(1) [of "Suc d" l'] N.prems t' that by simp
    moreover have "r = r'" if "entries r = entries r'" using N.IH(2) [of "Suc d" r'] N.prems t' that by simp
    ultimately show ?thesis using t' by simp
  qed
qed

end
