(* ===== verification/Trie_Refine.thy ===== *)
theory Trie_Refine
  imports Trie_Tree
begin

text \<open>
  The content-addressed store implements the trees of \<open>Trie_Tree\<close>: a store represents a tree when
  every node of it is found under its hash. Lookup, insertion and deletion of the code compute those
  on trees, only add nodes, and so keep every tree the store represented before. The hash functions
  are taken to be collision-free on what the trie hashes.
\<close>

section \<open>Collision-free hash functions\<close>

definition is_hash :: "hasher \<Rightarrow> node_hash \<Rightarrow> bool" where
  "is_hash H x \<longleftrightarrow> (\<exists>b. x = sha256 H b \<or> x = blake3 H b)"

definition collision_free :: "hasher \<Rightarrow> bool" where
  "collision_free H \<longleftrightarrow>
    (\<forall>l r l' r'. is_hash H l \<longrightarrow> is_hash H r \<longrightarrow> is_hash H l' \<longrightarrow> is_hash H r' \<longrightarrow>
      hash_internal H l r = hash_internal H l' r' \<longrightarrow> l = l' \<and> r = r') \<and>
    (\<forall>k v k' v'. valid_key k \<longrightarrow> valid_key k' \<longrightarrow> hash_leaf H k v = hash_leaf H k' v' \<longrightarrow> k = k' \<and> v = v') \<and>
    (\<forall>l r k v. hash_internal H l r \<noteq> hash_leaf H k v) \<and>
    (\<forall>l r. hash_internal H l r \<noteq> sha256 H (replicate 32 0)) \<and>
    (\<forall>k v. hash_leaf H k v \<noteq> sha256 H (replicate 32 0))"

lemma internal_inj:
  "collision_free H \<Longrightarrow> is_hash H l \<Longrightarrow> is_hash H r \<Longrightarrow> is_hash H l' \<Longrightarrow> is_hash H r' \<Longrightarrow>
    hash_internal H l r = hash_internal H l' r' \<Longrightarrow> l = l' \<and> r = r'"
  unfolding collision_free_def by blast

lemma leaf_inj:
  "collision_free H \<Longrightarrow> valid_key k \<Longrightarrow> valid_key k' \<Longrightarrow> hash_leaf H k v = hash_leaf H k' v' \<Longrightarrow> k = k' \<and> v = v'"
  unfolding collision_free_def by blast

lemma hash_apart [simp]:
  assumes "collision_free H"
  shows "hash_internal H l r \<noteq> hash_leaf H k v" "hash_leaf H k v \<noteq> hash_internal H l r"
    "hash_internal H l r \<noteq> sha256 H (replicate 32 0)" "sha256 H (replicate 32 0) \<noteq> hash_internal H l r"
    "hash_leaf H k v \<noteq> sha256 H (replicate 32 0)" "sha256 H (replicate 32 0) \<noteq> hash_leaf H k v"
  using assms unfolding collision_free_def by metis+

lemma is_hash_internal [simp]: "is_hash H (hash_internal H l r)"
  by (auto simp: is_hash_def hash_internal_def)

lemma is_hash_leaf [simp]: "is_hash H (hash_leaf H k v)"
  by (auto simp: is_hash_def hash_leaf_def)

lemma is_hash_empty [simp]: "d \<le> 256 \<Longrightarrow> is_hash H (empty_hash H d)"
proof (cases "d = 256")
  case True
  then show ?thesis by (auto simp: empty_hash_256 is_hash_def)
next
  case False
  assume "d \<le> 256"
  with False show ?thesis by (simp add: empty_hash_step)
qed

lemma is_hash_thash [simp]: "wf_tree d t \<Longrightarrow> is_hash H (thash H d t)"
  by (cases t) simp_all

lemma empty_not_leaf: "collision_free H \<Longrightarrow> d \<le> 256 \<Longrightarrow> empty_hash H d \<noteq> hash_leaf H k v"
  by (cases "d = 256") (simp_all add: empty_hash_256 empty_hash_step)

lemma thash_nonempty:
  assumes cf: "collision_free H"
  shows "wf_tree d t \<Longrightarrow> thash H d t = empty_hash H d \<longleftrightarrow> t = E"
proof (induction t arbitrary: d)
  case (L k v)
  then show ?case using empty_not_leaf [OF cf, of d k v] by auto
next
  case (N l r)
  then have "d < 256" and wf: "wf_tree (Suc d) l" "wf_tree (Suc d) r" by simp_all
  then have "l = E \<and> r = E" if "thash H d (N l r) = empty_hash H d"
    using that N.IH internal_inj [OF cf, of "thash H (Suc d) l" "thash H (Suc d) r" "empty_hash H (Suc d)" "empty_hash H (Suc d)"]
    by (simp add: empty_hash_step)
  with N.prems show ?case by auto
qed simp

lemma thash_inj:
  assumes cf: "collision_free H"
  shows "wf_tree d t \<Longrightarrow> wf_tree d t' \<Longrightarrow> thash H d t = thash H d t' \<Longrightarrow> t = t'"
proof (induction t arbitrary: d t')
  case E
  then show ?case using thash_nonempty [OF cf E.prems(2)] by simp
next
  case (L k v)
  note eq = L.prems(3)
  show ?case
  proof (cases t')
    case E
    with eq L.prems show ?thesis using thash_nonempty [OF cf L.prems(1)] by simp
  next
    case (L k' v')
    with eq \<open>wf_tree d (smt.L k v)\<close> \<open>wf_tree d t'\<close> show ?thesis using leaf_inj [OF cf, of k k' v v'] by simp
  next
    case (N l r)
    with eq cf show ?thesis by simp
  qed
next
  case (N l r)
  note prems = N.prems
  show ?case
  proof (cases t')
    case E
    with prems show ?thesis using thash_nonempty [OF cf N.prems(1)] by simp
  next
    case (L k' v')
    with prems(3) cf show ?thesis by simp
  next
    case t': (N l' r')
    have wf: "wf_tree (Suc d) l" "wf_tree (Suc d) r" "wf_tree (Suc d) l'" "wf_tree (Suc d) r'"
      using prems t' by simp_all
    have "thash H (Suc d) l = thash H (Suc d) l' \<and> thash H (Suc d) r = thash H (Suc d) r'"
      using prems(3) t' by (intro internal_inj [OF cf]) (simp_all add: wf)
    with N.IH wf t' show ?thesis by blast
  qed
qed

section \<open>Content-addressed stores\<close>

fun node_ok :: "hasher \<Rightarrow> node_hash \<Rightarrow> trie_node \<Rightarrow> bool" where
  "node_ok H h (Leaf k vh) \<longleftrightarrow> vh = h \<and> valid_key k \<and> (\<exists>v. h = hash_leaf H k v)"
| "node_ok H h (Internal_node l r h') \<longleftrightarrow> h' = h \<and> h = hash_internal H l r \<and> is_hash H l \<and> is_hash H r"

definition cache_ok :: "hasher \<Rightarrow> trie_cache \<Rightarrow> bool" where
  "cache_ok H c \<longleftrightarrow> wf_map (pending_nodes c) \<and> wf_map (pending_values c) \<and> (\<forall>h n. get_node c h = Some n \<longrightarrow> node_ok H h n) \<and>
    (\<forall>h v. load_value c h = Some v \<longrightarrow> (\<exists>k. valid_key k \<and> h = hash_leaf H k v))"

definition cache_le :: "trie_cache \<Rightarrow> trie_cache \<Rightarrow> bool" where
  "cache_le c c' \<longleftrightarrow> (\<forall>h n. get_node c h = Some n \<longrightarrow> get_node c' h = Some n) \<and>
    (\<forall>h v. load_value c h = Some v \<longrightarrow> load_value c' h = Some v)"

lemma cache_le_refl [simp]: "cache_le c c"
  by (simp add: cache_le_def)

lemma cache_le_trans: "cache_le a b \<Longrightarrow> cache_le b c \<Longrightarrow> cache_le a c"
  by (simp add: cache_le_def)

lemma get_node_put: "get_node (put_node c h n) h' = (if h' = h then Some n else get_node c h')"
  by (simp add: get_node_def put_node_def hget_hput split: option.split)

lemma load_value_put [simp]: "load_value (put_node c h n) = load_value c"
  by (simp add: load_value_def put_node_def fun_eq_iff split: option.split)

lemma load_value_store: "load_value (store_value c h v) h' = (if h' = h then Some v else load_value c h')"
  by (simp add: load_value_def store_value_def hget_hput split: option.split)

lemma get_node_store [simp]: "get_node (store_value c h v) = get_node c"
  by (simp add: get_node_def store_value_def fun_eq_iff split: option.split)

lemma pending_put [simp]:
  "pending_nodes (put_node c h n) = hput (pending_nodes c) h n" "pending_values (put_node c h n) = pending_values c"
  "pending_nodes (store_value c h v) = pending_nodes c" "pending_values (store_value c h v) = hput (pending_values c) h v"
  by (simp_all add: put_node_def store_value_def)

lemma node_ok_unique:
  assumes cf: "collision_free H" and "node_ok H h n" "node_ok H h n'"
  shows "n = n'"
proof (cases n)
  case (Leaf k vh)
  then show ?thesis using assms leaf_inj [OF cf] by (cases n') auto
next
  case (Internal_node l r h')
  then show ?thesis using assms internal_inj [OF cf] by (cases n') auto
qed

lemma put_node_ok:
  assumes "collision_free H" "cache_ok H c" "node_ok H h n"
  shows "cache_ok H (put_node c h n) \<and> cache_le c (put_node c h n)"
proof -
  have "n' = n" if "get_node c h = Some n'" for n'
    using that assms node_ok_unique [OF assms(1,3)] unfolding cache_ok_def by blast
  with assms show ?thesis by (simp add: cache_ok_def cache_le_def get_node_put)
qed

lemma store_value_ok:
  assumes cf: "collision_free H" and "cache_ok H c" "valid_key k"
  shows "cache_ok H (store_value c (hash_leaf H k v) v) \<and> cache_le c (store_value c (hash_leaf H k v) v)"
proof -
  have "w = v" if "load_value c (hash_leaf H k v) = Some w" for w
    using that assms leaf_inj [OF cf, of k _ v w] unfolding cache_ok_def by blast
  with assms show ?thesis by (auto simp: cache_ok_def cache_le_def load_value_store)
qed

text \<open>The store holds every node of the tree at depth \<open>d\<close>.\<close>

fun stored :: "hasher \<Rightarrow> trie_cache \<Rightarrow> nat \<Rightarrow> smt \<Rightarrow> bool" where
  "stored H c d E \<longleftrightarrow> True"
| "stored H c d (L k v) \<longleftrightarrow> get_node c (hash_leaf H k v) = Some (Leaf k (hash_leaf H k v)) \<and>
    load_value c (hash_leaf H k v) = Some v"
| "stored H c d (N l r) \<longleftrightarrow>
    get_node c (thash H d (N l r)) = Some (Internal_node (thash H (Suc d) l) (thash H (Suc d) r) (thash H d (N l r))) \<and>
    stored H c (Suc d) l \<and> stored H c (Suc d) r"

lemma stored_mono: "stored H c d t \<Longrightarrow> cache_le c c' \<Longrightarrow> stored H c' d t"
  by (induction t arbitrary: d) (auto simp: cache_le_def)

section \<open>Lookup\<close>

lemma get_walk_stored:
  assumes cf: "collision_free H"
  shows "wf_tree d t \<Longrightarrow> stored H c d t \<Longrightarrow> get_walk H c k (thash H d t) d = Some (Ok (tget d k t))"
proof (induction t arbitrary: d)
  case E
  then show ?case by (subst get_walk.simps) simp
next
  case (L k' v)
  then show ?case using thash_nonempty [OF cf L.prems(1)] by (subst get_walk.simps) auto
next
  case (N l r)
  then have "thash H d (N l r) \<noteq> empty_hash H d" using thash_nonempty [OF cf N.prems(1)] by simp
  with N show ?case by (subst get_walk.simps) simp
qed

section \<open>Insertion\<close>

definition climb :: "hasher \<Rightarrow> (node_hash \<times> bool) list \<Rightarrow> node_hash \<times> trie_cache \<Rightarrow> node_hash \<times> trie_cache" where
  "climb H path st = fold (link_up H) (rev path) st"

lemma climb_Nil [simp]: "climb H [] st = st"
  by (simp add: climb_def)

lemma climb_Cons [simp]: "climb H (x # path) st = link_up H x (climb H path st)"
  by (simp add: climb_def)

text \<open>What the walk up delivers: the hash of a tree at depth \<open>d\<close> that the grown store holds.\<close>

definition built :: "hasher \<Rightarrow> trie_cache \<Rightarrow> nat \<Rightarrow> smt \<Rightarrow> node_hash \<times> trie_cache \<Rightarrow> bool" where
  "built H c d t st \<longleftrightarrow> fst st = thash H d t \<and> stored H (snd st) d t \<and> cache_ok H (snd st) \<and> cache_le c (snd st)"

lemma built_leaf:
  "cache_ok H c \<Longrightarrow> stored H c d (L k v) \<Longrightarrow> built H c d (L k v) (hash_leaf H k v, c)"
  by (simp add: built_def)

lemma built_branch:
  assumes cf: "collision_free H" and bt: "built H c (Suc d) t st" and wf: "wf_tree (Suc d) t" "wf_tree (Suc d) s"
    and s: "stored H c (Suc d) s"
  shows "built H c d (if b then N s t else N t s) (link_up H (thash H (Suc d) s, b) st)"
proof -
  obtain h c1 where st: "st = (h, c1)" by (cases st)
  define l where "l = (if b then s else t)"
  define r where "r = (if b then t else s)"
  have h: "h = thash H (Suc d) t" and ok: "cache_ok H c1" and le: "cache_le c c1"
    and str: "stored H c1 (Suc d) l" "stored H c1 (Suc d) r"
    using bt stored_mono [OF s] by (auto simp: built_def st l_def r_def)
  define n where "n = Internal_node (thash H (Suc d) l) (thash H (Suc d) r) (thash H d (N l r))"
  have up: "link_up H (thash H (Suc d) s, b) st = (thash H d (N l r), put_node c1 (thash H d (N l r)) n)"
    by (simp add: link_up_def st h l_def r_def n_def)
  have "node_ok H (thash H d (N l r)) n" using wf by (simp add: n_def l_def r_def)
  from put_node_ok [OF cf ok this]
  have "cache_ok H (put_node c1 (thash H d (N l r)) n)" "cache_le c1 (put_node c1 (thash H d (N l r)) n)" by blast+
  then have "built H c d (N l r) (link_up H (thash H (Suc d) s, b) st)"
    unfolding up built_def using str le stored_mono cache_le_trans [OF le]
    by (simp add: get_node_put n_def)
  moreover have "(if b then N s t else N t s) = N l r" by (simp add: l_def r_def)
  ultimately show ?thesis by simp
qed

text \<open>The path found by the walk down is a list of siblings whose walk up builds the new tree.\<close>

definition leads_to :: "hasher \<Rightarrow> trie_cache \<Rightarrow> nat \<Rightarrow> trie_key \<Rightarrow> u8 list \<Rightarrow> (node_hash \<times> bool) list \<Rightarrow> smt \<Rightarrow> bool" where
  "leads_to H c d k v p t \<longleftrightarrow>
    (\<forall>c1. cache_le c c1 \<longrightarrow> cache_ok H c1 \<longrightarrow> stored H c1 d (L k v) \<longrightarrow>
      built H c1 d t (climb H p (hash_leaf H k v, c1)))"

lemma leads_to_Nil: "leads_to H c d k v [] (L k v)"
  by (simp add: leads_to_def built_leaf del: stored.simps)

lemma leads_to_Cons:
  assumes "collision_free H" "leads_to H c (Suc d) k v p t" "wf_tree (Suc d) t" "wf_tree (Suc d) s" "stored H c (Suc d) s"
  shows "leads_to H c d k v ((thash H (Suc d) s, b) # p) (if b then N s t else N t s)"
  unfolding leads_to_def
proof (intro allI impI)
  fix c1 assume c1: "cache_le c c1" "cache_ok H c1" "stored H c1 d (L k v)"
  then have "built H c1 (Suc d) t (climb H p (hash_leaf H k v, c1))"
    using assms(2) by (simp add: leads_to_def)
  with assms c1 show "built H c1 d (if b then N s t else N t s) (climb H ((thash H (Suc d) s, b) # p) (hash_leaf H k v, c1))"
    unfolding climb_Cons by (intro built_branch) (auto intro: stored_mono)
qed

lemma expand_leaf_leads:
  assumes cf: "collision_free H"
  shows "valid_key k \<Longrightarrow> valid_key k' \<Longrightarrow> k \<noteq> k' \<Longrightarrow> agree_below d k k' \<Longrightarrow> stored H c d (L k' v') \<Longrightarrow>
    \<exists>p. expand_leaf H k k' (hash_leaf H k' v') d path = Ok (path @ p) \<and> leads_to H c d k v p (two_leaves d k v k' v')"
proof (induction "256 - d" arbitrary: d path)
  case 0
  then show ?case using agree_below_256 by fastforce
next
  case (Suc x)
  have d: "d < 256" using agree_below_256 Suc.prems by blast
  show ?case
  proof (cases "get_bit k d = get_bit k' d")
    case False
    have "leads_to H c d k v [(thash H (Suc d) (L k' v'), get_bit k d)]
        (if get_bit k d then N (L k' v') (L k v) else N (L k v) (L k' v'))"
      using Suc.prems d by (intro leads_to_Cons [OF cf leads_to_Nil]) auto
    with False d show ?thesis
      by (intro exI [of _ "[(hash_leaf H k' v', get_bit k d)]"])
        (simp add: expand_leaf.simps [of H k k' _ d] two_leaves.simps [of d])
  next
    case True
    define path' where "path' = path @ [(empty_hash H (Suc d), get_bit k d)]"
    have x: "x = 256 - Suc d" using Suc.hyps(2) by simp
    have agree: "agree_below (Suc d) k k'" using agree_below_Suc Suc.prems(4) True by blast
    obtain p where p: "expand_leaf H k k' (hash_leaf H k' v') (Suc d) path' = Ok (path' @ p)"
        "leads_to H c (Suc d) k v p (two_leaves (Suc d) k v k' v')"
      using Suc.hyps(1) [of "Suc d" path'] x Suc.prems agree by auto
    have "leads_to H c d k v ((thash H (Suc d) E, get_bit k d) # p)
        (if get_bit k d then N E (two_leaves (Suc d) k v k' v') else N (two_leaves (Suc d) k v k' v') E)"
      using two_leaves_props [OF Suc.prems(1-3) agree] d by (intro leads_to_Cons [OF cf p(2)]) auto
    moreover have "expand_leaf H k k' (hash_leaf H k' v') d path =
        Ok (path @ (empty_hash H (Suc d), get_bit k d) # p)"
      using d True p(1) by (subst expand_leaf.simps) (simp add: path'_def)
    ultimately show ?thesis using d True by (auto simp: two_leaves.simps [of d])
  qed
qed
lemma insert_walk_leads:
  assumes cf: "collision_free H" and k: "valid_key k"
  shows "wf_tree d t \<Longrightarrow> stored H c d t \<Longrightarrow> fits_under d k t \<Longrightarrow>
    \<exists>p. insert_walk H c k (thash H d t) d path = Ok (path @ p) \<and> leads_to H c d k v p (tins d k v t)"
proof (induction t arbitrary: d path)
  case E
  then have "insert_walk H c k (thash H d E) d path = Ok (path @ [])" by (subst insert_walk.simps) simp
  then show ?case using leads_to_Nil [of H c d k v] by (intro exI [of _ "[]"]) simp
next
  case (L k' v')
  have ne: "hash_leaf H k' v' \<noteq> empty_hash H d" using thash_nonempty [OF cf L.prems(1)] by simp
  have walk: "insert_walk H c k (thash H d (smt.L k' v')) d path =
      (if k' = k then Ok path else expand_leaf H k k' (hash_leaf H k' v') d path)"
    using L.prems(1,2) ne by (subst insert_walk.simps) auto
  show ?case
  proof (cases "k' = k")
    case True
    then show ?thesis using walk leads_to_Nil [of H c d k v] by (intro exI [of _ "[]"]) simp
  next
    case False
    have "agree_below d k k'" using L.prems(3) by (simp add: fits_under_def)
    with False expand_leaf_leads [OF cf k, of k' d c v' path v] L.prems walk show ?thesis by auto
  qed
next
  case (N l r)
  have d: "d < 256" and ne: "thash H d (N l r) \<noteq> empty_hash H d"
    using N.prems(1) thash_nonempty [OF cf N.prems(1)] by simp_all
  note child = fits_under_child [OF N.prems(1,3)]
  define t s where "t = (if get_bit k d then r else l)" and "s = (if get_bit k d then l else r)"
  have wf: "wf_tree (Suc d) t" "stored H c (Suc d) t" "fits_under (Suc d) k t" "wf_tree (Suc d) s" "stored H c (Suc d) s"
    using N.prems child by (simp_all add: t_def s_def)
  define path' where "path' = path @ [(thash H (Suc d) s, get_bit k d)]"
  obtain p where p: "insert_walk H c k (thash H (Suc d) t) (Suc d) path' = Ok (path' @ p)"
      "leads_to H c (Suc d) k v p (tins (Suc d) k v t)"
    using N.IH(1) [of "Suc d" path'] N.IH(2) [of "Suc d" path'] wf(1-3) by (auto simp: t_def split: if_splits)
  have "insert_walk H c k (thash H d (N l r)) d path = Ok (path @ (thash H (Suc d) s, get_bit k d) # p)"
    using p(1) d ne N.prems(2) by (subst insert_walk.simps) (auto simp: t_def s_def path'_def)
  moreover have "leads_to H c d k v ((thash H (Suc d) s, get_bit k d) # p)
      (if get_bit k d then N s (tins (Suc d) k v t) else N (tins (Suc d) k v t) s)"
    using wf k by (intro leads_to_Cons [OF cf p(2)]) (simp_all add: wf_tins)
  then have "leads_to H c d k v ((thash H (Suc d) s, get_bit k d) # p) (tins d k v (N l r))"
    by (simp add: t_def s_def split: if_splits)
  ultimately show ?case by blast
qed

section \<open>The trie represents a tree\<close>

definition represents :: "hasher \<Rightarrow> sentrix_trie \<Rightarrow> smt \<Rightarrow> bool" where
  "represents H t tree \<longleftrightarrow> root t = thash H 0 tree \<and> wf_tree 0 tree \<and> stored H (cache t) 0 tree \<and> cache_ok H (cache t)"

lemma insert_refines:
  assumes cf: "collision_free H" and k: "valid_key k" and rep: "represents H t tree"
  shows "\<exists>t'. trie_insert H k v t = (Ok (root t'), t') \<and> represents H t' (tins 0 k v tree) \<and>
    cache_le (cache t) (cache t') \<and> trie_version t' = trie_version t \<and> canonical_delete t' = canonical_delete t \<and>
    storage (cache t') = storage (cache t)"
proof -
  have r: "root t = thash H 0 tree" "wf_tree 0 tree" "stored H (cache t) 0 tree" "cache_ok H (cache t)"
    using rep by (simp_all add: represents_def)
  define h where "h = hash_leaf H k v"
  obtain p where p: "insert_walk H (cache t) k (root t) 0 [] = Ok p" "leads_to H (cache t) 0 k v p (tins 0 k v tree)"
    using insert_walk_leads [OF cf k r(2,3), of "[]" v] r(1) by auto
  define c2 where "c2 = store_value (put_node (cache t) h (Leaf k h)) h v"
  have "node_ok H h (Leaf k h)" using k by (auto simp: h_def)
  from put_node_ok [OF cf r(4) this] store_value_ok [OF cf _ k, of "put_node (cache t) h (Leaf k h)" v]
  have c2: "cache_ok H c2" "cache_le (cache t) c2"
    by (auto simp: c2_def h_def intro: cache_le_trans)
  moreover have "stored H c2 0 (L k v)" by (simp add: c2_def h_def get_node_put load_value_store)
  ultimately have b: "built H c2 0 (tins 0 k v tree) (climb H p (h, c2))"
    using p(2) by (simp add: leads_to_def h_def)
  obtain up c3 where up: "climb H p (h, c2) = (up, c3)" by force
  have st: "storage c3 = storage (cache t)"
  proof -
    have "storage (snd (fold (link_up H) xs st)) = storage (snd st)" for xs st
      by (induction xs arbitrary: st) (auto simp: link_up_def put_node_def split: prod.split)
    from this [of "rev p" "(h, c2)"] up show ?thesis
      by (simp add: climb_def c2_def store_value_def put_node_def)
  qed
  have "trie_insert H k v t = (Ok up, t\<lparr>cache := c3, root := up\<rparr>)"
    using p(1) up by (simp add: trie_insert_def h_def [symmetric] c2_def climb_def)
  moreover have "represents H (t\<lparr>cache := c3, root := up\<rparr>) (tins 0 k v tree)"
    using b up wf_tins [OF r(2) k fits_under_0] by (simp add: built_def represents_def)
  moreover have "cache_le (cache t) c3" using b up c2(2) by (auto simp: built_def intro: cache_le_trans)
  ultimately show ?thesis using st by (intro exI [of _ "t\<lparr>cache := c3, root := up\<rparr>"]) simp
qed

lemma get_refines:
  "collision_free H \<Longrightarrow> represents H t tree \<Longrightarrow> trie_get H t k = Some (Ok (tget 0 k tree))"
  using get_walk_stored [of H 0 tree "cache t" k] by (simp add: trie_get_def represents_def)

section \<open>Deletion\<close>

fun relink_up :: "hasher \<Rightarrow> bool \<Rightarrow> nat \<Rightarrow> (node_hash \<times> bool) list \<Rightarrow> up \<times> trie_cache \<Rightarrow> up \<times> trie_cache" where
  "relink_up H canon d [] st = st"
| "relink_up H canon d (x # p) st = relink H canon d x (relink_up H canon (Suc d) p st)"

lemma relink_path_append:
  "length xs \<le> n \<Longrightarrow> relink_path H canon (xs @ ys) n st =
    (case relink_path H canon xs n st of (n', st') \<Rightarrow> relink_path H canon ys n' st')"
  by (induction xs arbitrary: n st) auto

lemma relink_path_up: "relink_path H canon (rev p) (d + length p) st = (d, relink_up H canon d p st)"
proof (induction p arbitrary: d)
  case (Cons x p)
  from Cons [of "Suc d"] show ?case
    by (simp add: relink_path_append)
qed simp

fun up_of :: "hasher \<Rightarrow> nat \<Rightarrow> smt \<Rightarrow> up" where
  "up_of H d E = UpEmpty"
| "up_of H d (L k v) = UpLeaf (hash_leaf H k v)"
| "up_of H d (N l r) = UpInternal (thash H d (N l r))"

lemma up_or_up_of [simp]: "up_or (empty_hash H d) (up_of H d t) = thash H d t"
  by (cases t) simp_all

definition rebuilt :: "hasher \<Rightarrow> trie_cache \<Rightarrow> nat \<Rightarrow> smt \<Rightarrow> up \<times> trie_cache \<Rightarrow> bool" where
  "rebuilt H c d t st \<longleftrightarrow> fst st = up_of H d t \<and> stored H (snd st) d t \<and> cache_ok H (snd st) \<and> cache_le c (snd st)"

lemma join_branch:
  "canon \<Longrightarrow> l = E \<Longrightarrow> is_N r \<Longrightarrow> join canon l r = N l r" "canon \<Longrightarrow> is_N l \<Longrightarrow> join canon l r = N l r"
  "l \<noteq> E \<Longrightarrow> r \<noteq> E \<Longrightarrow> join canon l r = N l r" "\<not> canon \<Longrightarrow> l \<noteq> E \<or> r \<noteq> E \<Longrightarrow> join canon l r = N l r"
  by (cases "(canon, l, r)" rule: join.cases; auto)+

text \<open>The cases of one level: collapse, pull a leaf up, or branch.\<close>

lemma relink_cases:
  fixes b canon :: bool
  assumes cf: "collision_free H" and wf: "wf_tree (Suc d) t" "wf_tree (Suc d) s" and s: "stored H c1 (Suc d) s"
  defines "j \<equiv> if b then join canon s t else join canon t s"
  defines "h \<equiv> thash H d (if b then N s t else N t s)"
  defines "st \<equiv> relink H canon d (thash H (Suc d) s, b) (up_of H (Suc d) t, c1)"
  shows "(st = (up_of H d j, c1) \<and> (j = s \<or> j = t) \<and> \<not> is_N j) \<or>
    (j = (if b then N s t else N t s) \<and>
     st = (UpInternal h, put_node c1 h (if b then Internal_node (thash H (Suc d) s) (thash H (Suc d) t) h
                                         else Internal_node (thash H (Suc d) t) (thash H (Suc d) s) h)))"
proof -
  have ne: "thash H (Suc d) s = empty_hash H (Suc d) \<longleftrightarrow> s = E" "thash H (Suc d) t = empty_hash H (Suc d) \<longleftrightarrow> t = E"
    using thash_nonempty [OF cf] wf by blast+
  have leaf: "is_leaf_node (get_node c1 (thash H (Suc d) s)) \<longleftrightarrow> (\<exists>k v. s = L k v)" if "s \<noteq> E"
    using that s by (cases s) (simp_all add: is_leaf_node_def)
  show ?thesis
  proof (cases t)
    case E
    then show ?thesis
      using ne leaf by (cases s; cases b; cases canon) (auto simp: st_def j_def h_def relink_def)
  next
    case (L k v)
    then show ?thesis
      using ne leaf by (cases s; cases b; cases canon) (auto simp: st_def j_def h_def relink_def)
  next
    case (N l r)
    then show ?thesis
      using ne leaf by (cases s; cases b; cases canon) (auto simp: st_def j_def h_def relink_def)
  qed
qed

lemma rebuilt_branch:
  assumes cf: "collision_free H" and rb: "rebuilt H c (Suc d) t st" and wf: "wf_tree (Suc d) t" "wf_tree (Suc d) s"
    and s: "stored H c (Suc d) s"
  shows "rebuilt H c d (if b then join canon s t else join canon t s) (relink H canon d (thash H (Suc d) s, b) st)"
proof -
  obtain c1 where st: "st = (up_of H (Suc d) t, c1)" and t: "stored H c1 (Suc d) t"
    and ok: "cache_ok H c1" and le: "cache_le c c1"
    using rb by (cases st) (simp add: rebuilt_def)
  have s1: "stored H c1 (Suc d) s" using stored_mono [OF s le] .
  define j where "j = (if b then join canon s t else join canon t s)"
  define h where "h = thash H d (if b then N s t else N t s)"
  define n where "n = (if b then Internal_node (thash H (Suc d) s) (thash H (Suc d) t) h
      else Internal_node (thash H (Suc d) t) (thash H (Suc d) s) h)"
  consider "relink H canon d (thash H (Suc d) s, b) st = (up_of H d j, c1)" "j = s \<or> j = t" "\<not> is_N j"
    | "j = (if b then N s t else N t s)" "relink H canon d (thash H (Suc d) s, b) st = (UpInternal h, put_node c1 h n)"
    using relink_cases [OF cf wf s1, of canon b] unfolding j_def h_def n_def st by blast
  then show ?thesis
  proof cases
    case 1
    have "stored H c1 d j" using 1(2,3) s1 t by (cases j) auto
    with 1 ok le show ?thesis by (simp add: rebuilt_def j_def [symmetric])
  next
    case 2
    have "node_ok H h n" using wf by (simp add: n_def h_def)
    from put_node_ok [OF cf ok this] have p: "cache_ok H (put_node c1 h n)" "cache_le c1 (put_node c1 h n)" by blast+
    have "stored H (put_node c1 h n) d j"
      using 2(1) stored_mono [OF s1 p(2)] stored_mono [OF t p(2)]
      by (cases b) (simp_all add: get_node_put n_def h_def)
    moreover have "up_of H d j = UpInternal h" using 2(1) by (cases b) (simp_all add: h_def)
    ultimately show ?thesis
      unfolding j_def [symmetric] rebuilt_def 2(2) using p cache_le_trans [OF le p(2)] by simp
  qed
qed

lemma delete_walk_absent:
  assumes cf: "collision_free H"
  shows "wf_tree d t \<Longrightarrow> stored H c d t \<Longrightarrow> tget d k t = None \<Longrightarrow> delete_walk H c k (thash H d t) d path = Ok None"
proof (induction t arbitrary: d path)
  case E
  then show ?case by (subst delete_walk.simps) simp
next
  case (L k' v)
  then show ?case using thash_nonempty [OF cf L.prems(1)] by (subst delete_walk.simps) (auto split: if_splits)
next
  case (N l r)
  have ne: "thash H d (N l r) \<noteq> empty_hash H d" using thash_nonempty [OF cf N.prems(1)] by simp
  with N show ?case by (subst delete_walk.simps) (auto split: if_splits)
qed

lemma delete_walk_found:
  assumes cf: "collision_free H"
  shows "wf_tree d t \<Longrightarrow> stored H c d t \<Longrightarrow> cache_ok H c \<Longrightarrow> tget d k t \<noteq> None \<Longrightarrow>
    \<exists>p. delete_walk H c k (thash H d t) d path = Ok (Some (d + length p, path @ p)) \<and>
      rebuilt H c d (tdel canon d k t) (relink_up H canon d p (UpEmpty, c))"
proof (induction t arbitrary: d path)
  case (L k' v)
  then have "delete_walk H c k (thash H d (smt.L k' v)) d path = Ok (Some (d + 0, path @ []))"
    using thash_nonempty [OF cf L.prems(1)] by (subst delete_walk.simps) (auto split: if_splits)
  then show ?case using L.prems by (intro exI [of _ "[]"]) (auto simp: rebuilt_def split: if_splits)
next
  case (N l r)
  have d: "d < 256" and ne: "thash H d (N l r) \<noteq> empty_hash H d"
    using N.prems(1) thash_nonempty [OF cf N.prems(1)] by simp_all
  define t s where "t = (if get_bit k d then r else l)" and "s = (if get_bit k d then l else r)"
  have wf: "wf_tree (Suc d) t" "stored H c (Suc d) t" "tget (Suc d) k t \<noteq> None" "wf_tree (Suc d) s" "stored H c (Suc d) s"
    using N.prems by (simp_all add: t_def s_def)
  define path' where "path' = path @ [(thash H (Suc d) s, get_bit k d)]"
  obtain p where p: "delete_walk H c k (thash H (Suc d) t) (Suc d) path' = Ok (Some (Suc d + length p, path' @ p))"
      "rebuilt H c (Suc d) (tdel canon (Suc d) k t) (relink_up H canon (Suc d) p (UpEmpty, c))"
    using N.IH(1) [of "Suc d" path'] N.IH(2) [of "Suc d" path'] wf(1-3) N.prems(3)
    by (auto simp: t_def split: if_splits)
  let ?p = "(thash H (Suc d) s, get_bit k d) # p"
  have "delete_walk H c k (thash H d (N l r)) d path = Ok (Some (d + length ?p, path @ ?p))"
    using p(1) d ne N.prems(2) by (subst delete_walk.simps) (auto simp: t_def s_def path'_def)
  moreover have "rebuilt H c d (if get_bit k d then join canon s (tdel canon (Suc d) k t) else join canon (tdel canon (Suc d) k t) s)
      (relink_up H canon d ?p (UpEmpty, c))"
    unfolding relink_up.simps using wf by (intro rebuilt_branch [OF cf p(2)]) (simp_all add: wf_tdel)
  then have "rebuilt H c d (tdel canon d k (N l r)) (relink_up H canon d ?p (UpEmpty, c))"
    by (simp add: t_def s_def split: if_splits)
  ultimately show ?case by blast
qed simp

definition tremove :: "bool \<Rightarrow> trie_key \<Rightarrow> smt \<Rightarrow> smt" where
  "tremove canon k t = (if tget 0 k t = None then t else tdel canon 0 k t)"

lemma storage_relink_up: "storage (snd (relink_up H canon d p st)) = storage (snd st)"
  by (induction p arbitrary: d)
    (auto simp: relink_def put_node_def case_prod_beta split: up.split)

lemma delete_refines:
  assumes cf: "collision_free H" and rep: "represents H t tree"
  shows "\<exists>t'. trie_delete H k t = (Ok (root t'), t') \<and> represents H t' (tremove (canonical_delete t) k tree) \<and>
    cache_le (cache t) (cache t') \<and> trie_version t' = trie_version t \<and> canonical_delete t' = canonical_delete t \<and>
    storage (cache t') = storage (cache t)"
proof -
  have r: "root t = thash H 0 tree" "wf_tree 0 tree" "stored H (cache t) 0 tree" "cache_ok H (cache t)"
    using rep by (simp_all add: represents_def)
  show ?thesis
  proof (cases "tget 0 k tree")
    case None
    then have "trie_delete H k t = (Ok (root t), t)"
      using delete_walk_absent [OF cf r(2,3) None] r(1) by (simp add: trie_delete_def)
    with None rep show ?thesis by (intro exI [of _ t]) (simp add: tremove_def)
  next
    case (Some v)
    define canon where "canon = canonical_delete t"
    obtain p where p: "delete_walk H (cache t) k (root t) 0 [] = Ok (Some (length p, p))"
        "rebuilt H (cache t) 0 (tdel canon 0 k tree) (relink_up H canon 0 p (UpEmpty, cache t))"
      using delete_walk_found [OF cf r(2-4), of k "[]" canon] Some r(1) by auto
    obtain c where up: "relink_up H canon 0 p (UpEmpty, cache t) = (up_of H 0 (tdel canon 0 k tree), c)"
      and c: "stored H c 0 (tdel canon 0 k tree)" "cache_ok H c" "cache_le (cache t) c"
      using p(2) by (cases "relink_up H canon 0 p (UpEmpty, cache t)") (simp add: rebuilt_def)
    have "relink_path H canon (rev p) (length p) (UpEmpty, cache t) = (0, up_of H 0 (tdel canon 0 k tree), c)"
      using relink_path_up [of H canon p 0 "(UpEmpty, cache t)"] up by simp
    then have "trie_delete H k t = (Ok (thash H 0 (tdel canon 0 k tree)), t\<lparr>cache := c, root := thash H 0 (tdel canon 0 k tree)\<rparr>)"
      using p(1) by (simp add: trie_delete_def canon_def)
    moreover have "storage c = storage (cache t)"
      using storage_relink_up [of H canon 0 p "(UpEmpty, cache t)"] up by simp
    ultimately show ?thesis
      using c Some r(2)
      by (intro exI [of _ "t\<lparr>cache := c, root := thash H 0 (tdel canon 0 k tree)\<rparr>"])
        (simp add: represents_def tremove_def canon_def wf_tdel)
  qed
qed

section \<open>Collision-free example\<close>

text \<open>
  A self-delimiting encoding of byte strings, tagged per function, is collision-free: the hypothesis on
  the hash functions can hold.
\<close>

definition delimit :: "u8 list \<Rightarrow> u8 list" where
  "delimit bs = concat (map (\<lambda>b. [1, b]) bs) @ [0]"

definition example_hasher :: hasher where
  "example_hasher = \<lparr>sha256 = (\<lambda>bs. 7 # delimit bs), blake3 = (\<lambda>bs. 8 # delimit bs), hex_encode = (\<lambda>bs. [])\<rparr>"

lemma delimit_unique: "delimit a @ x = delimit b @ y \<Longrightarrow> a = b \<and> x = y"
proof (induction a arbitrary: b)
  case Nil
  then show ?case by (cases b) (simp_all add: delimit_def)
next
  case (Cons a as)
  then show ?case by (cases b) (auto simp: delimit_def)
qed

lemma delimit_inj [simp]: "delimit a = delimit b \<longleftrightarrow> a = b"
  using delimit_unique [of a "[]" b "[]"] by auto

lemma example_hashes:
  "hash_internal example_hasher l r = 7 # delimit (1 # l @ r)" "hash_leaf example_hasher k v = 8 # delimit (0 # k @ v)"
  "sha256 example_hasher bs = 7 # delimit bs"
  by (simp_all add: hash_internal_def hash_leaf_def example_hasher_def)

lemma example_is_hash: "is_hash example_hasher x \<longleftrightarrow> (\<exists>b. x = 7 # delimit b \<or> x = 8 # delimit b)"
  by (auto simp: is_hash_def example_hasher_def)

lemma example_split:
  assumes "is_hash example_hasher l" "is_hash example_hasher l'" "l @ r = l' @ r'"
  shows "l = l' \<and> r = r'"
proof -
  obtain i b where l: "l = i # delimit b" using assms(1) unfolding example_is_hash by blast
  obtain i' b' where l': "l' = i' # delimit b'" using assms(2) unfolding example_is_hash by blast
  show ?thesis using assms(3) delimit_unique [of b r b' r'] unfolding l l' by simp
qed

lemma example_collision_free: "collision_free example_hasher"
  unfolding collision_free_def
proof (intro conjI allI impI)
  fix l r l' r'
  assume h: "is_hash example_hasher l" "is_hash example_hasher l'"
    and "hash_internal example_hasher l r = hash_internal example_hasher l' r'"
  then have "l @ r = l' @ r'" unfolding example_hashes by simp
  from example_split [OF h this] show "l = l'" "r = r'" by blast+
next
  fix k v k' v'
  assume "valid_key k" "valid_key k'" "hash_leaf example_hasher k v = hash_leaf example_hasher k' v'"
  then have "length k = length k'" "k @ v = k' @ v'" unfolding example_hashes valid_key_def by simp_all
  then show "k = k'" "v = v'" by simp_all
next
  fix l r
  have "(0 :: nat) \<in> set (take 1 (replicate 32 0))" by simp
  then show "hash_internal example_hasher l r \<noteq> sha256 example_hasher (replicate 32 0)"
    unfolding example_hashes by (auto dest: arg_cong [where f = "take 1"])
qed (simp_all add: example_hashes)

definition key_a :: trie_key where
  "key_a = replicate 32 0"

definition key_b :: trie_key where
  "key_b = 1 # replicate 31 0"

lemma example_keys [simp]: "valid_key key_a" "valid_key key_b" "key_a \<noteq> key_b" "key_b \<noteq> key_a"
  by (simp_all add: key_a_def key_b_def valid_key_def list_all_iff numeral_eq_Suc)

end
