(* ===== verification/Trie_Thms.thy ===== *)
theory Trie_Thms
  imports Trie_Refine
begin

text \<open>
  The state trie as a versioned map. Any sequence of insertions, deletions, commits, rollbacks and
  restarts simulates the same sequence on maps, and with canonical deletion the root hash is a
  function of the current map alone.
\<close>

section \<open>The specification\<close>

datatype trie_op =
    TInsert trie_key "u8 list"
  | TDelete trie_key
  | TCommit u64
  | TFailedCommit u64 sentrix_error
  | TRollback u64
  | TRestart bool
  | TMode bool

record trie_spec =
  content :: "trie_key \<rightharpoonup> u8 list"
  committed :: "u64 \<rightharpoonup> (trie_key \<rightharpoonup> u8 list)"
  at_version :: u64

definition spec_empty :: trie_spec where
  "spec_empty = \<lparr>content = Map.empty, committed = Map.empty, at_version = 0\<rparr>"

fun spec_step :: "trie_op \<Rightarrow> trie_spec \<Rightarrow> trie_spec" where
  "spec_step (TInsert k v) s = s\<lparr>content := (content s)(k \<mapsto> v)\<rparr>"
| "spec_step (TDelete k) s = s\<lparr>content := (content s)(k := None)\<rparr>"
| "spec_step (TCommit n) s = s\<lparr>committed := (committed s)(n \<mapsto> content s), at_version := n\<rparr>"
| "spec_step (TFailedCommit n e) s = s"
| "spec_step (TRollback n) s = (case committed s n of None \<Rightarrow> s | Some m \<Rightarrow> s\<lparr>content := m\<rparr>)"
| "spec_step (TRestart b) s =
    s\<lparr>content := (case committed s (at_version s) of None \<Rightarrow> Map.empty | Some m \<Rightarrow> m)\<rparr>"
| "spec_step (TMode b) s = s"

text \<open>What the callers of the trie do: a rollback points the root at a committed one.\<close>

definition ok_step :: "'a result \<times> 's \<Rightarrow> 's option" where
  "ok_step = (\<lambda>(res, s). case res of Ok _ \<Rightarrow> Some s | Err _ \<Rightarrow> None)"

fun trie_step :: "hasher \<Rightarrow> trie_op \<Rightarrow> sentrix_trie \<Rightarrow> sentrix_trie option" where
  "trie_step H (TInsert k v) t = ok_step (trie_insert H k v t)"
| "trie_step H (TDelete k) t = ok_step (trie_delete H k t)"
| "trie_step H (TCommit n) t = ok_step (trie_commit (Ok ()) n t)"
| "trie_step H (TFailedCommit n e) t = Some (snd (trie_commit (Err e) n t))"
| "trie_step H (TRollback n) t = Some (case root_at_version t n of None \<Rightarrow> t | Some r \<Rightarrow> set_root r t)"
| "trie_step H (TRestart b) t =
    Some (set_canonical_delete b (open_trie H (storage (cache t)) (trie_version t)))"
| "trie_step H (TMode b) t = Some (set_canonical_delete b t)"

fun op_allowed :: "trie_op \<Rightarrow> bool" where
  "op_allowed (TInsert k v) \<longleftrightarrow> valid_key k"
| "op_allowed _ \<longleftrightarrow> True"

fun op_canonical :: "trie_op \<Rightarrow> bool" where
  "op_canonical (TRestart b) \<longleftrightarrow> b"
| "op_canonical (TMode b) \<longleftrightarrow> b"
| "op_canonical _ \<longleftrightarrow> True"

section \<open>The simulation\<close>

definition holds :: "smt \<Rightarrow> (trie_key \<rightharpoonup> u8 list) \<Rightarrow> bool" where
  "holds t m \<longleftrightarrow> entries t = {(k, v). m k = Some v}"

text \<open>A tree for a map, stored under the root \<open>r\<close>; \<open>canon\<close> asks for the canonical shape.\<close>

definition stands_for :: "hasher \<Rightarrow> bool \<Rightarrow> trie_cache \<Rightarrow> node_hash \<Rightarrow> (trie_key \<rightharpoonup> u8 list) \<Rightarrow> bool" where
  "stands_for H canon c r m \<longleftrightarrow>
    (\<exists>t. r = thash H 0 t \<and> wf_tree 0 t \<and> stored H c 0 t \<and> holds t m \<and> (canon \<longrightarrow> canonical t))"

definition on_disk :: "sentrix_trie \<Rightarrow> trie_cache" where
  "on_disk t = TrieCache_new (storage (cache t))"

definition trie_rel :: "hasher \<Rightarrow> bool \<Rightarrow> sentrix_trie \<Rightarrow> trie_spec \<Rightarrow> bool" where
  "trie_rel H canon t s \<longleftrightarrow> collision_free H \<and> cache_ok H (cache t) \<and> cache_ok H (on_disk t) \<and>
    (canon \<longrightarrow> canonical_delete t) \<and> trie_version t = at_version s \<and>
    stands_for H canon (cache t) (root t) (content s) \<and>
    (\<forall>n. case root_at_version t n of None \<Rightarrow> committed s n = None
       | Some r \<Rightarrow> \<exists>m. committed s n = Some m \<and> stands_for H canon (on_disk t) r m)"

lemma stands_for_mono: "stands_for H canon c r m \<Longrightarrow> cache_le c c' \<Longrightarrow> stands_for H canon c' r m"
  unfolding stands_for_def using stored_mono by blast

lemma on_disk_le:
  assumes "collision_free H" "cache_ok H (cache t)" "cache_ok H (on_disk t)"
  shows "cache_le (on_disk t) (cache t)"
proof -
  have n: "get_node (cache t) h = Some n" if "get_node (on_disk t) h = Some n" for h n
  proof (cases "hget (pending_nodes (cache t)) h")
    case None
    with that show ?thesis by (simp add: get_node_def on_disk_def TrieCache_new_def)
  next
    case (Some n')
    then have "get_node (cache t) h = Some n'" by (simp add: get_node_def)
    moreover from this that assms(2,3) have "n' = n"
      by (intro node_ok_unique [OF assms(1), of h]) (simp_all add: cache_ok_def)
    ultimately show ?thesis by simp
  qed
  have v: "load_value (cache t) h = Some v" if "load_value (on_disk t) h = Some v" for h v
  proof (cases "hget (pending_values (cache t)) h")
    case None
    with that show ?thesis by (simp add: load_value_def on_disk_def TrieCache_new_def)
  next
    case (Some v')
    then have "load_value (cache t) h = Some v'" by (simp add: load_value_def)
    moreover from this that assms(2,3) have "v' = v"
      unfolding cache_ok_def using leaf_inj [OF assms(1)] by metis
    ultimately show ?thesis by simp
  qed
  show ?thesis using n v by (simp add: cache_le_def)
qed

lemma stands_for_empty: "stands_for H canon c (empty_hash H 0) Map.empty"
  unfolding stands_for_def by (intro exI [of _ E]) (simp add: holds_def)

section \<open>Commits\<close>

lemma fold_hput:
  "wf_map xs \<Longrightarrow> hget (fold (\<lambda>(k, v) m. hput m k v) xs m) k = (case hget xs k of Some v \<Rightarrow> Some v | None \<Rightarrow> hget m k)"
proof (induction xs arbitrary: m)
  case (Cons x xs)
  then have "wf_map xs" "hget xs (fst x) = None" by (auto simp: wf_map_def map_of_eq_None_iff)
  with Cons.IH [of "hput m (fst x) (snd x)"] show ?case
    by (cases x) (auto simp: hget_hput split: option.split)
qed simp

lemma nodes_fold_store: "trie_nodes (fold (\<lambda>(h, n) s. store_node s h n) xs s) = fold (\<lambda>(k, v) m. hput m k v) xs (trie_nodes s)"
  and values_fold_store: "trie_values (fold (\<lambda>(h, n) s. store_node s h n) xs s) = trie_values s"
  and roots_fold_store: "trie_roots (fold (\<lambda>(h, n) s. store_node s h n) xs s) = trie_roots s"
  by (induction xs arbitrary: s) (auto simp: store_node_def split: prod.split)

lemma nodes_fold_value: "trie_nodes (fold (\<lambda>(h, v) s. storage_store_value s h v) xs s) = trie_nodes s"
  and values_fold_value:
    "trie_values (fold (\<lambda>(h, v) s. storage_store_value s h v) xs s) = fold (\<lambda>(k, v) m. hput m k v) xs (trie_values s)"
  and roots_fold_value: "trie_roots (fold (\<lambda>(h, v) s. storage_store_value s h v) xs s) = trie_roots s"
  by (induction xs arbitrary: s) (auto simp: storage_store_value_def split: prod.split)

lemmas flush_simps = flush_trie_batch_def nodes_fold_store values_fold_store roots_fold_store nodes_fold_value
  values_fold_value roots_fold_value

lemma flush_view:
  fixes n :: u64 and r :: node_hash
  assumes "cache_ok H c"
  defines "s \<equiv> flush_trie_batch (pending_nodes c) (pending_values c) n r (storage c)"
  shows "get_node (TrieCache_new s) = get_node c" "load_value (TrieCache_new s) = load_value c"
    "load_root s m = (if m = n then Some r else load_root (storage c) m)"
  using assms(1)
  by (auto simp: s_def flush_simps get_node_def load_value_def TrieCache_new_def load_node_def storage_load_value_def
      fold_hput cache_ok_def load_root_def hget_hput fun_eq_iff split: option.split)

lemma same_view:
  assumes "get_node c' = get_node c" "load_value c' = load_value c" "wf_map (pending_nodes c')" "wf_map (pending_values c')"
  shows "cache_ok H c \<Longrightarrow> cache_ok H c'" "cache_le c c'" "cache_le c' c"
  using assms by (simp_all add: cache_ok_def cache_le_def)

section \<open>Each operation\<close>

lemma holds_get: "wf_tree 0 t \<Longrightarrow> holds t m \<Longrightarrow> tget 0 k t = m k"
proof -
  assume "wf_tree 0 t" "holds t m"
  then have "tget 0 k t = Some v \<longleftrightarrow> m k = Some v" for v by (simp add: tget_entries holds_def)
  then show ?thesis by (metis not_None_eq)
qed

lemma holds_tins: "wf_tree 0 t \<Longrightarrow> valid_key k \<Longrightarrow> holds t m \<Longrightarrow> holds (tins 0 k v t) (m(k \<mapsto> v))"
  by (auto simp: holds_def entries_tins split: if_splits)

lemma holds_tremove:
  assumes "wf_tree 0 t" "holds t m"
  shows "holds (tremove canon k t) (m(k := None))"
proof (cases "m k")
  case None
  then have "m(k := None) = m" by auto
  with None assms holds_get [OF assms] show ?thesis by (simp add: tremove_def)
next
  case (Some v)
  with assms holds_get [OF assms] show ?thesis by (auto simp: tremove_def holds_def entries_tdel split: if_splits)
qed

lemma trie_relE:
  assumes "trie_rel H canon t s"
  obtains tree where "represents H t tree" "holds tree (content s)" "canon \<longrightarrow> canonical tree"
  using assms unfolding trie_rel_def stands_for_def represents_def by blast

definition history_ok :: "hasher \<Rightarrow> bool \<Rightarrow> trie_cache \<Rightarrow> node_hash option \<Rightarrow> (trie_key \<rightharpoonup> u8 list) option \<Rightarrow> bool" where
  "history_ok H canon c r m \<longleftrightarrow> (case r of None \<Rightarrow> m = None | Some r \<Rightarrow> \<exists>x. m = Some x \<and> stands_for H canon c r x)"

lemma history_ok_mono: "history_ok H canon c r m \<Longrightarrow> cache_le c c' \<Longrightarrow> history_ok H canon c' r m"
  using stands_for_mono by (auto simp: history_ok_def split: option.splits)

lemma trie_relI:
  assumes "collision_free H" "cache_ok H (cache t)" "cache_ok H (on_disk t)" "canon \<longrightarrow> canonical_delete t"
    "trie_version t = at_version s" "stands_for H canon (cache t) (root t) (content s)"
    "\<And>n. history_ok H canon (on_disk t) (root_at_version t n) (committed s n)"
  shows "trie_rel H canon t s"
  using assms unfolding trie_rel_def history_ok_def by blast

lemma trie_relD:
  assumes "trie_rel H canon t s"
  shows "collision_free H" "cache_ok H (cache t)" "cache_ok H (on_disk t)" "canon \<longrightarrow> canonical_delete t"
    "trie_version t = at_version s" "stands_for H canon (cache t) (root t) (content s)"
    "history_ok H canon (on_disk t) (root_at_version t n) (committed s n)"
  using assms unfolding trie_rel_def history_ok_def by blast+

text \<open>An operation that only grows the cache keeps the committed versions.\<close>

lemma trie_rel_grow:
  assumes "trie_rel H canon t s" "cache_ok H (cache t')" "storage (cache t') = storage (cache t)"
    "trie_version t' = trie_version t" "canonical_delete t' = canonical_delete t"
    "stands_for H canon (cache t') (root t') m"
  shows "trie_rel H canon t' (s\<lparr>content := m\<rparr>)"
proof -
  have "on_disk t' = on_disk t" "root_at_version t' = root_at_version t"
    using assms(3) by (simp_all add: on_disk_def root_at_version_def fun_eq_iff)
  with assms show ?thesis by (simp add: trie_rel_def cong: option.case_cong)
qed

lemma insert_sim:
  assumes rel: "trie_rel H canon t s" and k: "valid_key k"
  shows "\<exists>t'. trie_step H (TInsert k v) t = Some t' \<and> trie_rel H canon t' (spec_step (TInsert k v) s)"
proof -
  obtain tree where r: "represents H t tree" and h: "holds tree (content s)" and c: "canon \<longrightarrow> canonical tree"
    using rel by (rule trie_relE)
  have cf: "collision_free H" and wf: "wf_tree 0 tree" using rel r by (simp_all add: trie_rel_def represents_def)
  obtain t' where t': "trie_insert H k v t = (Ok (root t'), t')" "represents H t' (tins 0 k v tree)"
      "trie_version t' = trie_version t" "canonical_delete t' = canonical_delete t" "storage (cache t') = storage (cache t)"
    using insert_refines [OF cf k r] by blast
  have "stands_for H canon (cache t') (root t') ((content s)(k \<mapsto> v))"
    unfolding stands_for_def using t'(2) holds_tins [OF wf k h] c canonical_tins [OF wf k fits_under_0]
    by (intro exI [of _ "tins 0 k v tree"]) (simp add: represents_def)
  then have "trie_rel H canon t' (s\<lparr>content := (content s)(k \<mapsto> v)\<rparr>)"
    using t' rel by (intro trie_rel_grow) (simp_all add: represents_def)
  with t'(1) show ?thesis by (simp add: ok_step_def)
qed

lemma delete_sim:
  assumes rel: "trie_rel H canon t s"
  shows "\<exists>t'. trie_step H (TDelete k) t = Some t' \<and> trie_rel H canon t' (spec_step (TDelete k) s)"
proof -
  obtain tree where r: "represents H t tree" and h: "holds tree (content s)" and c: "canon \<longrightarrow> canonical tree"
    using rel by (rule trie_relE)
  have cf: "collision_free H" and wf: "wf_tree 0 tree" and mode: "canon \<longrightarrow> canonical_delete t"
    using rel r by (simp_all add: trie_rel_def represents_def)
  obtain t' where t': "trie_delete H k t = (Ok (root t'), t')" "represents H t' (tremove (canonical_delete t) k tree)"
      "trie_version t' = trie_version t" "canonical_delete t' = canonical_delete t" "storage (cache t') = storage (cache t)"
    using delete_refines [OF cf r] by blast
  have "canon \<longrightarrow> canonical (tremove (canonical_delete t) k tree)"
    using c mode canonical_tdel by (auto simp: tremove_def)
  then have "stands_for H canon (cache t') (root t') ((content s)(k := None))"
    unfolding stands_for_def using t'(2) holds_tremove [OF wf h]
    by (intro exI [of _ "tremove (canonical_delete t) k tree"]) (simp add: represents_def)
  then have "trie_rel H canon t' (s\<lparr>content := (content s)(k := None)\<rparr>)"
    using t' rel by (intro trie_rel_grow) (simp_all add: represents_def)
  with t'(1) show ?thesis by (simp add: ok_step_def)
qed

lemma commit_sim:
  assumes rel: "trie_rel H canon t s"
  shows "\<exists>t'. trie_step H (TCommit n) t = Some t' \<and> trie_rel H canon t' (spec_step (TCommit n) s)"
proof -
  define s' where "s' = flush_trie_batch (pending_nodes (cache t)) (pending_values (cache t)) n (root t) (storage (cache t))"
  define c' where "c' = \<lparr>pending_nodes = [], pending_values = [], storage = s'\<rparr>"
  define t' where "t' = t\<lparr>cache := c', trie_version := n\<rparr>"
  note ok = trie_relD(1-3) [OF rel]
  have t'_simps: "cache t' = c'" "on_disk t' = c'" "root t' = root t" "canonical_delete t' = canonical_delete t" "trie_version t' = n"
    by (simp_all add: t'_def c'_def on_disk_def TrieCache_new_def)
  have view: "get_node c' = get_node (cache t)" "load_value c' = load_value (cache t)"
    and root': "\<And>m. root_at_version t' m = (if m = n then Some (root t) else root_at_version t m)"
    using flush_view [OF ok(2), of n "root t"]
    by (simp_all add: c'_def t'_def s'_def TrieCache_new_def root_at_version_def)
  have le: "cache_ok H c'" "cache_le (cache t) c'"
    using same_view [OF view] ok(2) by (simp_all add: c'_def)
  note le_disk = cache_le_trans [OF on_disk_le [OF ok] le(2)]
  have cur: "stands_for H canon c' (root t) (content s)"
    using trie_relD(6) [OF rel] le(2) by (rule stands_for_mono)
  have "trie_rel H canon t' (spec_step (TCommit n) s)"
  proof (rule trie_relI)
    show "history_ok H canon (on_disk t') (root_at_version t' m) (committed (spec_step (TCommit n) s) m)" for m
      using cur history_ok_mono [OF trie_relD(7) [OF rel, of m] le_disk] by (simp add: t'_simps root' history_ok_def)
  qed (use trie_relD(1-5) [OF rel] le cur in \<open>simp_all add: t'_simps\<close>)
  moreover have "trie_step H (TCommit n) t = Some t'"
    by (simp add: trie_commit_def flush_pending_def ok_step_def t'_def c'_def s'_def)
  ultimately show ?thesis by blast
qed

lemma rollback_sim:
  assumes rel: "trie_rel H canon t s"
  shows "\<exists>t'. trie_step H (TRollback n) t = Some t' \<and> trie_rel H canon t' (spec_step (TRollback n) s)"
proof (cases "root_at_version t n")
  case None
  then show ?thesis using rel trie_relD(7) [OF rel, of n] by (simp add: history_ok_def)
next
  case (Some r)
  then obtain m where m: "committed s n = Some m" "stands_for H canon (on_disk t) r m"
    using trie_relD(7) [OF rel, of n] by (auto simp: history_ok_def)
  have "stands_for H canon (cache t) r m"
    by (rule stands_for_mono [OF m(2) on_disk_le [OF trie_relD(1-3) [OF rel]]])
  then have "trie_rel H canon (set_root r t) (s\<lparr>content := m\<rparr>)"
    using trie_relD(2) [OF rel] by (intro trie_rel_grow [OF rel]) (simp_all add: set_root_def)
  with Some m(1) show ?thesis by simp
qed

lemma reindex_tables:
  "trie_nodes (ensure_committed_roots_index s) = trie_nodes s" "trie_values (ensure_committed_roots_index s) = trie_values s"
  "trie_roots (ensure_committed_roots_index s) = trie_roots s"
proof -
  have "trie_nodes (fold (\<lambda>(k, v) s. s\<lparr>trie_committed_roots := hput (trie_committed_roots s) v k\<rparr>) xs s) = trie_nodes s \<and>
    trie_values (fold (\<lambda>(k, v) s. s\<lparr>trie_committed_roots := hput (trie_committed_roots s) v k\<rparr>) xs s) = trie_values s \<and>
    trie_roots (fold (\<lambda>(k, v) s. s\<lparr>trie_committed_roots := hput (trie_committed_roots s) v k\<rparr>) xs s) = trie_roots s" for xs
    by (induction xs arbitrary: s) auto
  then show "trie_nodes (ensure_committed_roots_index s) = trie_nodes s"
    "trie_values (ensure_committed_roots_index s) = trie_values s"
    "trie_roots (ensure_committed_roots_index s) = trie_roots s"
    by (simp_all add: ensure_committed_roots_index_def)
qed

lemma restart_sim:
  assumes rel: "trie_rel H canon t s" and b: "canon \<longrightarrow> b"
  shows "\<exists>t'. trie_step H (TRestart b) t = Some t' \<and> trie_rel H canon t' (spec_step (TRestart b) s)"
proof -
  define t' where "t' = set_canonical_delete b (open_trie H (storage (cache t)) (trie_version t))"
  have view: "get_node (cache t') = get_node (on_disk t)" "load_value (cache t') = load_value (on_disk t)"
    and disk: "on_disk t' = cache t'" and roots: "root_at_version t' = root_at_version t"
    by (simp_all add: t'_def on_disk_def open_trie_def set_canonical_delete_def TrieCache_new_def TrieStorage_new_def
        get_node_def load_value_def load_node_def storage_load_value_def root_at_version_def load_root_def reindex_tables fun_eq_iff)
  have t'_simps: "canonical_delete t' = b" "trie_version t' = trie_version t"
    "root t' = (case root_at_version t (trie_version t) of Some r \<Rightarrow> r | None \<Rightarrow> empty_hash H 0)"
    by (simp_all add: t'_def open_trie_def set_canonical_delete_def TrieStorage_new_def root_at_version_def load_root_def reindex_tables)
  have le: "cache_ok H (cache t')" "cache_le (on_disk t) (cache t')"
    using same_view [OF view] trie_relD(3) [OF rel]
    by (simp_all add: t'_def open_trie_def set_canonical_delete_def TrieCache_new_def)
  have hist: "history_ok H canon (cache t') (root_at_version t m) (committed s m)" for m
    using trie_relD(7) [OF rel] le(2) by (rule history_ok_mono)
  have "trie_rel H canon t' (spec_step (TRestart b) s)"
  proof (rule trie_relI)
    show "stands_for H canon (cache t') (root t') (content (spec_step (TRestart b) s))"
      using hist [of "trie_version t"] stands_for_empty trie_relD(5) [OF rel]
      by (auto simp: t'_simps history_ok_def split: option.splits)
  qed (use trie_relD(1,5) [OF rel] le(1) hist b in \<open>simp_all add: t'_simps disk roots\<close>)
  then show ?thesis by (simp add: t'_def)
qed

lemma trie_step_sim:
  assumes rel: "trie_rel H canon t s" and ok: "op_allowed x \<and> (canon \<longrightarrow> op_canonical x)"
  shows "\<exists>t'. trie_step H x t = Some t' \<and> trie_rel H canon t' (spec_step x s)"
proof (cases x)
  case (TInsert k v)
  with ok insert_sim [OF rel] show ?thesis by simp
next
  case (TDelete k)
  with delete_sim [OF rel] show ?thesis by simp
next
  case (TCommit n)
  with commit_sim [OF rel] show ?thesis by simp
next
  case (TFailedCommit n e)
  with rel show ?thesis by (simp add: trie_commit_def flush_pending_def)
next
  case (TRollback n)
  with rollback_sim [OF rel] show ?thesis by simp
next
  case (TRestart b)
  with ok restart_sim [OF rel] show ?thesis by simp
next
  case (TMode b)
  have "trie_rel H canon (set_canonical_delete b t) s"
    using trie_relD [OF rel] ok TMode
    by (intro trie_relI) (simp_all add: set_canonical_delete_def on_disk_def root_at_version_def)
  with TMode show ?thesis by simp
qed

interpretation trie_sim: simulation "trie_step H" spec_step "\<lambda>x s. op_allowed x \<and> (canon \<longrightarrow> op_canonical x)" "trie_rel H canon"
  for H :: hasher and canon :: bool
  by unfold_locales (rule trie_step_sim)

section \<open>From the empty database\<close>

definition empty_storage :: trie_storage where
  "empty_storage = \<lparr>trie_nodes = [], trie_values = [], trie_roots = [], trie_committed_roots = [],
     committed_ready = False, trie_tombstones = []\<rparr>"

definition fresh_trie :: "hasher \<Rightarrow> bool \<Rightarrow> sentrix_trie" where
  "fresh_trie H b = set_canonical_delete b (open_trie H empty_storage 0)"

lemma fresh_rel: "collision_free H \<Longrightarrow> canon \<longrightarrow> b \<Longrightarrow> trie_rel H canon (fresh_trie H b) spec_empty"
  by (rule trie_relI)
    (simp_all add: fresh_trie_def open_trie_def empty_storage_def set_canonical_delete_def TrieStorage_new_def
      ensure_committed_roots_index_def TrieCache_new_def cache_ok_def get_node_def load_value_def load_node_def
      storage_load_value_def load_root_def on_disk_def spec_empty_def root_at_version_def history_ok_def stands_for_empty)

lemma run_allowed_all: "run_allowed (\<lambda>x s. P x) spec xs s \<longleftrightarrow> list_all P xs"
  by (induction xs arbitrary: s) auto

lemma stands_for_get:
  assumes "trie_rel H canon t s" "stands_for H canon (cache t) r m"
  shows "trie_get H (set_root r t) k = Some (Ok (m k))"
proof -
  obtain tree where tree: "r = thash H 0 tree" "wf_tree 0 tree" "stored H (cache t) 0 tree" "holds tree m"
    using assms(2) by (auto simp: stands_for_def)
  then have "represents H (set_root r t) tree"
    using trie_relD(2) [OF assms(1)] by (simp add: represents_def set_root_def)
  from get_refines [OF trie_relD(1) [OF assms(1)] this, of k] holds_get [OF tree(2,4), of k] show ?thesis by simp
qed

lemma trie_run_rel:
  assumes "collision_free H" "list_all op_allowed ops" "canon \<longrightarrow> b \<and> list_all op_canonical ops"
  shows "\<exists>t. run_steps (trie_step H) ops (fresh_trie H b) = Some t \<and> trie_rel H canon t (run_spec spec_step ops spec_empty)"
proof -
  have "run_allowed (\<lambda>x s. op_allowed x \<and> (canon \<longrightarrow> op_canonical x)) spec_step ops spec_empty"
    unfolding run_allowed_all using assms by (auto simp: list_all_iff)
  then show ?thesis using fresh_rel assms by (intro trie_sim.run_sim) auto
qed

text \<open>
  The trie implements a versioned map (C36): every sequence of insertions under 32-byte keys,
  deletions in either mode, commits that succeed or fail, rollbacks and restarts runs without error
  from an empty database, and afterwards a lookup of any key returns exactly what the map holds, under
  the current root and under the root of every committed version.
\<close>

theorem trie_implements_map:
  assumes "collision_free H" "list_all op_allowed ops"
  shows "\<exists>t. run_steps (trie_step H) ops (fresh_trie H b) = Some t \<and>
    (\<forall>k. trie_get H t k = Some (Ok (content (run_spec spec_step ops spec_empty) k))) \<and>
    (\<forall>n. (root_at_version t n = None \<and> committed (run_spec spec_step ops spec_empty) n = None) \<or>
      (\<exists>r m. root_at_version t n = Some r \<and> committed (run_spec spec_step ops spec_empty) n = Some m \<and>
        (\<forall>k. trie_get H (set_root r t) k = Some (Ok (m k)))))"
proof -
  define s where "s = run_spec spec_step ops spec_empty"
  obtain t where t: "run_steps (trie_step H) ops (fresh_trie H b) = Some t" and rel: "trie_rel H False t s"
    using trie_run_rel [OF assms, of False b] by (auto simp: s_def)
  have "set_root (root t) t = t" by (simp add: set_root_def)
  then have "trie_get H t k = Some (Ok (content s k))" for k
    using stands_for_get [OF rel trie_relD(6) [OF rel], of k] by simp
  moreover have "(root_at_version t n = None \<and> committed s n = None) \<or>
      (\<exists>r m. root_at_version t n = Some r \<and> committed s n = Some m \<and> (\<forall>k. trie_get H (set_root r t) k = Some (Ok (m k))))" for n
    using trie_relD(7) [OF rel, of n] stands_for_get [OF rel stands_for_mono [OF _ on_disk_le [OF trie_relD(1-3) [OF rel]]]]
    by (auto simp: history_ok_def split: option.splits)
  ultimately show ?thesis using t s_def by blast
qed

text \<open>
  The state root commits to the state (C37): with canonical deletion, two sequences of operations from
  empty databases end in the same root hash exactly if they leave the same map of keys to values,
  however differently they got there.
\<close>

theorem root_determines_state:
  assumes "collision_free H" "list_all op_allowed ops" "list_all op_canonical ops"
    "list_all op_allowed ops'" "list_all op_canonical ops'"
  shows "\<exists>t t'. run_steps (trie_step H) ops (fresh_trie H True) = Some t \<and>
    run_steps (trie_step H) ops' (fresh_trie H True) = Some t' \<and>
    (root t = root t' \<longleftrightarrow>
      content (run_spec spec_step ops spec_empty) = content (run_spec spec_step ops' spec_empty))"
proof -
  define s s' where "s = run_spec spec_step ops spec_empty" and "s' = run_spec spec_step ops' spec_empty"
  obtain t where t: "run_steps (trie_step H) ops (fresh_trie H True) = Some t" and rel: "trie_rel H True t s"
    using trie_run_rel [OF assms(1,2), of True True] assms(3) by (auto simp: s_def)
  obtain t' where t': "run_steps (trie_step H) ops' (fresh_trie H True) = Some t'" and rel': "trie_rel H True t' s'"
    using trie_run_rel [OF assms(1,4), of True True] assms(5) by (auto simp: s'_def)
  obtain x where x: "root t = thash H 0 x" "wf_tree 0 x" "canonical x" "holds x (content s)"
    using trie_relD(6) [OF rel] by (auto simp: stands_for_def)
  obtain y where y: "root t' = thash H 0 y" "wf_tree 0 y" "canonical y" "holds y (content s')"
    using trie_relD(6) [OF rel'] by (auto simp: stands_for_def)
  have "root t = root t' \<longleftrightarrow> content s = content s'"
  proof
    assume "root t = root t'"
    then have "x = y" using thash_inj [OF assms(1) x(2) y(2)] x(1) y(1) by simp
    then show "content s = content s'"
      using holds_get [OF x(2,4)] holds_get [OF y(2,4)] by (intro ext) metis
  next
    assume "content s = content s'"
    then have "entries x = entries y" using x(4) y(4) by (simp add: holds_def)
    then show "root t = root t'" using canonical_unique [OF x(2) y(2) x(3) y(3)] x(1) y(1) by simp
  qed
  with t t' show ?thesis unfolding s_def s'_def by blast
qed

definition example_ops :: "trie_op list" where
  "example_ops = [TInsert key_a [1], TCommit 1, TInsert key_b [2], TInsert key_a [3], TFailedCommit 2 (StorageError []),
     TCommit 2, TDelete key_a, TRestart True, TDelete key_b]"

theorem trie_implements_map_witness:
  "\<exists>t r. run_steps (trie_step example_hasher) example_ops (fresh_trie example_hasher False) = Some t \<and>
    trie_get example_hasher t key_a = Some (Ok (Some [3])) \<and> trie_get example_hasher t key_b = Some (Ok None) \<and>
    root_at_version t 1 = Some r \<and> trie_get example_hasher (set_root r t) key_a = Some (Ok (Some [1]))"
proof -
  have spec: "content (run_spec spec_step example_ops spec_empty) key_a = Some [3]"
    "content (run_spec spec_step example_ops spec_empty) key_b = None"
    "committed (run_spec spec_step example_ops spec_empty) 1 = Some [key_a \<mapsto> [1]]"
    by (simp_all add: example_ops_def spec_empty_def)
  have "list_all op_allowed example_ops" by (simp add: example_ops_def)
  from trie_implements_map [OF example_collision_free this, of False]
  obtain t where t: "run_steps (trie_step example_hasher) example_ops (fresh_trie example_hasher False) = Some t"
    "\<forall>k. trie_get example_hasher t k = Some (Ok (content (run_spec spec_step example_ops spec_empty) k))"
    "\<forall>n. (root_at_version t n = None \<and> committed (run_spec spec_step example_ops spec_empty) n = None) \<or>
      (\<exists>r m. root_at_version t n = Some r \<and> committed (run_spec spec_step example_ops spec_empty) n = Some m \<and>
        (\<forall>k. trie_get example_hasher (set_root r t) k = Some (Ok (m k))))" by blast
  from t(3) [rule_format, of 1] spec(3) obtain r where "root_at_version t 1 = Some r"
    "\<forall>k. trie_get example_hasher (set_root r t) k = Some (Ok ([key_a \<mapsto> [1]] k))" by auto
  with t(1,2) spec(1,2) show ?thesis by (intro exI [of _ t] exI [of _ r]) simp
qed

theorem root_determines_state_witness:
  "\<exists>t t' t''. run_steps (trie_step example_hasher) [TInsert key_a [1], TInsert key_b [2], TDelete key_b] (fresh_trie example_hasher True) = Some t \<and>
    run_steps (trie_step example_hasher) [TInsert key_a [1]] (fresh_trie example_hasher True) = Some t' \<and>
    run_steps (trie_step example_hasher) [TInsert key_a [2]] (fresh_trie example_hasher True) = Some t'' \<and>
    root t = root t' \<and> root t' \<noteq> root t''"
proof -
  have maps: "content (run_spec spec_step [TInsert key_a [1], TInsert key_b [2], TDelete key_b] spec_empty) = [key_a \<mapsto> [1]]"
    "content (run_spec spec_step [TInsert key_a [1]] spec_empty) = [key_a \<mapsto> [1]]"
    "content (run_spec spec_step [TInsert key_a [2]] spec_empty) = [key_a \<mapsto> [2]]"
    by (auto simp: spec_empty_def)
  have "([key_a \<mapsto> [1]] :: trie_key \<rightharpoonup> u8 list) key_a \<noteq> [key_a \<mapsto> [2]] key_a" by simp
  then have "[key_a \<mapsto> [1]] \<noteq> [key_a \<mapsto> [2 :: u8]]" by metis
  with root_determines_state [OF example_collision_free, of "[TInsert key_a [1], TInsert key_b [2], TDelete key_b]" "[TInsert key_a [1]]"]
    root_determines_state [OF example_collision_free, of "[TInsert key_a [1]]" "[TInsert key_a [2]]"]
  show ?thesis unfolding maps by (simp del: run_steps.simps) (metis option.inject)
qed

text \<open>
  Without canonical deletion the root keeps a trace of the deleted key: the surviving leaf stays at the
  depth to which the deleted one had pushed it.
\<close>

lemma legacy_root_keeps_history:
  assumes cf: "collision_free H" and k: "valid_key k" "valid_key k'" "k \<noteq> k'" and bit: "get_bit k 0 = get_bit k' 0"
  shows "\<exists>t t'. run_steps (trie_step H) [TInsert k v, TInsert k' v', TDelete k'] (fresh_trie H False) = Some t \<and>
    run_steps (trie_step H) [TInsert k v] (fresh_trie H False) = Some t' \<and>
    (\<forall>x. trie_get H t x = trie_get H t' x) \<and> root t \<noteq> root t'"
proof -
  have rep: "represents H (fresh_trie H False) E"
    using fresh_rel [OF cf, of False False]
    by (simp add: trie_rel_def represents_def fresh_trie_def open_trie_def set_canonical_delete_def TrieStorage_new_def
        load_root_def reindex_tables empty_storage_def)
  obtain t1 where t1: "trie_insert H k v (fresh_trie H False) = (Ok (root t1), t1)" "represents H t1 (L k v)" "canonical_delete t1 = False"
    using insert_refines [OF cf k(1) rep, of v] by (auto simp: fresh_trie_def set_canonical_delete_def)
  obtain t2 where t2: "trie_insert H k' v' t1 = (Ok (root t2), t2)" "represents H t2 (tins 0 k' v' (L k v))" "canonical_delete t2 = False"
    using insert_refines [OF cf k(2) t1(2), of v'] t1(3) by auto
  obtain t3 where t3: "trie_delete H k' t2 = (Ok (root t3), t3)" "represents H t3 (tremove False k' (tins 0 k' v' (L k v)))"
    using delete_refines [OF cf t2(2), of k'] t2(3) by auto
  define y where "y = tremove False k' (tins 0 k' v' (L k v))"
  have wf: "wf_tree 0 (tins 0 k' v' (L k v))" using k by (intro wf_tins) auto
  have "entries (tins 0 k' v' (L k v)) = insert (k', v') {p \<in> entries (L k v). fst p \<noteq> k'}"
    using k by (intro entries_tins) simp_all
  then have "tget 0 k' (tins 0 k' v' (L k v)) = Some v'" unfolding tget_entries [OF wf] by blast
  then have y: "y = tdel False 0 k' (two_leaves 0 k' v' k v)" using k by (simp add: y_def tremove_def)
  have "is_N y"
  proof -
    define z where "z = tdel False 1 k' (two_leaves 1 k' v' k v)"
    have "agree_below 1 k' k" using bit by (simp add: agree_below_def)
    then have "entries z = {(k, v)}"
      using two_leaves_props [OF k(2,1), of 1 v' v] k(3) by (auto simp: z_def entries_tdel)
    then have "z \<noteq> E" by auto
    moreover have "y = (if get_bit k' 0 then join False E z else join False z E)"
      using bit by (simp add: y two_leaves.simps [of 0] z_def)
    ultimately show ?thesis by (cases z) auto
  qed
  then have "y \<noteq> L k v" by auto
  then have "root t3 \<noteq> root t1"
    using thash_inj [OF cf, of 0 y "L k v"] t3(2) t1(2) by (auto simp: represents_def y_def)
  moreover have "trie_get H t3 x = trie_get H t1 x" for x
  proof -
    have h: "holds (L k v) [k \<mapsto> v]" by (auto simp: holds_def split: if_splits)
    have "holds y [k \<mapsto> v]"
      using wf holds_tremove [of "tins 0 k' v' (L k v)" "[k \<mapsto> v, k' \<mapsto> v']" False k']
        holds_tins [OF _ k(2) h, of v'] k by (simp add: y_def fun_upd_twist)
    with h show ?thesis
      using get_refines [OF cf t3(2)] get_refines [OF cf t1(2)] holds_get t3(2) t1(2)
      by (metis represents_def y_def)
  qed
  ultimately show ?thesis using t1(1) t2(1) t3(1) by (auto simp: ok_step_def)
qed

end
