(* ===== verification/Trie_Proofs.thy ===== *)
theory Trie_Proofs
  imports Trie_Thms
begin

text \<open>
  Merkle proofs of the state trie: every proof that the trie produces verifies against its root, a
  membership proof that verifies is about an entry of the trie, and the check of non-membership
  accepts proofs for keys that are present.
\<close>

section \<open>Walking up from the terminal hash\<close>

fun uphash :: "hasher \<Rightarrow> trie_key \<Rightarrow> nat \<Rightarrow> node_hash list \<Rightarrow> node_hash \<Rightarrow> node_hash" where
  "uphash H k d [] h = h"
| "uphash H k d (s # ss) h =
    (let up = uphash H k (Suc d) ss h in if get_bit k d then hash_internal H s up else hash_internal H up s)"

lemma fold_uphash:
  assumes "sibs = pre @ ss" "length pre = d"
  shows "fold (\<lambda>d current.
        let (left, right) = (if get_bit k d then (sibs ! d, current) else (current, sibs ! d)) in hash_internal H left right)
      (rev [d..<d + length ss]) h = uphash H k d ss h"
  using assms
proof (induction ss arbitrary: pre d)
  case (Cons s ss)
  have "[d..<d + length (s # ss)] = d # [Suc d..<Suc d + length ss]" by (subst upt_conv_Cons) simp_all
  moreover have "sibs ! d = s" using Cons.prems by (simp add: nth_append)
  ultimately show ?case using Cons.IH [of "pre @ [s]" "Suc d"] Cons.prems by simp
qed simp

lemma compute_root_uphash:
  "length (mp_siblings p) = mp_depth p \<Longrightarrow> mp_depth p \<le> 256 \<Longrightarrow>
    compute_root H p h = Some (uphash H (mp_key p) 0 (mp_siblings p) h)"
  using fold_uphash [of "mp_siblings p" "[]" "mp_siblings p" 0 "mp_key p" H h] by (simp add: compute_root_def)

section \<open>Proofs that the trie produces\<close>

lemma prove_walk_stored:
  assumes cf: "collision_free H"
  shows "wf_tree d t \<Longrightarrow> stored H c d t \<Longrightarrow> length sibs = d \<Longrightarrow>
    \<exists>ss p. prove_walk H c k (thash H d t) d sibs = Ok p \<and> mp_key p = k \<and> mp_siblings p = sibs @ ss \<and>
      mp_depth p = d + length ss \<and> mp_depth p \<le> 256 \<and> mp_found p = (tget d k t \<noteq> None) \<and>
      mp_value p = (case tget d k t of Some v \<Rightarrow> v | None \<Rightarrow> []) \<and>
      (mp_found p \<longrightarrow> mp_terminal_hash p = hash_leaf H k (mp_value p)) \<and>
      uphash H k d ss (mp_terminal_hash p) = thash H d t"
proof (induction t arbitrary: d sibs)
  case E
  then show ?case by (subst prove_walk.simps) simp
next
  case (L k' v)
  then show ?case using thash_nonempty [OF cf L.prems(1)] by (subst prove_walk.simps) auto
next
  case (N l r)
  have d: "d < 256" and ne: "thash H d (N l r) \<noteq> empty_hash H d"
    using N.prems(1) thash_nonempty [OF cf N.prems(1)] by simp_all
  define t s where "t = (if get_bit k d then r else l)" and "s = (if get_bit k d then l else r)"
  have wf: "wf_tree (Suc d) t" "stored H c (Suc d) t" "length (sibs @ [thash H (Suc d) s]) = Suc d"
    using N.prems by (simp_all add: t_def)
  obtain ss p where p: "prove_walk H c k (thash H (Suc d) t) (Suc d) (sibs @ [thash H (Suc d) s]) = Ok p"
      "mp_key p = k" "mp_siblings p = (sibs @ [thash H (Suc d) s]) @ ss" "mp_depth p = Suc d + length ss" "mp_depth p \<le> 256"
      "mp_found p = (tget (Suc d) k t \<noteq> None)" "mp_value p = (case tget (Suc d) k t of Some v \<Rightarrow> v | None \<Rightarrow> [])"
      "mp_found p \<longrightarrow> mp_terminal_hash p = hash_leaf H k (mp_value p)"
      "uphash H k (Suc d) ss (mp_terminal_hash p) = thash H (Suc d) t"
    using N.IH(1) [of "Suc d" "sibs @ [thash H (Suc d) s]"] N.IH(2) [of "Suc d" "sibs @ [thash H (Suc d) s]"] wf
    by (cases "get_bit k d") (auto simp: t_def)
  have "prove_walk H c k (thash H d (N l r)) d sibs = Ok p"
    using p(1) d ne N.prems(2) by (subst prove_walk.simps) (auto simp: t_def s_def)
  moreover have "uphash H k d (thash H (Suc d) s # ss) (mp_terminal_hash p) = thash H d (N l r)"
    using p(9) by (simp add: t_def s_def)
  moreover have "tget d k (N l r) = tget (Suc d) k t" by (simp add: t_def)
  ultimately show ?case using p by (intro exI [of _ "thash H (Suc d) s # ss"] exI [of _ p]) simp
qed

lemma prove_represents:
  assumes "collision_free H" "represents H t tree"
  shows "\<exists>p. prove H t k = Ok p \<and> mp_key p = k \<and> length (mp_siblings p) = mp_depth p \<and> mp_depth p \<le> 256 \<and>
    mp_found p = (tget 0 k tree \<noteq> None) \<and> mp_value p = (case tget 0 k tree of Some v \<Rightarrow> v | None \<Rightarrow> []) \<and>
    (mp_found p \<longrightarrow> mp_terminal_hash p = hash_leaf H k (mp_value p)) \<and>
    uphash H k 0 (mp_siblings p) (mp_terminal_hash p) = root t"
proof -
  have "wf_tree 0 tree" "stored H (cache t) 0 tree" "root t = thash H 0 tree" using assms(2) by (simp_all add: represents_def)
  with prove_walk_stored [OF assms(1), of 0 tree "cache t" "[]" k] show ?thesis by (auto simp: prove_def)
qed

section \<open>Soundness of membership proofs\<close>

lemma link_inj:
  assumes "collision_free H" "is_hash H s" "is_hash H up" "is_hash H x" "is_hash H y"
    "(if b then hash_internal H s up else hash_internal H up s) = hash_internal H x y"
  shows "up = (if b then y else x)"
  using assms internal_inj [OF assms(1), of s up x y] internal_inj [OF assms(1), of up s x y] by (cases b) simp_all

lemma uphash_sound:
  assumes cf: "collision_free H" and k: "valid_key k"
  shows "list_all (is_hash H) ss \<Longrightarrow> wf_tree d t \<Longrightarrow> uphash H k d ss (hash_leaf H k v) = thash H d t \<Longrightarrow> tget d k t = Some v"
proof (induction ss arbitrary: d t)
  case Nil
  then show ?case using empty_not_leaf [OF cf, of d k v] leaf_inj [OF cf k] cf by (cases t) auto
next
  case (Cons s ss)
  define up where "up = uphash H k (Suc d) ss (hash_leaf H k v)"
  have up: "is_hash H up" by (cases ss) (simp_all add: up_def)
  have s: "is_hash H s" "list_all (is_hash H) ss" using Cons.prems(1) by simp_all
  have eq: "(if get_bit k d then hash_internal H s up else hash_internal H up s) = thash H d t"
    using Cons.prems(3) unfolding up_def uphash.simps Let_def .
  have IH: "tget (Suc d) k t' = Some v" if "wf_tree (Suc d) t'" "up = thash H (Suc d) t'" for t'
    using Cons.IH [OF s(2) that(1)] that(2) by (simp add: up_def)
  show ?case
  proof (cases t)
    case E
    then have d: "d < 256" using eq Cons.prems(2) cf by (cases "d = 256") (auto simp: empty_hash_256 split: if_splits)
    then have "up = thash H (Suc d) E"
      using eq E link_inj [OF cf s(1) up, of "empty_hash H (Suc d)" "empty_hash H (Suc d)" "get_bit k d"]
      by (simp add: empty_hash_step)
    with IH [of E] d show ?thesis by simp
  next
    case (L k' v')
    with eq cf show ?thesis by (simp split: if_splits)
  next
    case (N l r)
    then have wf: "wf_tree (Suc d) l" "wf_tree (Suc d) r" using Cons.prems(2) by simp_all
    have "up = (if get_bit k d then thash H (Suc d) r else thash H (Suc d) l)"
      using eq N wf by (intro link_inj [OF cf s(1) up]) simp_all
    with IH wf N show ?thesis by (cases "get_bit k d") simp_all
  qed
qed

section \<open>Proofs and the map\<close>

lemma run_tree:
  assumes "collision_free H" "list_all op_allowed ops" "run_steps (trie_step H) ops (fresh_trie H b) = Some t"
  obtains tree where "represents H t tree" "\<And>k. tget 0 k tree = content (run_spec spec_step ops spec_empty) k"
proof -
  have "trie_rel H False t (run_spec spec_step ops spec_empty)"
    using trie_run_rel [OF assms(1,2), of False b] assms(3) by auto
  then obtain tree where "represents H t tree" "holds tree (content (run_spec spec_step ops spec_empty))"
    by (rule trie_relE)
  with that [of tree] holds_get [of tree] show ?thesis by (simp add: represents_def)
qed

text \<open>
  Proofs are complete and membership proofs are sound (C38): after any sequence of operations the trie
  produces for every key a proof that verifies against its root, with the stored value when the key
  is present; and any membership proof for a 32-byte key that verifies against the root, whoever made
  it, carries the value the trie holds for that key.
\<close>

theorem proofs_complete_and_sound:
  assumes "collision_free H" "list_all op_allowed ops" "run_steps (trie_step H) ops (fresh_trie H b) = Some t"
    "valid_key (mp_key q)" "list_all (is_hash H) (mp_siblings q)"
  shows "(\<exists>p. prove H t k = Ok p \<and> mp_key p = k \<and>
      (case content (run_spec spec_step ops spec_empty) k of
         Some v \<Rightarrow> mp_value p = v \<and> verify_membership H p (root t) = Some True
       | None \<Rightarrow> verify_nonmembership H p (root t) = Some True)) \<and>
    (verify_membership H q (root t) = Some True \<longrightarrow>
      content (run_spec spec_step ops spec_empty) (mp_key q) = Some (mp_value q))"
proof -
  obtain tree where rep: "represents H t tree" and get: "\<And>k. tget 0 k tree = content (run_spec spec_step ops spec_empty) k"
    using run_tree [OF assms(1-3)] by blast
  obtain p where p: "prove H t k = Ok p" "mp_key p = k" "length (mp_siblings p) = mp_depth p" "mp_depth p \<le> 256"
      "mp_found p = (tget 0 k tree \<noteq> None)" "mp_value p = (case tget 0 k tree of Some v \<Rightarrow> v | None \<Rightarrow> [])"
      "mp_found p \<longrightarrow> mp_terminal_hash p = hash_leaf H k (mp_value p)"
      "uphash H k 0 (mp_siblings p) (mp_terminal_hash p) = root t"
    using prove_represents [OF assms(1) rep, of k] by auto
  have "verify_membership H p (root t) = Some True" if "tget 0 k tree \<noteq> None"
    using p that by (simp add: verify_membership_def compute_root_uphash)
  moreover have "verify_nonmembership H p (root t) = Some True" if "tget 0 k tree = None"
    using p that by (simp add: verify_nonmembership_def compute_root_uphash)
  moreover have "tget 0 (mp_key q) tree = Some (mp_value q)" if ok: "verify_membership H q (root t) = Some True"
  proof -
    have q: "length (mp_siblings q) = mp_depth q" "mp_depth q \<le> 256"
      using ok by (auto simp: verify_membership_def compute_root_def split: if_splits)
    then have "uphash H (mp_key q) 0 (mp_siblings q) (hash_leaf H (mp_key q) (mp_value q)) = thash H 0 tree"
      using ok rep by (auto simp: verify_membership_def compute_root_uphash represents_def split: if_splits)
    with uphash_sound [OF assms(1,4,5)] rep show ?thesis by (simp add: represents_def)
  qed
  ultimately show ?thesis using p(1,2,6) by (auto simp: get split: option.split)
qed

theorem proofs_complete_and_sound_witness:
  "\<exists>t p. run_steps (trie_step example_hasher) [TInsert key_a [1], TInsert key_b [2]] (fresh_trie example_hasher True) = Some t \<and>
    prove example_hasher t key_a = Ok p \<and> mp_value p = [1] \<and> verify_membership example_hasher p (root t) = Some True"
proof -
  let ?ops = "[TInsert key_a [1], TInsert key_b [2]]"
  define q where "q = \<lparr>mp_key = key_a, mp_value = [], mp_siblings = [], mp_depth = 0, mp_found = True, mp_terminal_hash = []\<rparr>"
  have ops: "list_all op_allowed ?ops" by simp
  obtain t where t: "run_steps (trie_step example_hasher) ?ops (fresh_trie example_hasher True) = Some t"
    using trie_run_rel [OF example_collision_free ops, of False True] by auto
  have "content (run_spec spec_step ?ops spec_empty) key_a = Some [1]" by (simp add: spec_empty_def)
  with proofs_complete_and_sound [OF example_collision_free ops t, of q key_a] t show ?thesis
    by (auto simp: q_def simp del: run_steps.simps)
qed

text \<open>
  Non-membership can be forged (C40): for every key that is present, the membership proof that the trie
  produces, with only its \<open>found\<close> flag cleared, passes the check of non-membership against the root.
\<close>

theorem nonmembership_forgeable:
  assumes "collision_free H" "list_all op_allowed ops" "run_steps (trie_step H) ops (fresh_trie H b) = Some t"
    "content (run_spec spec_step ops spec_empty) k = Some v"
  shows "\<exists>p. prove H t k = Ok p \<and> mp_key p = k \<and>
    verify_nonmembership H (p\<lparr>mp_found := False\<rparr>) (root t) = Some True"
proof -
  obtain tree where rep: "represents H t tree" and get: "\<And>k. tget 0 k tree = content (run_spec spec_step ops spec_empty) k"
    using run_tree [OF assms(1-3)] by blast
  obtain p where p: "prove H t k = Ok p" "mp_key p = k" "length (mp_siblings p) = mp_depth p" "mp_depth p \<le> 256"
      "uphash H k 0 (mp_siblings p) (mp_terminal_hash p) = root t"
    using prove_represents [OF assms(1) rep, of k] by auto
  then have "verify_nonmembership H (p\<lparr>mp_found := False\<rparr>) (root t) = Some True"
    by (simp add: verify_nonmembership_def compute_root_uphash)
  with p show ?thesis by blast
qed

theorem nonmembership_forgeable_witness:
  "\<exists>t p. run_steps (trie_step example_hasher) [TInsert key_a [1]] (fresh_trie example_hasher True) = Some t \<and>
    trie_get example_hasher t key_a = Some (Ok (Some [1])) \<and> prove example_hasher t key_a = Ok p \<and>
    verify_nonmembership example_hasher (p\<lparr>mp_found := False\<rparr>) (root t) = Some True"
proof -
  let ?ops = "[TInsert key_a [1]]"
  have ops: "list_all op_allowed ?ops" by simp
  obtain t where t: "run_steps (trie_step example_hasher) ?ops (fresh_trie example_hasher True) = Some t"
    using trie_run_rel [OF example_collision_free ops, of False True] by auto
  have c: "content (run_spec spec_step ?ops spec_empty) key_a = Some [1]" by (simp add: spec_empty_def)
  obtain tree where "represents example_hasher t tree" "tget 0 key_a tree = Some [1]"
    using run_tree [OF example_collision_free ops t] c by metis
  then have "trie_get example_hasher t key_a = Some (Ok (Some [1]))"
    using get_refines [OF example_collision_free] by simp
  with nonmembership_forgeable [OF example_collision_free ops t c] t show ?thesis by blast
qed

end
