(* ===== verification/Trie_Prune.thy ===== *)
theory Trie_Prune
  imports Trie_Thms
begin

text \<open>
  Integrity walks and pruning of the state trie: the walk that marks reachable nodes ends and marks
  exactly the nodes of the trees under the kept roots, so that collecting the rest keeps every
  retained version readable.
\<close>

section \<open>A hash identifies its tree at every depth\<close>

lemma nonempty_not_empty_hash:
  assumes cf: "collision_free H"
  shows "wf_tree d t \<Longrightarrow> t \<noteq> E \<Longrightarrow> e \<le> 256 \<Longrightarrow> thash H d t \<noteq> empty_hash H e"
proof (induction t arbitrary: d e)
  case (L k v)
  then show ?case using empty_not_leaf [OF cf, of e k v] by auto
next
  case (N l r)
  show ?case
  proof (cases "e = 256")
    case True
    then show ?thesis using cf by (simp add: empty_hash_256)
  next
    case False
    then have e: "e < 256" using N.prems(3) by simp
    have wf: "wf_tree (Suc d) l" "wf_tree (Suc d) r" "l \<noteq> E \<or> r \<noteq> E" using N.prems(1) by auto
    have "thash H d (N l r) = empty_hash H e \<Longrightarrow>
        thash H (Suc d) l = empty_hash H (Suc e) \<and> thash H (Suc d) r = empty_hash H (Suc e)"
      using e wf by (intro internal_inj [OF cf]) (simp_all add: empty_hash_step)
    moreover have "thash H (Suc d) l \<noteq> empty_hash H (Suc e) \<or> thash H (Suc d) r \<noteq> empty_hash H (Suc e)"
      using wf(3) N.IH(1) [OF wf(1), of "Suc e"] N.IH(2) [OF wf(2), of "Suc e"] e by linarith
    ultimately show ?thesis by blast
  qed
qed simp

lemma thash_inj_depth:
  assumes cf: "collision_free H"
  shows "wf_tree d t \<Longrightarrow> wf_tree d' t' \<Longrightarrow> thash H d t = thash H d' t' \<Longrightarrow> t = t'"
proof (induction t arbitrary: d d' t')
  case E
  then show ?case using nonempty_not_empty_hash [OF cf E.prems(2), of d] by auto
next
  case (L k v)
  show ?case
  proof (cases t')
    case E
    with L.prems nonempty_not_empty_hash [OF cf L.prems(1), of d'] show ?thesis by simp
  next
    case (L k' v')
    with \<open>wf_tree d (smt.L k v)\<close> \<open>wf_tree d' t'\<close> \<open>thash H d (smt.L k v) = thash H d' t'\<close>
    show ?thesis using leaf_inj [OF cf, of k k' v v'] by simp
  next
    case (N l r)
    with L.prems(3) cf show ?thesis by simp
  qed
next
  case (N l r)
  show ?case
  proof (cases t')
    case E
    with N.prems nonempty_not_empty_hash [OF cf N.prems(1), of d'] show ?thesis by simp
  next
    case (L k' v')
    with N.prems(3) cf show ?thesis by simp
  next
    case t': (N l' r')
    have wf: "wf_tree (Suc d) l" "wf_tree (Suc d) r" "wf_tree (Suc d') l'" "wf_tree (Suc d') r'"
      using N.prems t' by simp_all
    have "thash H (Suc d) l = thash H (Suc d') l' \<and> thash H (Suc d) r = thash H (Suc d') r'"
      using N.prems(3) t' by (intro internal_inj [OF cf]) (simp_all add: wf)
    with N.IH wf t' show ?thesis by blast
  qed
qed

section \<open>Marking reachable nodes\<close>

fun nodes_of :: "hasher \<Rightarrow> nat \<Rightarrow> smt \<Rightarrow> node_hash set" where
  "nodes_of H d E = {}"
| "nodes_of H d (L k v) = {hash_leaf H k v}"
| "nodes_of H d (N l r) = insert (thash H d (N l r)) (nodes_of H (Suc d) l \<union> nodes_of H (Suc d) r)"

text \<open>The marked set is closed for trees of less than \<open>n\<close> constructors.\<close>

definition closed_below :: "hasher \<Rightarrow> nat \<Rightarrow> node_hash set \<Rightarrow> bool" where
  "closed_below H n live \<longleftrightarrow>
    (\<forall>d t. wf_tree d t \<longrightarrow> t \<noteq> E \<longrightarrow> size t < n \<longrightarrow> thash H d t \<in> live \<longrightarrow> nodes_of H d t \<subseteq> live)"

lemma thash_in_nodes: "t \<noteq> E \<Longrightarrow> thash H d t \<in> nodes_of H d t"
  by (cases t) simp_all

lemma nodes_of_cong:
  assumes cf: "collision_free H"
  shows "wf_tree d t \<Longrightarrow> wf_tree d' t \<Longrightarrow> thash H d t = thash H d' t \<Longrightarrow> nodes_of H d t = nodes_of H d' t"
proof (induction t arbitrary: d d')
  case (N l r)
  have wf: "wf_tree (Suc d) l" "wf_tree (Suc d) r" "wf_tree (Suc d') l" "wf_tree (Suc d') r" using N.prems by simp_all
  have "thash H (Suc d) l = thash H (Suc d') l \<and> thash H (Suc d) r = thash H (Suc d') r"
    using N.prems(3) by (intro internal_inj [OF cf]) (simp_all add: wf)
  then have "nodes_of H (Suc d) l = nodes_of H (Suc d') l" "nodes_of H (Suc d) r = nodes_of H (Suc d') r"
    using N.IH wf by blast+
  with N.prems(3) show ?case by (simp only: nodes_of.simps)
qed simp_all

lemma nodes_of_subtree:
  assumes cf: "collision_free H"
  shows "wf_tree d t \<Longrightarrow> wf_tree d' t' \<Longrightarrow> thash H d' t' \<in> nodes_of H d t \<Longrightarrow> nodes_of H d' t' \<subseteq> nodes_of H d t"
proof (induction t arbitrary: d)
  case (L k v)
  then have "t' = smt.L k v" using thash_inj_depth [OF cf, of d' t' d "smt.L k v"] by simp
  then show ?case by simp
next
  case (N l r)
  have wf: "wf_tree (Suc d) l" "wf_tree (Suc d) r" using N.prems(1) by simp_all
  show ?case
  proof (cases "thash H d' t' = thash H d (N l r)")
    case True
    then have "t' = N l r" using thash_inj_depth [OF cf N.prems(2,1)] by simp
    moreover have "nodes_of H d' (N l r) = nodes_of H d (N l r)"
      using True N.prems \<open>t' = N l r\<close> by (intro nodes_of_cong [OF cf]) simp_all
    ultimately show ?thesis by simp
  next
    case False
    with N wf show ?thesis by auto
  qed
qed simp

lemma closed_belowD:
  "closed_below H n live \<Longrightarrow> wf_tree d t \<Longrightarrow> t \<noteq> E \<Longrightarrow> size t < n \<Longrightarrow> thash H d t \<in> live \<Longrightarrow> nodes_of H d t \<subseteq> live"
  unfolding closed_below_def by blast

lemma closed_below_Un:
  assumes "collision_free H" "closed_below H n live" "wf_tree d t"
  shows "closed_below H n (live \<union> nodes_of H d t)"
  unfolding closed_below_def
proof (intro allI impI)
  fix d' t' assume t': "wf_tree d' t'" "t' \<noteq> E" "size t' < n" "thash H d' t' \<in> live \<union> nodes_of H d t"
  then consider "thash H d' t' \<in> live" | "thash H d' t' \<in> nodes_of H d t" by blast
  then show "nodes_of H d' t' \<subseteq> live \<union> nodes_of H d t"
  proof cases
    case 1
    with closed_belowD [OF assms(2) t'(1-3)] show ?thesis by blast
  next
    case 2
    with nodes_of_subtree [OF assms(1,3) t'(1)] show ?thesis by blast
  qed
qed

lemma closed_below_insert:
  assumes "collision_free H" "closed_below H n live" "wf_tree d t" "m \<le> size t" "m \<le> n"
  shows "closed_below H m (insert (thash H d t) live)"
  unfolding closed_below_def
proof (intro allI impI)
  fix d' t' assume t': "wf_tree d' t'" "t' \<noteq> E" "size t' < m" "thash H d' t' \<in> insert (thash H d t) live"
  have "thash H d' t' \<noteq> thash H d t" using thash_inj_depth [OF assms(1) t'(1) assms(3)] t'(3) assms(4) by auto
  with t' closed_belowD [OF assms(2) t'(1,2)] assms(5) show "nodes_of H d' t' \<subseteq> insert (thash H d t) live" by auto
qed

abbreviation disk_view :: "trie_storage \<Rightarrow> trie_cache" where
  "disk_view s \<equiv> TrieCache_new s"

lemma disk_view [simp]: "get_node (disk_view s) = load_node s" "load_value (disk_view s) = storage_load_value s"
  by (simp_all add: TrieCache_new_def get_node_def load_value_def fun_eq_iff)

lemma collect_reachable_stored:
  assumes cf: "collision_free H"
  shows "wf_tree d t \<Longrightarrow> stored H (disk_view s) d t \<Longrightarrow> closed_below H n live \<Longrightarrow> size t < n \<Longrightarrow>
    collect_reachable H s (thash H d t) d live = Some (live \<union> nodes_of H d t)"
proof (induction t arbitrary: d n live)
  case E
  then show ?case by (subst collect_reachable.simps) simp
next
  case (L k v)
  then have "hash_leaf H k v \<noteq> empty_hash H d" using thash_nonempty [OF cf L.prems(1)] by simp
  with L show ?case by (subst collect_reachable.simps) auto
next
  case (N l r)
  let ?h = "thash H d (N l r)"
  have ne: "?h \<noteq> empty_hash H d" using thash_nonempty [OF cf N.prems(1)] by simp
  have wf: "wf_tree (Suc d) l" "wf_tree (Suc d) r" "stored H (disk_view s) (Suc d) l" "stored H (disk_view s) (Suc d) r"
    using N.prems by simp_all
  show ?case
  proof (cases "?h \<in> live")
    case True
    then have "nodes_of H d (N l r) \<subseteq> live" using closed_belowD [OF N.prems(3,1)] N.prems(4) by simp
    then have "live \<union> nodes_of H d (N l r) = live" by blast
    with True show ?thesis by (subst collect_reachable.simps) simp
  next
    case False
    let ?m = "size (N l r)"
    have c1: "closed_below H ?m (insert ?h live)"
      using closed_below_insert [OF cf N.prems(3,1), of ?m] N.prems(4) by simp
    have l: "collect_reachable H s (thash H (Suc d) l) (Suc d) (insert ?h live) = Some (insert ?h live \<union> nodes_of H (Suc d) l)"
      using N.IH(1) [OF wf(1,3) c1] by simp
    have r: "collect_reachable H s (thash H (Suc d) r) (Suc d) (insert ?h live \<union> nodes_of H (Suc d) l) =
        Some (insert ?h live \<union> nodes_of H (Suc d) l \<union> nodes_of H (Suc d) r)"
      using N.IH(2) [OF wf(2,4) closed_below_Un [OF cf c1 wf(1)]] by simp
    have node: "load_node s ?h = Some (Internal_node (thash H (Suc d) l) (thash H (Suc d) r) ?h)" using N.prems(2) by simp
    have "collect_reachable H s ?h d live = Some (insert ?h live \<union> nodes_of H (Suc d) l \<union> nodes_of H (Suc d) r)"
      using ne False by (subst collect_reachable.simps) (simp only: node option.case trie_node.case if_False de_Morgan_disj
        HOL.simp_thms bind.bind_lunit Suc_eq_plus1 [symmetric] l r)
    then show ?thesis by auto
  qed
qed

definition closed :: "hasher \<Rightarrow> node_hash set \<Rightarrow> bool" where
  "closed H live \<longleftrightarrow> (\<forall>n. closed_below H n live)"

definition tree_on :: "hasher \<Rightarrow> trie_storage \<Rightarrow> node_hash \<Rightarrow> smt \<Rightarrow> bool" where
  "tree_on H s r t \<longleftrightarrow> r = thash H 0 t \<and> wf_tree 0 t \<and> stored H (disk_view s) 0 t"

lemma collect_root:
  assumes "collision_free H" "tree_on H s r t" "closed H live"
  shows "collect_reachable H s r 0 live = Some (live \<union> nodes_of H 0 t) \<and> closed H (live \<union> nodes_of H 0 t)"
  using assms collect_reachable_stored [of H 0 t s "Suc (size t)" live] closed_below_Un
  by (auto simp: tree_on_def closed_def)

lemma marked_root:
  assumes "collision_free H" "tree_on H s r t" "closed H live" "r \<in> live"
  shows "nodes_of H 0 t \<subseteq> live"
proof (cases "t = E")
  case False
  with assms closed_belowD [of H "Suc (size t)" live 0 t] show ?thesis by (simp add: closed_def tree_on_def)
qed simp

lemma collect_versions_marks:
  assumes cf: "collision_free H" and trees: "\<And>v r. v \<in> set vs \<Longrightarrow> load_root s v = Some r \<Longrightarrow> \<exists>t. tree_on H s r t"
  shows "closed H live \<Longrightarrow> \<exists>live'. collect_versions H s vs live = Some live' \<and> live \<subseteq> live' \<and>
    (\<forall>v \<in> set vs. \<forall>r t. load_root s v = Some r \<longrightarrow> tree_on H s r t \<longrightarrow> nodes_of H 0 t \<subseteq> live')"
  using trees
proof (induction vs arbitrary: live)
  case (Cons v vs)
  show ?case
  proof (cases "load_root s v")
    case None
    obtain live' where "collect_versions H s vs live = Some live'" "live \<subseteq> live'"
        "\<forall>v \<in> set vs. \<forall>r t. load_root s v = Some r \<longrightarrow> tree_on H s r t \<longrightarrow> nodes_of H 0 t \<subseteq> live'"
      using Cons.IH [OF Cons.prems(1)] Cons.prems(2) by (meson list.set_intros(2))
    with None show ?thesis by (intro exI [of _ live']) simp
  next
    case (Some r)
    then obtain t where t: "tree_on H s r t" using Cons.prems(2) [of v r] by auto
    have uniq: "t' = t" if "tree_on H s r t'" for t'
      using that t thash_inj [OF cf, of 0 t' t] by (simp add: tree_on_def)
    define live1 where "live1 = (if r \<in> live then live else live \<union> nodes_of H 0 t)"
    have c1: "closed H live1" and n1: "nodes_of H 0 t \<subseteq> live1" and sub: "live \<subseteq> live1"
      using collect_root [OF cf t Cons.prems(1)] marked_root [OF cf t Cons.prems(1)] Cons.prems(1)
      by (auto simp: live1_def)
    have step: "collect_versions H s (v # vs) live = collect_versions H s vs live1"
      using Some collect_root [OF cf t Cons.prems(1)] by (simp add: live1_def)
    obtain live' where live': "collect_versions H s vs live1 = Some live'" "live1 \<subseteq> live'"
        "\<forall>v \<in> set vs. \<forall>r t. load_root s v = Some r \<longrightarrow> tree_on H s r t \<longrightarrow> nodes_of H 0 t \<subseteq> live'"
      using Cons.IH [OF c1] Cons.prems(2) by (meson list.set_intros(2))
    have "nodes_of H 0 t' \<subseteq> live'" if "load_root s v = Some r'" "tree_on H s r' t'" for r' t'
      using that Some uniq n1 live'(2) by auto
    with live' sub step show ?thesis by (intro exI [of _ live']) auto
  qed
qed simp

section \<open>Collecting the rest\<close>

lemma fold_hdel: "hget (fold (\<lambda>h t. hdel t h) hs table) k = (if k \<in> set hs then None else hget table k)"
  by (induction hs arbitrary: table) (auto simp: hget_hdel)

lemma gc_table_lookup: "hget (snd (gc_table live table)) k = (if k \<in> live then hget table k else None)"
proof -
  have "hget table k = None" if "k \<notin> fst ` set table" using that by (simp add: map_of_eq_None_iff)
  then show ?thesis by (auto simp: gc_table_def fold_hdel)
qed

lemma gc_lookup:
  "load_node (snd (gc_orphaned_nodes live s)) h = (if h \<in> live then load_node s h else None)"
  "storage_load_value (snd (gc_orphaned_nodes live s)) h = (if h \<in> live then storage_load_value s h else None)"
  "trie_roots (snd (gc_orphaned_nodes live s)) = trie_roots s"
  by (simp_all add: gc_orphaned_nodes_def gc_nodes_def gc_values_def case_prod_beta load_node_def storage_load_value_def
      gc_table_lookup)

lemma stored_gc:
  "stored H (disk_view s) d t \<Longrightarrow> nodes_of H d t \<subseteq> live \<Longrightarrow> stored H (disk_view (snd (gc_orphaned_nodes live s))) d t"
  by (induction t arbitrary: d) (auto simp: gc_lookup)

lemma prune_old_roots_lookup:
  defines "s1 \<equiv> \<lambda>latest keep s. snd (prune_old_roots latest keep s)"
  shows "load_root (s1 latest keep s) n = (if keep < latest \<and> n \<le> latest - keep then None else load_root s n)"
    "trie_nodes (s1 latest keep s) = trie_nodes s" "trie_values (s1 latest keep s) = trie_values s"
proof -
  let ?f = "\<lambda>(version, root) s. s\<lparr>trie_roots := hdel (trie_roots s) version,
               trie_committed_roots := hdel (trie_committed_roots s) root\<rparr>"
  have f: "hget (trie_roots (fold ?f xs s)) n = (if n \<in> fst ` set xs then None else hget (trie_roots s) n) \<and>
      trie_nodes (fold ?f xs s) = trie_nodes s \<and> trie_values (fold ?f xs s) = trie_values s" for xs :: "(u64 \<times> node_hash) list" and s
    by (induction xs arbitrary: s) (auto simp: hget_hdel)
  have none: "hget (trie_roots s) n = None" if "n \<notin> fst ` set (trie_roots s)"
    using that by (simp add: map_of_eq_None_iff)
  have "n \<in> fst ` set (filter (\<lambda>(version, root). version \<le> latest - keep) (trie_roots s)) \<longleftrightarrow>
      n \<le> latest - keep \<and> n \<in> fst ` set (trie_roots s)"
    by force
  with none show "load_root (s1 latest keep s) n = (if keep < latest \<and> n \<le> latest - keep then None else load_root s n)"
    by (auto simp: s1_def prune_old_roots_def load_root_def f)
  show "trie_nodes (s1 latest keep s) = trie_nodes s" "trie_values (s1 latest keep s) = trie_values s"
    by (simp_all add: s1_def prune_old_roots_def f)
qed

lemma tree_on_tables:
  "trie_nodes s' = trie_nodes s \<Longrightarrow> trie_values s' = trie_values s \<Longrightarrow> tree_on H s' r t = tree_on H s r t"
proof -
  assume "trie_nodes s' = trie_nodes s" "trie_values s' = trie_values s"
  then have "load_node s' = load_node s" "storage_load_value s' = storage_load_value s"
    by (simp_all add: load_node_def storage_load_value_def fun_eq_iff)
  then have "stored H (disk_view s') d t = stored H (disk_view s) d t" for d t
    by (induction t arbitrary: d) simp_all
  then show ?thesis by (simp add: tree_on_def)
qed

text \<open>
  Pruning a trie whose current and retained roots are on disk: it ends, and every tree under the
  current root or a retained version is still on disk.
\<close>

lemma prune_offline_keeps:
  assumes cf: "collision_free H" and cur: "tree_on H (storage (cache t)) (root t) cur"
    and hist: "\<And>n r. load_root (storage (cache t)) n = Some r \<Longrightarrow> \<exists>x. tree_on H (storage (cache t)) r x"
  shows "\<exists>counts s'. prune_offline H keep t = Some (counts, with_storage t s') \<and> tree_on H s' (root t) cur \<and>
    (\<forall>n. load_root s' n = (if keep < trie_version t \<and> n \<le> trie_version t - keep then None else load_root (storage (cache t)) n)) \<and>
    (\<forall>n r x. trie_version t - keep < n \<longrightarrow> n \<le> trie_version t \<longrightarrow> load_root (storage (cache t)) n = Some r \<longrightarrow>
      tree_on H (storage (cache t)) r x \<longrightarrow> tree_on H s' r x)"
proof -
  define s where "s = storage (cache t)"
  obtain pruned s1 where p: "prune_old_roots (trie_version t) keep s = (pruned, s1)" by force
  have roots1: "load_root s1 n = (if keep < trie_version t \<and> n \<le> trie_version t - keep then None else load_root s n)" for n
    using prune_old_roots_lookup(1) [of "trie_version t" keep s n] p by simp
  have tables: "trie_nodes s1 = trie_nodes s" "trie_values s1 = trie_values s"
    using prune_old_roots_lookup(2,3) [of "trie_version t" keep s] p by simp_all
  note on1 = tree_on_tables [OF tables]
  show ?thesis
  proof (cases "pruned = 0")
    case True
    then have "prune_offline H keep t = Some ((0, 0), with_storage t s1)" using p by (simp add: prune_offline_def s_def)
    with cur roots1 on1 show ?thesis unfolding s_def by (intro exI [of _ "(0, 0)"] exI [of _ s1]) simp
  next
    case False
    let ?live0 = "nodes_of H 0 cur"
    have "closed H {}" by (simp add: closed_def closed_below_def)
    then have l0: "collect_reachable H s1 (root t) 0 {} = Some ?live0" "closed H ?live0"
      using collect_root [OF cf, of s1 "root t" cur "{}"] cur on1 by (simp_all add: s_def)
    have trees: "\<exists>x. tree_on H s1 r x" if "load_root s1 v = Some r" for v r
      using that hist [of v r] roots1 [of v] on1 by (auto simp: s_def split: if_splits)
    obtain live where live: "collect_versions H s1 [saturating_sub (trie_version t) keep + 1..<trie_version t + 1] ?live0 = Some live"
        "?live0 \<subseteq> live"
        "\<forall>v \<in> set [saturating_sub (trie_version t) keep + 1..<trie_version t + 1]. \<forall>r x. load_root s1 v = Some r \<longrightarrow>
          tree_on H s1 r x \<longrightarrow> nodes_of H 0 x \<subseteq> live"
      using collect_versions_marks [where vs = "[saturating_sub (trie_version t) keep + 1..<trie_version t + 1]", OF cf _ l0(2)] trees
      by blast
    define s2 where "s2 = snd (gc_orphaned_nodes live s1)"
    have "prune_offline H keep t = Some ((pruned, fst (gc_orphaned_nodes live s1)), with_storage t s2)"
      using p False l0(1) live(1) by (simp add: prune_offline_def s_def live_set_def s2_def case_prod_beta)
    moreover have "tree_on H s2 r x" if "tree_on H s r x" "nodes_of H 0 x \<subseteq> live" for r x
    proof -
      have "tree_on H s1 r x" using that(1) on1 by blast
      with stored_gc [of H s1 0 x live] that(2) show ?thesis by (simp add: tree_on_def s2_def)
    qed
    moreover have "load_root s2 n = load_root s1 n" for n by (simp add: load_root_def s2_def gc_lookup)
    moreover have "nodes_of H 0 x \<subseteq> live" if "trie_version t - keep < n" "n \<le> trie_version t" "load_root s n = Some r"
        "tree_on H s r x" for n r x
    proof -
      have "n \<in> set [saturating_sub (trie_version t) keep + 1..<trie_version t + 1]"
        using that(1,2) by (auto simp: saturating_sub_def)
      moreover have "load_root s1 n = Some r" "tree_on H s1 r x" using that roots1 [of n] on1 by auto
      ultimately show ?thesis using live(3) by blast
    qed
    ultimately show ?thesis
      using cur live(2) roots1 unfolding s_def [symmetric]
      by (intro exI [of _ "(pruned, fst (gc_orphaned_nodes live s1))"] exI [of _ s2] conjI allI impI) simp_all
  qed
qed

text \<open>The trie as the pruning command opens it: nothing buffered, the root of its version current.\<close>

lemma restarted_on_disk:
  assumes "trie_step H (TRestart b) t0 = Some t" "trie_rel H canon t s"
  shows "\<exists>x. tree_on H (storage (cache t)) (root t) x \<and> holds x (content s)"
    and "load_root (storage (cache t)) n = Some r \<Longrightarrow> \<exists>x m. tree_on H (storage (cache t)) r x \<and> committed s n = Some m \<and> holds x m"
proof -
  have disk: "cache t = disk_view (storage (cache t))"
    using assms(1) by (auto simp: set_canonical_delete_def open_trie_def TrieCache_new_def)
  from trie_relD(6) [OF assms(2)] show "\<exists>x. tree_on H (storage (cache t)) (root t) x \<and> holds x (content s)"
    unfolding stands_for_def tree_on_def using disk by metis
  assume "load_root (storage (cache t)) n = Some r"
  with trie_relD(7) [OF assms(2), of n]
  show "\<exists>x m. tree_on H (storage (cache t)) r x \<and> committed s n = Some m \<and> holds x m"
    by (auto simp: history_ok_def stands_for_def tree_on_def root_at_version_def on_disk_def)
qed

lemma tree_on_get:
  assumes "collision_free H" "tree_on H s r x" "holds x m" "pending_nodes (cache t) = []" "pending_values (cache t) = []"
  shows "trie_get H (set_root r (with_storage t s)) k = Some (Ok (m k))"
proof -
  have "cache (set_root r (with_storage t s)) = disk_view s"
    using assms(4,5) by (simp add: set_root_def with_storage_def TrieCache_new_def)
  with get_walk_stored [OF assms(1), of 0 x "disk_view s" k] assms holds_get [of x m k] show ?thesis
    by (simp add: trie_get_def tree_on_def set_root_def)
qed

lemma run_steps_snoc:
  "run_steps step (es @ [e]) s = (case run_steps step es s of None \<Rightarrow> None | Some s' \<Rightarrow> step e s')"
  by (induction es arbitrary: s) (auto split: option.split)

text \<open>
  Offline pruning keeps what it promises (C39): after any sequence of operations and a restart, pruning
  to the last \<open>keep\<close> versions ends; the current state and every version in the window still answer every
  lookup as before, and the roots of older versions are gone.
\<close>

theorem prune_keeps_window:
  assumes "collision_free H" "list_all op_allowed ops" "run_steps (trie_step H) (ops @ [TRestart b]) (fresh_trie H b) = Some t"
  shows "\<exists>counts t'. prune_offline H keep t = Some (counts, t') \<and> root t' = root t \<and>
    (\<forall>k. trie_get H t' k = Some (Ok (content (run_spec spec_step (ops @ [TRestart b]) spec_empty) k))) \<and>
    (\<forall>n m. trie_version t - keep < n \<and> n \<le> trie_version t \<and> committed (run_spec spec_step (ops @ [TRestart b]) spec_empty) n = Some m \<longrightarrow>
      (\<exists>r. root_at_version t' n = Some r \<and> (\<forall>k. trie_get H (set_root r t') k = Some (Ok (m k))))) \<and>
    (\<forall>n. keep < trie_version t \<and> n \<le> trie_version t - keep \<longrightarrow> root_at_version t' n = None)"
proof -
  define s where "s = run_spec spec_step (ops @ [TRestart b]) spec_empty"
  have rel: "trie_rel H False t s"
    using trie_run_rel [OF assms(1), of "ops @ [TRestart b]" False b] assms(2,3) by (auto simp: s_def)
  obtain t0 where t0: "trie_step H (TRestart b) t0 = Some t"
    using assms(3) by (auto simp: run_steps_snoc split: option.splits)
  then have pend: "pending_nodes (cache t) = []" "pending_values (cache t) = []"
    by (auto simp: set_canonical_delete_def open_trie_def TrieCache_new_def)
  obtain x where x: "tree_on H (storage (cache t)) (root t) x" "holds x (content s)"
    using restarted_on_disk(1) [OF t0 rel] by blast
  note hist = restarted_on_disk(2) [OF t0 rel]
  obtain counts s' where p: "prune_offline H keep t = Some (counts, with_storage t s')" "tree_on H s' (root t) x"
      "\<forall>n. load_root s' n = (if keep < trie_version t \<and> n \<le> trie_version t - keep then None else load_root (storage (cache t)) n)"
      "\<forall>n r y. trie_version t - keep < n \<longrightarrow> n \<le> trie_version t \<longrightarrow> load_root (storage (cache t)) n = Some r \<longrightarrow>
        tree_on H (storage (cache t)) r y \<longrightarrow> tree_on H s' r y"
    using prune_offline_keeps [OF assms(1) x(1), of keep] hist by blast
  define t' where "t' = with_storage t s'"
  have root': "root t' = root t" "set_root (root t) t' = t'" and at: "\<And>n. root_at_version t' n = load_root s' n"
    by (simp_all add: t'_def with_storage_def set_root_def root_at_version_def)
  have "trie_get H t' k = Some (Ok (content s k))" for k
    using tree_on_get [OF assms(1) p(2) x(2) pend, of k] root' by (simp add: t'_def)
  moreover have "\<exists>r. root_at_version t' n = Some r \<and> (\<forall>k. trie_get H (set_root r t') k = Some (Ok (m k)))"
    if n: "trie_version t - keep < n" "n \<le> trie_version t" "committed s n = Some m" for n m
  proof -
    obtain r where r: "load_root (storage (cache t)) n = Some r"
      using trie_relD(7) [OF rel, of n] n(3) by (auto simp: history_ok_def root_at_version_def split: option.splits)
    then obtain y where y: "tree_on H (storage (cache t)) r y" "holds y m" using hist n(3) by fastforce
    have "tree_on H s' r y" using p(4) n r y by blast
    moreover have "root_at_version t' n = Some r" using r n p(3) by (simp add: at)
    ultimately show ?thesis
      using tree_on_get [OF assms(1) _ y(2) pend] unfolding t'_def by blast
  qed
  ultimately show ?thesis
    using p(1,3) root'(1) unfolding s_def [symmetric] t'_def [symmetric] at
    by (intro exI [of _ counts] exI [of _ t']) (auto simp: at)
qed

theorem prune_keeps_window_witness:
  "\<exists>t counts t'. run_steps (trie_step example_hasher)
      ([TInsert key_a [1], TCommit 1, TInsert key_b [2], TCommit 2, TInsert key_a [3], TCommit 3] @ [TRestart True])
      (fresh_trie example_hasher True) = Some t \<and>
    prune_offline example_hasher 2 t = Some (counts, t') \<and> root_at_version t' 1 = None \<and>
    trie_get example_hasher t' key_a = Some (Ok (Some [3])) \<and>
    (\<exists>r. root_at_version t' 2 = Some r \<and> trie_get example_hasher (set_root r t') key_a = Some (Ok (Some [1])))"
proof -
  let ?ops = "[TInsert key_a [1], TCommit 1, TInsert key_b [2], TCommit 2, TInsert key_a [3], TCommit 3]"
  let ?s = "run_spec spec_step (?ops @ [TRestart True]) spec_empty"
  have ops: "list_all op_allowed ?ops" "list_all op_allowed (?ops @ [TRestart True])" by simp_all
  obtain t where t: "run_steps (trie_step example_hasher) (?ops @ [TRestart True]) (fresh_trie example_hasher True) = Some t"
    and rel: "trie_rel example_hasher False t ?s"
    using trie_run_rel [OF example_collision_free ops(2), of False True] by blast
  have s: "content ?s key_a = Some [3]" "committed ?s 2 = Some [key_a \<mapsto> [1], key_b \<mapsto> [2]]" "trie_version t = 3"
    using trie_relD(5) [OF rel] by (simp_all add: spec_empty_def)
  obtain counts t' where p: "prune_offline example_hasher 2 t = Some (counts, t')"
    "\<forall>k. trie_get example_hasher t' k = Some (Ok (content ?s k))"
    "\<forall>n m. trie_version t - 2 < n \<and> n \<le> trie_version t \<and> committed ?s n = Some m \<longrightarrow>
      (\<exists>r. root_at_version t' n = Some r \<and> (\<forall>k. trie_get example_hasher (set_root r t') k = Some (Ok (m k))))"
    "\<forall>n. 2 < trie_version t \<and> n \<le> trie_version t - 2 \<longrightarrow> root_at_version t' n = None"
    using prune_keeps_window [OF example_collision_free ops(1) t, of 2] by blast
  have "2 \<le> trie_version t" using s(3) by simp
  then obtain r where r: "root_at_version t' 2 = Some r"
      "\<forall>k. trie_get example_hasher (set_root r t') k = Some (Ok ([key_a \<mapsto> [1], key_b \<mapsto> [2]] k))"
    using p(3) [rule_format, of 2 "[key_a \<mapsto> [1], key_b \<mapsto> [2]]"] s(2,3) by auto
  have "root_at_version t' 1 = None" using p(4) [rule_format, of 1] s(3) by simp
  moreover have "trie_get example_hasher (set_root r t') key_a = Some (Ok (Some [1]))" using r(2) by simp
  ultimately show ?thesis using t p(1,2) s(1) r(1) by metis
qed

section \<open>Integrity\<close>

lemma walk_verify_stored:
  assumes cf: "collision_free H"
  shows "wf_tree d t \<Longrightarrow> stored H (disk_view s) d t \<Longrightarrow>
    walk_verify H s (thash H d t) d = Some (Ok ()) \<and> walk_verify_strict H s (thash H d t) d = Some (Ok ())"
proof (induction t arbitrary: d)
  case E
  then show ?case by (simp add: walk_verify.simps walk_verify_strict.simps min_def)
next
  case (L k v)
  then have "hash_leaf H k v \<noteq> empty_hash H (min d 256)" using thash_nonempty [OF cf L.prems(1)] by (simp add: min_def)
  with L show ?case
    by (subst walk_verify.simps, subst walk_verify_strict.simps) simp
next
  case (N l r)
  then have "thash H d (N l r) \<noteq> empty_hash H (min d 256)" using thash_nonempty [OF cf N.prems(1)] by (simp add: min_def)
  with N show ?case
    by (subst walk_verify.simps, subst walk_verify_strict.simps) simp
qed

text \<open>The integrity checks pass whenever the tree of the current root is on disk.\<close>

lemma verify_integrity_ok:
  assumes "collision_free H" "tree_on H (storage (cache t)) (root t) x"
  shows "verify_integrity H t = Some (Ok ())" "verify_integrity_strict H t = Some (Ok ())"
  using walk_verify_stored [OF assms(1), of 0 x "storage (cache t)"] assms(2)
  by (simp_all add: verify_integrity_def verify_integrity_strict_def tree_on_def)

text \<open>
  The strict check compares a leaf's declared hash with its content but not with the hash under which
  the leaf was loaded: a leaf filed under any other hash passes.
\<close>

lemma strict_check_misses_misfiled_leaf:
  assumes "load_node (storage (cache t)) (root t) = Some (Leaf k (hash_leaf H k v))"
    "storage_load_value (storage (cache t)) (hash_leaf H k v) = Some v"
  shows "verify_integrity_strict H t = Some (Ok ())"
  using assms by (simp add: verify_integrity_strict_def walk_verify_strict.simps)

section \<open>Generational collection\<close>

text \<open>A reachable entry survives, and an entry goes only when an earlier cycle had marked it.\<close>

lemma generational_keeps_live:
  assumes "gc_table_generational disc live version table tombs = (n, table', tombs')"
  shows "h \<in> live \<Longrightarrow> hget table' h = hget table h"
    and "hget table' h \<noteq> hget table h \<Longrightarrow> \<exists>tv. ((disc, h), tv) \<in> set tombs \<and> tv < version \<and> h \<notin> live"
proof -
  define reap where "reap = map (\<lambda>((d, h), tv). h) (filter (\<lambda>((d, h), tv). h \<notin> live \<and> tv < version) (filter (\<lambda>((d, h), tv). d = disc) tombs))"
  have t: "table' = fold (\<lambda>h t. hdel t h) reap table"
    using assms by (simp add: gc_table_generational_def reap_def Let_def)
  have reap: "x \<in> set reap \<Longrightarrow> \<exists>tv. ((disc, x), tv) \<in> set tombs \<and> tv < version \<and> x \<notin> live" for x
    by (auto simp: reap_def)
  show "h \<in> live \<Longrightarrow> hget table' h = hget table h" using reap [of h] by (auto simp: t fold_hdel)
  show "hget table' h \<noteq> hget table h \<Longrightarrow> \<exists>tv. ((disc, h), tv) \<in> set tombs \<and> tv < version \<and> h \<notin> live"
    using reap [of h] by (auto simp: t fold_hdel split: if_splits)
qed

end
