(* ===== verification/Trie_Cache.thy ===== *)
theory Trie_Cache
  imports Trie_Thms
begin

text \<open>
  The LRU in front of the trie's buffers: \<open>sentrix-trie/src/cache.rs\<close>. The LRU comes from a library
  and is a parameter: a lookup returns the cached node and may reorder, an insertion may evict other
  entries. Whatever it evicts, reads through it return what the buffers and the storage hold.
\<close>

record 'c lru_ops =
  lru_new :: "usize \<Rightarrow> 'c"
  lru_get :: "'c \<Rightarrow> node_hash \<Rightarrow> trie_node option \<times> 'c"
  lru_put :: "'c \<Rightarrow> node_hash \<Rightarrow> trie_node \<Rightarrow> 'c"
  lru_pop :: "'c \<Rightarrow> node_hash \<Rightarrow> 'c"

record 'c lru_cache =
  lru :: 'c
  buffers :: trie_cache
  capacity :: usize

text \<open>A capacity of zero is clamped to one.\<close>

definition lru_cache_new :: "'c lru_ops \<Rightarrow> trie_storage \<Rightarrow> usize \<Rightarrow> 'c lru_cache" where
  "lru_cache_new lib s cap = \<lparr>lru = lru_new lib (max cap 1), buffers = TrieCache_new s, capacity = cap\<rparr>"

definition lru_get_node :: "'c lru_ops \<Rightarrow> 'c lru_cache \<Rightarrow> node_hash \<Rightarrow> trie_node option \<times> 'c lru_cache" where
  "lru_get_node lib c hash =
    (case lru_get lib (lru c) hash of
       (Some node, l) \<Rightarrow> (Some node, c\<lparr>lru := l\<rparr>)
     | (None, l) \<Rightarrow>
         (case hget (pending_nodes (buffers c)) hash of
            Some node \<Rightarrow> (Some node, c\<lparr>lru := lru_put lib l hash node\<rparr>)
          | None \<Rightarrow>
              (case load_node (storage (buffers c)) hash of
                 Some node \<Rightarrow> (Some node, c\<lparr>lru := lru_put lib l hash node\<rparr>)
               | None \<Rightarrow> (None, c\<lparr>lru := l\<rparr>))))"

definition lru_put_node :: "'c lru_ops \<Rightarrow> 'c lru_cache \<Rightarrow> node_hash \<Rightarrow> trie_node \<Rightarrow> 'c lru_cache" where
  "lru_put_node lib c hash node = c\<lparr>buffers := put_node (buffers c) hash node, lru := lru_put lib (lru c) hash node\<rparr>"

definition lru_delete_node :: "'c lru_ops \<Rightarrow> 'c lru_cache \<Rightarrow> node_hash \<Rightarrow> 'c lru_cache" where
  "lru_delete_node lib c hash = c\<lparr>lru := lru_pop lib (lru c) hash, buffers := cache_delete_node (buffers c) hash\<rparr>"

section \<open>Coherence\<close>

text \<open>What the library documents, with \<open>C\<close> the entries that are cached.\<close>

definition lru_sound :: "'c lru_ops \<Rightarrow> ('c \<Rightarrow> node_hash \<rightharpoonup> trie_node) \<Rightarrow> bool" where
  "lru_sound lib C \<longleftrightarrow> (\<forall>n. C (lru_new lib n) = Map.empty) \<and>
    (\<forall>l h. fst (lru_get lib l h) = C l h \<and> C (snd (lru_get lib l h)) = C l) \<and>
    (\<forall>l h n. C (lru_put lib l h n) \<subseteq>\<^sub>m (C l)(h \<mapsto> n)) \<and> (\<forall>l h. C (lru_pop lib l h) \<subseteq>\<^sub>m (C l)(h := None))"

definition coherent :: "('c \<Rightarrow> node_hash \<rightharpoonup> trie_node) \<Rightarrow> 'c lru_cache \<Rightarrow> bool" where
  "coherent C c \<longleftrightarrow> C (lru c) \<subseteq>\<^sub>m get_node (buffers c) \<and> wf_map (pending_nodes (buffers c))"

lemma get_node_delete: "get_node (cache_delete_node c h) h' = (if h' = h then None else get_node c h')"
  by (simp add: get_node_def cache_delete_node_def storage_delete_node_def load_node_def hget_hdel split: option.split)

lemma lru_get_node_correct:
  assumes lib: "lru_sound lib C" and c: "coherent C c"
  shows "fst (lru_get_node lib c h) = get_node (buffers c) h \<and> coherent C (snd (lru_get_node lib c h)) \<and>
    buffers (snd (lru_get_node lib c h)) = buffers c"
proof -
  obtain res l where g: "lru_get lib (lru c) h = (res, l)" by force
  have res: "res = C (lru c) h" and l: "C l = C (lru c)" using lib g unfolding lru_sound_def by (metis fst_conv snd_conv)+
  have sub: "C (lru c) \<subseteq>\<^sub>m get_node (buffers c)" and wf: "wf_map (pending_nodes (buffers c))"
    using c by (simp_all add: coherent_def)
  have put: "C (lru_put lib l h n) \<subseteq>\<^sub>m get_node (buffers c)" if "get_node (buffers c) h = Some n" for n
  proof (rule map_le_trans)
    show "C (lru_put lib l h n) \<subseteq>\<^sub>m (C l)(h \<mapsto> n)" using lib by (simp add: lru_sound_def)
    show "(C l)(h \<mapsto> n) \<subseteq>\<^sub>m get_node (buffers c)" using sub that by (auto simp: l map_le_def)
  qed
  show ?thesis
  proof (cases res)
    case (Some n)
    then have "get_node (buffers c) h = Some n" using sub res by (metis domI map_le_def)
    with Some g l sub wf show ?thesis by (simp add: lru_get_node_def coherent_def)
  next
    case None
    show ?thesis
    proof (cases "get_node (buffers c) h")
      case None
      with \<open>res = None\<close> g l sub wf show ?thesis
        by (auto simp: lru_get_node_def coherent_def get_node_def split: option.splits)
    next
      case (Some n)
      then have "lru_get_node lib c h = (Some n, c\<lparr>lru := lru_put lib l h n\<rparr>)"
        using \<open>res = None\<close> g by (auto simp: lru_get_node_def get_node_def split: option.splits)
      with Some put wf show ?thesis by (simp add: coherent_def)
    qed
  qed
qed

lemma lru_put_node_correct:
  assumes lib: "lru_sound lib C" and c: "coherent C c"
  shows "coherent C (lru_put_node lib c h n) \<and> buffers (lru_put_node lib c h n) = put_node (buffers c) h n"
proof -
  have "C (lru_put lib (lru c) h n) \<subseteq>\<^sub>m (C (lru c))(h \<mapsto> n)" using lib by (simp add: lru_sound_def)
  moreover have "(C (lru c))(h \<mapsto> n) \<subseteq>\<^sub>m get_node (put_node (buffers c) h n)"
    using c by (auto simp: coherent_def map_le_def get_node_put)
  ultimately show ?thesis using c map_le_trans by (auto simp: lru_put_node_def coherent_def)
qed

lemma lru_delete_node_correct:
  assumes lib: "lru_sound lib C" and c: "coherent C c"
  shows "coherent C (lru_delete_node lib c h) \<and> buffers (lru_delete_node lib c h) = cache_delete_node (buffers c) h"
proof -
  have "C (lru_pop lib (lru c) h) \<subseteq>\<^sub>m (C (lru c))(h := None)" using lib by (simp add: lru_sound_def)
  moreover have "(C (lru c))(h := None) \<subseteq>\<^sub>m get_node (cache_delete_node (buffers c) h)"
    using c by (auto simp: coherent_def map_le_def get_node_delete)
  ultimately show ?thesis using c map_le_trans by (auto simp: lru_delete_node_def coherent_def cache_delete_node_def)
qed

section \<open>Sequences of cache operations\<close>

datatype cache_op = CGet node_hash | CPut node_hash trie_node | CDelete node_hash

fun lru_step :: "'c lru_ops \<Rightarrow> cache_op \<Rightarrow> 'c lru_cache \<Rightarrow> trie_node option \<times> 'c lru_cache" where
  "lru_step lib (CGet h) c = lru_get_node lib c h"
| "lru_step lib (CPut h n) c = (None, lru_put_node lib c h n)"
| "lru_step lib (CDelete h) c = (None, lru_delete_node lib c h)"

fun buffer_step :: "cache_op \<Rightarrow> trie_cache \<Rightarrow> trie_node option \<times> trie_cache" where
  "buffer_step (CGet h) c = (get_node c h, c)"
| "buffer_step (CPut h n) c = (None, put_node c h n)"
| "buffer_step (CDelete h) c = (None, cache_delete_node c h)"

fun answers :: "('o \<Rightarrow> 's \<Rightarrow> 'r \<times> 's) \<Rightarrow> 'o list \<Rightarrow> 's \<Rightarrow> 'r list" where
  "answers step [] s = []"
| "answers step (x # xs) s = (case step x s of (r, s') \<Rightarrow> r # answers step xs s')"

lemma lru_step_correct:
  assumes "lru_sound lib C" "coherent C c"
  shows "fst (lru_step lib x c) = fst (buffer_step x (buffers c)) \<and> coherent C (snd (lru_step lib x c)) \<and>
    buffers (snd (lru_step lib x c)) = snd (buffer_step x (buffers c))"
  using lru_get_node_correct [OF assms] lru_put_node_correct [OF assms] lru_delete_node_correct [OF assms]
  by (cases x) simp_all

text \<open>The LRU is transparent: every sequence of reads, writes and deletions answers as without it.\<close>

lemma lru_transparent:
  assumes "lru_sound lib C"
  shows "coherent C c \<Longrightarrow> answers (lru_step lib) xs c = answers buffer_step xs (buffers c)"
proof (induction xs arbitrary: c)
  case (Cons x xs)
  from lru_step_correct [OF assms Cons.prems, of x] Cons.IH [of "snd (lru_step lib x c)"] show ?case
    by (simp add: case_prod_beta)
qed simp

lemma lru_new_coherent: "lru_sound lib C \<Longrightarrow> coherent C (lru_cache_new lib s cap)"
  by (simp add: lru_sound_def coherent_def lru_cache_new_def TrieCache_new_def)

end
