(* ===== verification/Trie_Keys.thy ===== *)
theory Trie_Keys
  imports Trie_Store Encoding
begin

text \<open>
  Trie keys and values of the chain's state: \<open>sentrix-trie/src/address.rs\<close>. Addresses are ASCII;
  hexadecimal decoding is a parameter. \<open>trim_start_matches\<close> removes every leading \<open>0x\<close>, not one.
\<close>

section \<open>Text and integers\<close>

definition lower_char :: "char \<Rightarrow> char" where
  "lower_char c = (let n = of_char c :: nat in if 65 \<le> n \<and> n \<le> 90 then char_of (n + 32) else c)"

definition to_lowercase :: "string \<Rightarrow> string" where
  "to_lowercase s = map lower_char s"

fun trim_0x :: "string \<Rightarrow> string" where
  "trim_0x (a # b # s) = (if a = CHR ''0'' \<and> b = CHR ''x'' then trim_0x s else a # b # s)"
| "trim_0x s = s"

definition from_be_bytes :: "u8 list \<Rightarrow> nat" where
  "from_be_bytes bs = fold (\<lambda>b n. 256 * n + b) bs 0"

lemma from_be_le_bytes: "n < 256 ^ k \<Longrightarrow> fold (\<lambda>b n. 256 * n + b) (rev (le_bytes k n)) 0 = n"
proof (induction k arbitrary: n)
  case (Suc k)
  then have "n div 256 < 256 ^ k" by (simp add: less_mult_imp_div_less mult.commute)
  with Suc.IH [of "n div 256"] show ?case by (simp add: le_bytes_Suc)
qed simp

lemma from_be_bytes_be [simp]: "fits_u64 n \<Longrightarrow> from_be_bytes (be_bytes 8 n) = n"
  by (simp add: from_be_bytes_def be_bytes_def from_be_le_bytes fits_u64_def U64_MAX_def)

section \<open>Keys\<close>

definition address_bytes :: "(string \<Rightarrow> u8 list option) \<Rightarrow> string \<Rightarrow> u8 list" where
  "address_bytes hex_decode address =
    (let addr = to_lowercase (trim_0x address)
     in case hex_decode addr of Some bytes \<Rightarrow> bytes | None \<Rightarrow> str_bytes addr)"

definition address_to_key :: "hasher \<Rightarrow> (string \<Rightarrow> u8 list option) \<Rightarrow> string \<Rightarrow> node_hash" where
  "address_to_key H hex_decode address = sha256 H (address_bytes hex_decode address)"

definition validator_pending_rewards_key :: "hasher \<Rightarrow> (string \<Rightarrow> u8 list option) \<Rightarrow> string \<Rightarrow> node_hash" where
  "validator_pending_rewards_key H hex_decode address =
    sha256 H (str_bytes ''sentrix/v1/pending_rewards/'' @ address_bytes hex_decode address)"

definition validator_liveness_key :: "hasher \<Rightarrow> (string \<Rightarrow> u8 list option) \<Rightarrow> string \<Rightarrow> node_hash" where
  "validator_liveness_key H hex_decode address =
    sha256 H (str_bytes ''sentrix/v1/liveness/'' @ address_bytes hex_decode address)"

definition total_minted_key :: "hasher \<Rightarrow> node_hash" where
  "total_minted_key H = sha256 H (str_bytes ''sentrix/v1/total_minted'')"

definition native_src20_registry_key :: "hasher \<Rightarrow> node_hash" where
  "native_src20_registry_key H = sha256 H (str_bytes ''sentrix/v1/native_src20_registry'')"

definition native_nft_registry_key :: "hasher \<Rightarrow> node_hash" where
  "native_nft_registry_key H = sha256 H (str_bytes ''sentrix/v1/native_nft_registry'')"

definition epoch_state_key :: "hasher \<Rightarrow> node_hash" where
  "epoch_state_key H = sha256 H (str_bytes ''sentrix/v1/epoch_state'')"

section \<open>Values\<close>

definition account_value_bytes :: "u64 \<Rightarrow> u64 \<Rightarrow> u8 list" where
  "account_value_bytes balance nonce = be_bytes 8 balance @ be_bytes 8 nonce"

definition account_value_decode :: "u8 list \<Rightarrow> (u64 \<times> u64) option" where
  "account_value_decode bytes =
    (if length bytes < 16 then None
     else Some (from_be_bytes (take 8 bytes), from_be_bytes (take 8 (drop 8 bytes))))"

definition pending_rewards_value_bytes :: "u64 \<Rightarrow> u8 list" where
  "pending_rewards_value_bytes rewards = be_bytes 8 rewards"

definition pending_rewards_value_decode :: "u8 list \<Rightarrow> u64 option" where
  "pending_rewards_value_decode bytes = (if length bytes < 8 then None else Some (from_be_bytes (take 8 bytes)))"

definition liveness_value_bytes :: "u64 \<Rightarrow> u64 \<Rightarrow> u64 \<Rightarrow> bool \<Rightarrow> u8 list" where
  "liveness_value_bytes signed_count missed_count jail_until is_jailed =
    be_bytes 8 signed_count @ be_bytes 8 missed_count @ be_bytes 8 jail_until @ [of_bool is_jailed]"

definition liveness_value_decode :: "u8 list \<Rightarrow> (u64 \<times> u64 \<times> u64 \<times> bool) option" where
  "liveness_value_decode bytes =
    (if length bytes < 25 then None
     else Some (from_be_bytes (take 8 bytes), from_be_bytes (take 8 (drop 8 bytes)),
                from_be_bytes (take 8 (drop 16 bytes)), bytes ! 24 \<noteq> 0))"

definition total_minted_value_bytes :: "u64 \<Rightarrow> u8 list" where
  "total_minted_value_bytes tot = be_bytes 8 tot"

definition total_minted_value_decode :: "u8 list \<Rightarrow> u64 option" where
  "total_minted_value_decode bytes = (if length bytes < 8 then None else Some (from_be_bytes (take 8 bytes)))"

definition epoch_state_value_bytes ::
  "hasher \<Rightarrow> u64 \<Rightarrow> u64 \<Rightarrow> u64 \<Rightarrow> u64 \<Rightarrow> u64 \<Rightarrow> u64 \<Rightarrow> string list \<Rightarrow> u8 list" where
  "epoch_state_value_bytes H epoch_number start_height end_height total_staked total_rewards total_blocks_produced validator_set =
    be_bytes 8 epoch_number @ be_bytes 8 start_height @ be_bytes 8 end_height @ be_bytes 8 total_staked @
    be_bytes 8 total_rewards @ be_bytes 8 total_blocks_produced @
    sha256 H (concat (map (\<lambda>addr. str_bytes addr @ [10]) (sort (map (\<lambda>a. to_lowercase (trim_0x a)) validator_set))))"

definition epoch_state_value_decode :: "u8 list \<Rightarrow> (u64 \<times> u64 \<times> u64 \<times> u64 \<times> u64 \<times> u64 \<times> node_hash) option" where
  "epoch_state_value_decode bytes =
    (if length bytes < 80 then None
     else Some (from_be_bytes (take 8 bytes), from_be_bytes (take 8 (drop 8 bytes)), from_be_bytes (take 8 (drop 16 bytes)),
                from_be_bytes (take 8 (drop 24 bytes)), from_be_bytes (take 8 (drop 32 bytes)),
                from_be_bytes (take 8 (drop 40 bytes)), take 32 (drop 48 bytes)))"

section \<open>Round trips\<close>

lemma take_be_bytes [simp]: "take 8 (be_bytes 8 n @ xs) = be_bytes 8 n" "drop 8 (be_bytes 8 n @ xs) = xs"
  by simp_all

lemma drop_be_bytes [simp]:
  "drop (8 + m) (be_bytes 8 n @ xs) = drop m xs" "16 \<le> k \<Longrightarrow> drop k (be_bytes 8 n @ xs) = drop (k - 8) xs"
  by (simp_all add: drop_append)

lemma account_value_roundtrip:
  "fits_u64 b \<Longrightarrow> fits_u64 n \<Longrightarrow> account_value_decode (account_value_bytes b n) = Some (b, n)"
  by (simp add: account_value_decode_def account_value_bytes_def)

lemma counter_roundtrips:
  "fits_u64 n \<Longrightarrow> pending_rewards_value_decode (pending_rewards_value_bytes n) = Some n"
  "fits_u64 n \<Longrightarrow> total_minted_value_decode (total_minted_value_bytes n) = Some n"
  by (simp_all add: pending_rewards_value_decode_def pending_rewards_value_bytes_def total_minted_value_decode_def
      total_minted_value_bytes_def)

lemma liveness_value_roundtrip:
  "fits_u64 a \<Longrightarrow> fits_u64 b \<Longrightarrow> fits_u64 c \<Longrightarrow> liveness_value_decode (liveness_value_bytes a b c j) = Some (a, b, c, j)"
  by (simp add: liveness_value_decode_def liveness_value_bytes_def nth_append)

lemma epoch_state_value_roundtrip:
  assumes "list_all fits_u64 [a, b, c, d, e, f]" "\<And>bs. length (sha256 H bs) = 32"
  shows "\<exists>h. epoch_state_value_decode (epoch_state_value_bytes H a b c d e f vs) = Some (a, b, c, d, e, f, h)"
  using assms by (simp add: epoch_state_value_decode_def epoch_state_value_bytes_def)

text \<open>The digest of the validator set does not depend on the order or on the spelling of its addresses.\<close>

lemma epoch_state_value_order:
  "mset (map (\<lambda>x. to_lowercase (trim_0x x)) vs) = mset (map (\<lambda>x. to_lowercase (trim_0x x)) ws) \<Longrightarrow>
    epoch_state_value_bytes H a b c d e f vs = epoch_state_value_bytes H a b c d e f ws"
proof -
  let ?n = "\<lambda>xs. map (\<lambda>x. to_lowercase (trim_0x x)) xs"
  assume "mset (?n vs) = mset (?n ws)"
  then have "sort (?n vs) = sort (?n ws)" by (intro properties_for_sort) simp_all
  then show ?thesis by (simp only: epoch_state_value_bytes_def)
qed

lemma lower_char_idem [simp]: "lower_char (lower_char c) = lower_char c"
proof (cases "65 \<le> (of_char c :: nat) \<and> (of_char c :: nat) \<le> 90")
  case True
  then have "lower_char c = char_of ((of_char c :: nat) + 32)" by (simp add: lower_char_def)
  moreover have "of_char (char_of ((of_char c :: nat) + 32)) = (of_char c :: nat) + 32"
    using True by (simp add: of_char_of)
  ultimately show ?thesis using True by (simp add: lower_char_def)
qed (auto simp: lower_char_def)

end
