(* ===== verification/Merkle.thy ===== *)
theory Merkle
  imports Rust_Prelude
begin

text \<open>
  The transaction Merkle tree, \<open>sentrix-primitives/src/merkle.rs\<close>. SHA-256 and the hexadecimal
  encoding come from the \<open>sha2\<close> and \<open>hex\<close> crates and are parameters; what is assumed of them is
  stated where it is used, and collision-freeness only for the finitely many strings that the two
  computations at hand hash. The lemmas show that a root determines the list of its leaves when the
  leaves are distinct and none of them is itself the hash of an inner node, and that both conditions
  are needed.
\<close>

record digests =
  sha_digest :: "u8 list \<Rightarrow> u8 list"
  hex_string :: "u8 list \<Rightarrow> string"

definition sha256_hex :: "'z digests_scheme \<Rightarrow> u8 list \<Rightarrow> string" where
  "sha256_hex D data = hex_string D (sha_digest D data)"

definition sha256d_hex :: "'z digests_scheme \<Rightarrow> u8 list \<Rightarrow> string" where
  "sha256d_hex D data =
    (let first = sha_digest D data; second = sha_digest D first in hex_string D second)"

text \<open>
  One round of the loop: the last element is pushed again when the length is odd, so that
  \<open>chunks(2)\<close> yields pairs only and the indexing \<open>pair[1]\<close> cannot panic.
\<close>

definition pad_level :: "string list \<Rightarrow> string list" where
  "pad_level level =
    (if \<not> is_multiple_of (length level) 2 then level @ [last level] else level)"

fun combined_pairs :: "string list \<Rightarrow> string list" where
  "combined_pairs (a # b # rest) = (a @ b) # combined_pairs rest"
| "combined_pairs [] = []"
| "combined_pairs [a] = []"

definition next_level :: "'z digests_scheme \<Rightarrow> string list \<Rightarrow> string list" where
  "next_level D level = map (\<lambda>combined. sha256_hex D (str_bytes combined)) (combined_pairs level)"

lemma pad_level_simps [simp]:
  "pad_level [] = []"
  "pad_level [a] = [a, a]"
  "pad_level (a # b # rest) = a # b # pad_level rest"
  by (auto simp: pad_level_def is_multiple_of_def)

lemma length_pairs: "length (combined_pairs (pad_level level)) = (length level + 1) div 2"
  by (induction level rule: combined_pairs.induct) simp_all

function merkle_loop :: "'z digests_scheme \<Rightarrow> string list \<Rightarrow> string" where
  "merkle_loop D level =
    (if 1 < length level then merkle_loop D (next_level D (pad_level level))
     else case level of [] \<Rightarrow> replicate 64 (CHR ''0'') | x # _ \<Rightarrow> x)"
  by auto
termination
  by (relation "measure (\<lambda>(D, level). length level)") (auto simp: next_level_def length_pairs)

declare merkle_loop.simps [simp del]

definition merkle_root :: "'z digests_scheme \<Rightarrow> string list \<Rightarrow> string" where
  "merkle_root D txids =
    (if txids = [] then replicate 64 (CHR ''0'')
     else if length txids = 1 then sha256_hex D (str_bytes (txids ! 0))
     else merkle_loop D txids)"

section \<open>Hashed strings\<close>

text \<open>The strings that the loop hashes, and all that a root computation does.\<close>

abbreviation hash_str :: "'z digests_scheme \<Rightarrow> string \<Rightarrow> string" where
  "hash_str D s \<equiv> sha256_hex D (str_bytes s)"

function loop_inputs :: "'z digests_scheme \<Rightarrow> string list \<Rightarrow> string list" where
  "loop_inputs D level =
    (if 1 < length level
     then combined_pairs (pad_level level) @ loop_inputs D (next_level D (pad_level level))
     else [])"
  by auto
termination
  by (relation "measure (\<lambda>(D, level). length level)") (auto simp: next_level_def length_pairs)

declare loop_inputs.simps [simp del]

definition merkle_inputs :: "'z digests_scheme \<Rightarrow> string list \<Rightarrow> string list" where
  "merkle_inputs D txids = (if length txids = 1 then txids else loop_inputs D txids)"

definition no_collision :: "'z digests_scheme \<Rightarrow> string set \<Rightarrow> bool" where
  "no_collision D A \<longleftrightarrow> inj_on (hash_str D) A"

definition hex64 :: "'z digests_scheme \<Rightarrow> bool" where
  "hex64 D \<longleftrightarrow> (\<forall>b. length (sha256_hex D b) = 64)"

abbreviation all64 :: "string list \<Rightarrow> bool" where
  "all64 level \<equiv> list_all (\<lambda>s. length s = 64) level"

lemma no_collisionD: "no_collision D A \<Longrightarrow> hash_str D s = hash_str D t \<Longrightarrow> s \<in> A \<Longrightarrow> t \<in> A \<Longrightarrow> s = t"
  unfolding no_collision_def by (rule inj_onD)

lemma no_collision_mono: "no_collision D A \<Longrightarrow> B \<subseteq> A \<Longrightarrow> no_collision D B"
  unfolding no_collision_def by (rule inj_on_subset)

lemma set_pad_level [simp]: "set (pad_level level) = set level"
  by (cases "level = []") (auto simp: pad_level_def is_multiple_of_def)

section \<open>One round\<close>

lemma append64: "length a = 64 \<Longrightarrow> length c = 64 \<Longrightarrow> a @ b = c @ d \<longleftrightarrow> a = c \<and> b = d"
  by simp

lemma pairs_inj:
  "all64 xs \<Longrightarrow> all64 ys \<Longrightarrow> combined_pairs (pad_level xs) = combined_pairs (pad_level ys) \<Longrightarrow>
    pad_level xs = pad_level ys"
proof (induction xs arbitrary: ys rule: combined_pairs.induct)
  case (1 a b rest)
  note prems = "1.prems" and IH = "1.IH"
  show ?case
  proof (cases ys rule: combined_pairs.cases)
    case (1 c d rest')
    with prems IH [of rest'] show ?thesis by (simp add: append64)
  next
    case (3 c)
    have "rest = [] \<or> combined_pairs (pad_level rest) \<noteq> []"
      by (cases rest rule: combined_pairs.cases) simp_all
    with 3 prems show ?thesis by (auto simp: append64)
  next
    case 2
    with prems show ?thesis by simp
  qed
next
  case 2
  then show ?case by (cases ys rule: combined_pairs.cases) simp_all
next
  case (3 v)
  then show ?case
  proof (cases ys rule: combined_pairs.cases)
    case (1 c d rest')
    have "rest' = [] \<or> combined_pairs (pad_level rest') \<noteq> []"
      by (cases rest' rule: combined_pairs.cases) simp_all
    with 1 3 show ?thesis by (auto simp: append64)
  qed (simp_all add: append64)
qed

lemma pad_level_inj: "distinct xs \<Longrightarrow> distinct ys \<Longrightarrow> pad_level xs = pad_level ys \<Longrightarrow> xs = ys"
proof (induction xs arbitrary: ys rule: combined_pairs.induct)
  case (1 a b rest)
  then show ?case by (cases ys rule: combined_pairs.cases) auto
next
  case 2
  then show ?case by (cases ys rule: combined_pairs.cases) auto
next
  case (3 v)
  then show ?case by (cases ys rule: combined_pairs.cases) auto
qed

lemma set_pairs:
  "p \<in> set (combined_pairs level) \<Longrightarrow> \<exists>a b. p = a @ b \<and> a \<in> set level \<and> b \<in> set level"
  by (induction level rule: combined_pairs.induct) auto

lemma distinct_pairs:
  "distinct level \<Longrightarrow> all64 level \<Longrightarrow> distinct (combined_pairs (pad_level level))"
proof (induction level rule: combined_pairs.induct)
  case (1 a b rest)
  have "a @ b \<notin> set (combined_pairs (pad_level rest))"
  proof
    assume "a @ b \<in> set (combined_pairs (pad_level rest))"
    then obtain c d where "a @ b = c @ d" "c \<in> set rest"
      using set_pairs [of "a @ b" "pad_level rest"] by auto
    moreover from this 1 have "length a = length c" by (simp add: list_all_iff)
    ultimately show False using 1 by auto
  qed
  with 1 show ?case by simp
qed simp_all

lemma all64_next [simp]: "hex64 D \<Longrightarrow> all64 (next_level D level)"
  by (simp add: next_level_def hex64_def list_all_iff)

lemma no_collision_inj_on: "no_collision D A \<Longrightarrow> B \<subseteq> A \<Longrightarrow> inj_on (hash_str D) B"
  unfolding no_collision_def by (rule inj_on_subset)

lemma next_level_step:
  assumes "no_collision D A" "set (combined_pairs (pad_level xs)) \<subseteq> A" "set (combined_pairs (pad_level ys)) \<subseteq> A"
    and "all64 xs" "all64 ys" "distinct xs" "distinct ys"
    and eq: "next_level D (pad_level xs) = next_level D (pad_level ys)"
  shows "xs = ys"
proof -
  have "inj_on (hash_str D) (set (combined_pairs (pad_level xs)) \<union> set (combined_pairs (pad_level ys)))"
    using assms(2,3) by (intro no_collision_inj_on [OF assms(1)]) simp
  with eq have "combined_pairs (pad_level xs) = combined_pairs (pad_level ys)"
    unfolding next_level_def by (rule map_inj_on)
  with assms(4,5) have "pad_level xs = pad_level ys" by (rule pairs_inj)
  with assms(6,7) show ?thesis by (rule pad_level_inj)
qed

lemma distinct_next:
  assumes "no_collision D A" "set (combined_pairs (pad_level xs)) \<subseteq> A" "all64 xs" "distinct xs"
  shows "distinct (next_level D (pad_level xs))"
  unfolding next_level_def distinct_map
  using distinct_pairs [OF assms(4,3)] no_collision_inj_on [OF assms(1,2)] by simp

section \<open>Roots determine their leaves\<close>

lemma loop_inputs_long:
  "1 < length xs \<Longrightarrow>
    loop_inputs D xs = combined_pairs (pad_level xs) @ loop_inputs D (next_level D (pad_level xs))"
  by (subst loop_inputs.simps) simp

lemma loop_inputs_sub:
  assumes "1 < length xs"
  shows "set (combined_pairs (pad_level xs)) \<subseteq> set (loop_inputs D xs)"
    "set (loop_inputs D (next_level D (pad_level xs))) \<subseteq> set (loop_inputs D xs)"
    "set (next_level D (pad_level xs)) \<subseteq> hash_str D ` set (loop_inputs D xs)"
  using assms by (auto simp: loop_inputs_long next_level_def)

lemma merkle_loop_long: "1 < length xs \<Longrightarrow> merkle_loop D xs = merkle_loop D (next_level D (pad_level xs))"
  by (subst merkle_loop.simps) simp

lemma next_level_not_Nil: "xs \<noteq> [] \<Longrightarrow> next_level D (pad_level xs) \<noteq> []"
  by (cases xs rule: combined_pairs.cases) (simp_all add: next_level_def)

lemma merkle_loop_single: "length xs = 1 \<Longrightarrow> merkle_loop D xs = xs ! 0"
  by (subst merkle_loop.simps) (cases xs; simp)

text \<open>The root of two or more leaves is the hash of a string of 128 characters.\<close>

lemma merkle_loop_input:
  "1 < length xs \<Longrightarrow> \<exists>p\<in>set (loop_inputs D xs). merkle_loop D xs = hash_str D p"
proof (induction D xs rule: merkle_loop.induct)
  case (1 D xs)
  let ?n = "next_level D (pad_level xs)"
  show ?case
  proof (cases "1 < length ?n")
    case True
    with 1 show ?thesis by (auto simp: loop_inputs_long merkle_loop_long)
  next
    case False
    with next_level_not_Nil [of xs D] "1.prems" have one: "length ?n = 1"
      by (cases xs; cases ?n) auto
    then obtain p where p: "combined_pairs (pad_level xs) = [p]"
      unfolding next_level_def by (auto simp: length_Suc_conv)
    then have "merkle_loop D xs = hash_str D p"
      using one "1.prems" by (simp add: merkle_loop_long merkle_loop_single next_level_def)
    with p "1.prems" show ?thesis by (auto simp: loop_inputs_long)
  qed
qed

lemma loop_inputs_split:
  "p \<in> set (loop_inputs D xs) \<Longrightarrow> \<exists>a b. p = a @ b \<and>
    (a \<in> set xs \<and> b \<in> set xs \<or> a \<in> hash_str D ` set (loop_inputs D xs) \<and> b \<in> hash_str D ` set (loop_inputs D xs))"
proof (induction D xs rule: loop_inputs.induct)
  case (1 D xs)
  note IH = "1.IH"
  let ?n = "next_level D (pad_level xs)"
  have long: "1 < length xs" using "1.prems" by (subst (asm) loop_inputs.simps) (simp split: if_splits)
  from "1.prems" consider "p \<in> set (combined_pairs (pad_level xs))" | "p \<in> set (loop_inputs D ?n)"
    using long by (auto simp: loop_inputs_long)
  then show ?case
  proof cases
    case 1
    then show ?thesis using set_pairs [of p "pad_level xs"] by auto
  next
    case 2
    have "set ?n \<subseteq> hash_str D ` set (loop_inputs D xs)"
      using long by (auto simp: loop_inputs_long next_level_def)
    moreover have "set (loop_inputs D ?n) \<subseteq> set (loop_inputs D xs)"
      using long by (auto simp: loop_inputs_long)
    moreover obtain a b where "p = a @ b" "a \<in> set ?n \<and> b \<in> set ?n \<or>
        a \<in> hash_str D ` set (loop_inputs D ?n) \<and> b \<in> hash_str D ` set (loop_inputs D ?n)"
      using IH [OF long 2] by auto
    ultimately have "p = a @ b \<and> a \<in> hash_str D ` set (loop_inputs D xs) \<and> b \<in> hash_str D ` set (loop_inputs D xs)"
      by (meson image_mono subsetD)
    then show ?thesis by auto
  qed
qed

definition inner_leaf :: "'z digests_scheme \<Rightarrow> string list \<Rightarrow> string list \<Rightarrow> bool" where
  "inner_leaf D xs ys \<longleftrightarrow> (\<exists>x\<in>set xs. x \<in> hash_str D ` set (loop_inputs D ys))"

lemma loop_inputs_next_split:
  assumes "1 < length xs" "p \<in> set (loop_inputs D (next_level D (pad_level xs)))"
  shows "\<exists>a b. p = a @ b \<and> a \<in> hash_str D ` set (loop_inputs D xs)"
proof -
  let ?n = "next_level D (pad_level xs)"
  obtain a b where "p = a @ b" "a \<in> set ?n \<or> a \<in> hash_str D ` set (loop_inputs D ?n)"
    using loop_inputs_split [OF assms(2)] by auto
  then have "a \<in> hash_str D ` set (loop_inputs D xs)"
    using loop_inputs_sub(2,3) [OF assms(1), of D] by (meson image_mono subsetD)
  with \<open>p = a @ b\<close> show ?thesis by blast
qed

lemma inner_leaf_next:
  assumes D: "hex64 D" "no_collision D A"
    and A: "set (loop_inputs D xs) \<subseteq> A" "set (loop_inputs D ys) \<subseteq> A"
    and long: "1 < length xs" "1 < length ys" and "all64 xs"
    and inner: "inner_leaf D (next_level D (pad_level xs)) (next_level D (pad_level ys))"
  shows "inner_leaf D xs ys"
proof -
  from inner obtain p q where p: "p \<in> set (combined_pairs (pad_level xs))"
    and q: "q \<in> set (loop_inputs D (next_level D (pad_level ys)))" and eq: "hash_str D p = hash_str D q"
    unfolding inner_leaf_def next_level_def [of D "pad_level xs"] by auto
  have "p \<in> A" using p loop_inputs_sub(1) [OF long(1)] A(1) by blast
  moreover have "q \<in> A" using q loop_inputs_sub(2) [OF long(2)] A(2) by blast
  ultimately have "p = q" by (rule no_collisionD [OF D(2) eq])
  obtain a b where ab: "q = a @ b" "a \<in> hash_str D ` set (loop_inputs D ys)"
    using loop_inputs_next_split [OF long(2) q] by auto
  obtain c d where cd: "p = c @ d" "c \<in> set xs" using set_pairs [OF p] by auto
  have "length a = 64" using ab(2) D(1) by (auto simp: hex64_def)
  moreover have "length c = 64" using cd(2) \<open>all64 xs\<close> by (simp add: list_all_iff)
  ultimately have "c = a" using ab(1) cd(1) \<open>p = q\<close> by simp
  with cd(2) ab(2) show ?thesis unfolding inner_leaf_def by blast
qed

lemma merkle_loop_inj:
  assumes "hex64 D" "no_collision D A"
  shows "xs \<noteq> [] \<Longrightarrow> ys \<noteq> [] \<Longrightarrow> all64 xs \<Longrightarrow> all64 ys \<Longrightarrow> distinct xs \<Longrightarrow> distinct ys \<Longrightarrow>
    set (loop_inputs D xs) \<subseteq> A \<Longrightarrow> set (loop_inputs D ys) \<subseteq> A \<Longrightarrow> merkle_loop D xs = merkle_loop D ys \<Longrightarrow>
    xs = ys \<or> inner_leaf D xs ys \<or> inner_leaf D ys xs"
proof (induction "length xs" arbitrary: xs ys rule: less_induct)
  case less
  show ?case
  proof (cases "1 < length xs \<and> 1 < length ys")
    case True
    let ?xs = "next_level D (pad_level xs)" and ?ys = "next_level D (pad_level ys)"
    have sub: "set (combined_pairs (pad_level xs)) \<subseteq> A" "set (combined_pairs (pad_level ys)) \<subseteq> A"
        "set (loop_inputs D ?xs) \<subseteq> A" "set (loop_inputs D ?ys) \<subseteq> A"
      using less.prems(7,8) True by (auto simp: loop_inputs_long)
    have "length ?xs < length xs" using True by (auto simp: next_level_def length_pairs)
    moreover have "merkle_loop D ?xs = merkle_loop D ?ys"
      using less.prems(9) True by (simp add: merkle_loop_long)
    ultimately have "?xs = ?ys \<or> inner_leaf D ?xs ?ys \<or> inner_leaf D ?ys ?xs"
      using less.prems sub distinct_next [OF assms(2)] assms(1)
      by (intro less.hyps) (simp_all add: next_level_not_Nil)
    then show ?thesis
      using next_level_step [OF assms(2) sub(1,2) less.prems(3-6)]
        inner_leaf_next [OF assms less.prems(7,8)] inner_leaf_next [OF assms less.prems(8,7)]
        True less.prems(3,4) by blast
  next
    case False
    then consider "length xs = 1" "length ys = 1" | "length xs = 1" "1 < length ys" | "1 < length xs" "length ys = 1"
      using less.prems(1,2) by (cases xs; cases ys) auto
    then show ?thesis
    proof cases
      case 1
      with less.prems(9) show ?thesis by (auto simp: merkle_loop_single length_Suc_conv)
    next
      case 2
      with merkle_loop_input [of ys D] less.prems(9) show ?thesis
        by (auto simp: merkle_loop_single length_Suc_conv inner_leaf_def)
    next
      case 3
      with merkle_loop_input [of xs D] less.prems(9) [symmetric] show ?thesis
        by (auto simp: merkle_loop_single length_Suc_conv inner_leaf_def)
    qed
  qed
qed

lemma length_loop_inputs:
  "hex64 D \<Longrightarrow> all64 xs \<Longrightarrow> p \<in> set (loop_inputs D xs) \<Longrightarrow> length p = 128"
  using loop_inputs_split [of p D xs] by (auto simp: hex64_def list_all_iff)

text \<open>
  Both conditions are needed: a duplicated last leaf and a pair of inner hashes taken for leaves
  give the root of another list.
\<close>

lemma merkle_root_long: "1 < length xs \<Longrightarrow> merkle_root D xs = merkle_loop D xs"
  by (cases xs) (simp_all add: merkle_root_def)

lemma odd_duplicate: "merkle_root D [a, b, c] = merkle_root D [a, b, c, c]"
  by (simp add: merkle_root_long merkle_loop_long next_level_def)

lemma inner_hashes_as_leaves:
  "merkle_root D [hash_str D (a @ b), hash_str D (c @ d)] = merkle_root D [a, b, c, d]"
  by (simp add: merkle_root_long merkle_loop_long [of "[a, b, c, d]"] next_level_def)

lemma merkle_root_single: "length xs = 1 \<Longrightarrow> merkle_root D xs = hash_str D (xs ! 0)"
  by (cases xs) (simp_all add: merkle_root_def)

lemma merkle_root_inj:
  assumes D: "hex64 D" "no_collision D A"
    and A: "set (merkle_inputs D xs) \<subseteq> A" "set (merkle_inputs D ys) \<subseteq> A"
    and ne: "xs \<noteq> []" "ys \<noteq> []" and len: "all64 xs" "all64 ys" and dist: "distinct xs" "distinct ys"
    and apart: "\<not> inner_leaf D xs ys" "\<not> inner_leaf D ys xs"
    and eq: "merkle_root D xs = merkle_root D ys"
  shows "xs = ys"
proof -
  have cross: False if one: "length us = 1" and long: "1 < length vs" and uv: "set (merkle_inputs D us) \<subseteq> A"
    "set (merkle_inputs D vs) \<subseteq> A" "all64 us" "all64 vs" "merkle_root D us = merkle_root D vs" for us vs
  proof -
    obtain p where p: "p \<in> set (loop_inputs D vs)" "merkle_loop D vs = hash_str D p"
      using merkle_loop_input [OF long] by auto
    have "hash_str D (us ! 0) = hash_str D p"
      using uv(5) one long p(2) by (simp add: merkle_root_single merkle_root_long)
    moreover have "us ! 0 \<in> A" using uv(1) one by (auto simp: merkle_inputs_def length_Suc_conv)
    moreover have "p \<in> A" using uv(2) p(1) long by (auto simp: merkle_inputs_def)
    ultimately have "us ! 0 = p" using no_collisionD [OF D(2)] by metis
    moreover have "length (us ! 0) = 64" using uv(3) one by (auto simp: length_Suc_conv)
    ultimately show False using length_loop_inputs [OF D(1) uv(4) p(1)] by simp
  qed
  consider "length xs = 1" "length ys = 1" | "length xs = 1" "1 < length ys" | "1 < length xs" "length ys = 1"
    | "1 < length xs" "1 < length ys"
    using ne by (metis length_0_conv less_one linorder_neqE_nat)
  then show ?thesis
  proof cases
    case 1
    with eq have "hash_str D (xs ! 0) = hash_str D (ys ! 0)" by (simp add: merkle_root_single)
    moreover have "xs ! 0 \<in> A" "ys ! 0 \<in> A" using A 1 by (auto simp: merkle_inputs_def length_Suc_conv)
    ultimately have "xs ! 0 = ys ! 0" using no_collisionD [OF D(2)] by metis
    with 1 show ?thesis by (auto simp: length_Suc_conv)
  next
    case 2
    with cross [of xs ys] A len eq show ?thesis by simp
  next
    case 3
    with cross [of ys xs] A len eq show ?thesis by simp
  next
    case 4
    then have "merkle_loop D xs = merkle_loop D ys" using eq by (simp add: merkle_root_long)
    with merkle_loop_inj [OF D ne len dist] A 4 apart show ?thesis by (auto simp: merkle_inputs_def)
  qed
qed

lemma length_merkle_loop: "hex64 D \<Longrightarrow> 1 < length xs \<Longrightarrow> length (merkle_loop D xs) = 64"
  using merkle_loop_input [of xs D] by (auto simp: hex64_def)

lemma length_merkle_root: "hex64 D \<Longrightarrow> length (merkle_root D xs) = 64"
proof -
  assume "hex64 D"
  consider "xs = []" | "length xs = 1" | "1 < length xs"
    by (metis length_0_conv less_one linorder_neqE_nat)
  then show ?thesis
  proof cases
    case 3
    with \<open>hex64 D\<close> show ?thesis by (simp add: merkle_root_long length_merkle_loop)
  qed (use \<open>hex64 D\<close> in \<open>simp_all add: merkle_root_def hex64_def\<close>)
qed

end
