(* ===== verification/Transaction.thy ===== *)
theory Transaction
  imports Merkle Slashing
begin

text \<open>
  Transactions, \<open>sentrix-primitives/src/transaction.rs\<close> and \<open>address.rs\<close>: the operations a data
  field can carry, the record, its constructors, the classification of system, EVM and coinbase
  transactions, the signing payload, the transaction id, signature verification and validation. The
  crates \<open>sha2\<close>, \<open>sha3\<close>, \<open>hex\<close>, \<open>serde_json\<close> and \<open>secp256k1\<close> are the fields of a record of
  functions. The lemmas give the exact condition of acceptance, that a freshly signed transaction
  passes, that a transaction id computed from a payload determines every signed field, and that
  nothing of this binds the stored id or the sender of an EVM transaction.
\<close>

definition MIN_TX_FEE :: u64 where "MIN_TX_FEE = 10000"

definition COINBASE_ADDRESS :: string where "COINBASE_ADDRESS = ''COINBASE''"

definition TOKEN_OP_ADDRESS :: string where
  "TOKEN_OP_ADDRESS = ''0x0000000000000000000000000000000000000000''"

definition PROTOCOL_TREASURY :: string where
  "PROTOCOL_TREASURY = ''0x0000000000000000000000000000000000000002''"

definition STAKING_ADDRESS :: string where
  "STAKING_ADDRESS = ''0x0000000000000000000000000000000000000100''"

section \<open>Operations in the data field\<close>

text \<open>
  Arguments in the order of the fields of the source: \<open>Deploy\<close> has name, symbol, decimals, supply and
  maximal supply, a transfer contract, recipient and amount, and so on.
\<close>

datatype TokenOp =
    Deploy string string u8 u64 u64
  | Transfer string string u64
  | Burn string u64
  | Mint string string u64
  | Approve string string u64
  | DeployNft string string string u64
  | MintNft string string u64 string
  | TransferNft string string string u64
  | BurnNft string u64
  | ApproveNft string string u64
  | SetApprovalForAll string string bool
  | DeployMulti string string string
  | MintMulti string string u64 u64 string
  | TransferMulti string string string u64 u64
  | BurnMulti string string u64 u64
  | BatchMintMulti string string "u64 list" "u64 list"
  | BatchTransferMulti string string string "u64 list" "u64 list"

fun is_nft_family :: "TokenOp \<Rightarrow> bool" where
  "is_nft_family (Deploy _ _ _ _ _) = False"
| "is_nft_family (Transfer _ _ _) = False"
| "is_nft_family (Burn _ _) = False"
| "is_nft_family (Mint _ _ _) = False"
| "is_nft_family (Approve _ _ _) = False"
| "is_nft_family _ = True"

datatype StakingOp =
    RegisterValidator u64 u16 string
  | Delegate string u64
  | Undelegate string u64
  | Redelegate string string u64
  | Unjail
  | ClaimRewards
  | SubmitEvidence u64 string string string string string
  | JailEvidenceBundle u64 u64 u64 "jail_evidence list" "string list"
  | AddSelfStake u64

fun is_bundle :: "StakingOp \<Rightarrow> bool" where
  "is_bundle (JailEvidenceBundle _ _ _ _ _) = True"
| "is_bundle _ = False"

section \<open>Libraries\<close>

text \<open>
  JSON values of the signing payload, and the library functions: the JSON text of a map of scalars
  and of a staking operation (or its error), the parsers, hexadecimal decoding, Keccak-256, and the
  secp256k1 operations on keys and signatures, which are opaque.
\<close>

datatype json_value = JNum u64 | JStr string

record tx_libs = digests +
  to_json :: "(string \<times> json_value) list \<Rightarrow> string"
  staking_to_json :: "StakingOp \<Rightarrow> string + string"
  staking_from_json :: "string \<Rightarrow> StakingOp option"
  token_to_json :: "TokenOp \<Rightarrow> string + string"
  token_from_json :: "string \<Rightarrow> TokenOp option"
  hex_decode :: "string \<Rightarrow> u8 list option"
  keccak256 :: "u8 list \<Rightarrow> u8 list"
  public_key_from_slice :: "u8 list \<Rightarrow> u8 list option"
  serialize_uncompressed :: "u8 list \<Rightarrow> u8 list"
  sign_ecdsa :: "u8 list \<Rightarrow> u8 list \<Rightarrow> u8 list"
  serialize_compact :: "u8 list \<Rightarrow> u8 list"
  signature_from_compact :: "u8 list \<Rightarrow> u8 list option"
  verify_ecdsa :: "u8 list \<Rightarrow> u8 list \<Rightarrow> u8 list \<Rightarrow> bool"

definition StakingOp_encode :: "tx_libs \<Rightarrow> StakingOp \<Rightarrow> string result" where
  "StakingOp_encode E op =
    (case staking_to_json E op of Inr s \<Rightarrow> Ok s | Inl e \<Rightarrow> Err (InvalidTransaction e))"

definition StakingOp_decode :: "tx_libs \<Rightarrow> string \<Rightarrow> StakingOp option" where
  "StakingOp_decode E data = staking_from_json E data"

definition is_staking_op :: "tx_libs \<Rightarrow> string \<Rightarrow> bool" where
  "is_staking_op E data \<longleftrightarrow> StakingOp_decode E data \<noteq> None"

definition TokenOp_encode :: "tx_libs \<Rightarrow> TokenOp \<Rightarrow> string result" where
  "TokenOp_encode E op =
    (case token_to_json E op of Inr s \<Rightarrow> Ok s | Inl e \<Rightarrow> Err (InvalidTransaction e))"

definition TokenOp_decode :: "tx_libs \<Rightarrow> string \<Rightarrow> TokenOp option" where
  "TokenOp_decode E data = token_from_json E data"

definition is_token_op :: "tx_libs \<Rightarrow> string \<Rightarrow> bool" where
  "is_token_op E data \<longleftrightarrow> TokenOp_decode E data \<noteq> None"

definition derive_address :: "tx_libs \<Rightarrow> u8 list \<Rightarrow> string" where
  "derive_address E public_key =
    (let pub_bytes = serialize_uncompressed E public_key;
         hash = keccak256 E (drop 1 pub_bytes);
         address_bytes = drop 12 hash
     in ''0x'' @ hex_string E address_bytes)"

section \<open>Transactions\<close>

record transaction =
  txid :: string
  from_address :: string
  to_address :: string
  tx_amount :: u64
  tx_fee :: u64
  tx_nonce :: u64
  tx_data :: string
  tx_timestamp :: u64
  tx_chain_id :: u64
  tx_signature :: string
  tx_public_key :: string

text \<open>\<open>str::starts_with\<close> and \<open>str::contains\<close>.\<close>

definition starts_with :: "string \<Rightarrow> string \<Rightarrow> bool" where
  "starts_with s p \<longleftrightarrow> take (length p) s = p"

fun contains :: "string \<Rightarrow> string \<Rightarrow> bool" where
  "contains [] p \<longleftrightarrow> p = []"
| "contains (c # s) p \<longleftrightarrow> starts_with (c # s) p \<or> contains s p"

definition is_coinbase :: "transaction \<Rightarrow> bool" where
  "is_coinbase tx \<longleftrightarrow> from_address tx = COINBASE_ADDRESS"

definition is_evm_tx :: "transaction \<Rightarrow> bool" where
  "is_evm_tx tx \<longleftrightarrow> starts_with (tx_data tx) ''EVM:''"

definition is_jail_evidence_bundle_tx :: "tx_libs \<Rightarrow> transaction \<Rightarrow> bool" where
  "is_jail_evidence_bundle_tx E tx \<longleftrightarrow>
    (if \<not> contains (tx_data tx) ([CHR 0x22] @ ''jail_evidence_bundle'' @ [CHR 0x22]) then False
     else case staking_from_json E (tx_data tx) of Some op \<Rightarrow> is_bundle op | None \<Rightarrow> False)"

definition is_system_tx :: "tx_libs \<Rightarrow> transaction \<Rightarrow> bool" where
  "is_system_tx E tx \<longleftrightarrow> from_address tx = PROTOCOL_TREASURY \<and> is_jail_evidence_bundle_tx E tx"

text \<open>The map is a \<open>BTreeMap\<close>: its entries are in the order of the keys.\<close>

definition payload_map :: "transaction \<Rightarrow> (string \<times> json_value) list" where
  "payload_map tx =
    [(''amount'', JNum (tx_amount tx)), (''chain_id'', JNum (tx_chain_id tx)),
     (''data'', JStr (tx_data tx)), (''fee'', JNum (tx_fee tx)),
     (''from'', JStr (from_address tx)), (''nonce'', JNum (tx_nonce tx)),
     (''timestamp'', JNum (tx_timestamp tx)), (''to'', JStr (to_address tx))]"

definition signing_payload :: "tx_libs \<Rightarrow> transaction \<Rightarrow> string" where
  "signing_payload E tx = to_json E (payload_map tx)"

definition compute_txid :: "tx_libs \<Rightarrow> transaction \<Rightarrow> string" where
  "compute_txid E tx = hex_string E (sha_digest E (str_bytes (signing_payload E tx)))"

definition payload_to_message :: "tx_libs \<Rightarrow> string \<Rightarrow> u8 list result" where
  "payload_to_message E payload = Ok (sha_digest E (str_bytes payload))"

definition Transaction_new ::
  "tx_libs \<Rightarrow> u64 \<Rightarrow> string \<Rightarrow> string \<Rightarrow> u64 \<Rightarrow> u64 \<Rightarrow> u64 \<Rightarrow> string \<Rightarrow> u64 \<Rightarrow> u8 list \<Rightarrow> u8 list \<Rightarrow>
    transaction result" where
  "Transaction_new E now from to amount fee nonce data chain_id secret_key public_key =
    (let tx = \<lparr>txid = [], from_address = from, to_address = to, tx_amount = amount, tx_fee = fee,
           tx_nonce = nonce, tx_data = data, tx_timestamp = now, tx_chain_id = chain_id,
           tx_signature = [], tx_public_key = hex_string E (serialize_uncompressed E public_key)\<rparr>
     in case payload_to_message E (signing_payload E tx) of
          Err e \<Rightarrow> Err e
        | Ok msg \<Rightarrow>
            let tx1 = tx\<lparr>tx_signature := hex_string E (serialize_compact E (sign_ecdsa E msg secret_key))\<rparr>
            in Ok (tx1\<lparr>txid := compute_txid E tx1\<rparr>))"

definition new_coinbase :: "tx_libs \<Rightarrow> string \<Rightarrow> u64 \<Rightarrow> u64 \<Rightarrow> u64 \<Rightarrow> transaction" where
  "new_coinbase E to amount block_index block_timestamp =
    (let tx = \<lparr>txid = [], from_address = COINBASE_ADDRESS, to_address = to, tx_amount = amount,
           tx_fee = 0, tx_nonce = 0, tx_data = ''block_'' @ show_nat block_index,
           tx_timestamp = block_timestamp, tx_chain_id = 0, tx_signature = [], tx_public_key = []\<rparr>
     in tx\<lparr>txid := compute_txid E tx\<rparr>)"

definition new_jail_evidence_bundle :: "tx_libs \<Rightarrow> StakingOp \<Rightarrow> u64 \<Rightarrow> u64 \<Rightarrow> transaction result" where
  "new_jail_evidence_bundle E op block_index block_timestamp =
    (if \<not> is_bundle op
     then Err (InvalidTransaction ''new_jail_evidence_bundle: op must be StakingOp::JailEvidenceBundle'')
     else case staking_to_json E op of
       Inl e \<Rightarrow> Err (InvalidTransaction (''new_jail_evidence_bundle: serialize failed: '' @ e))
     | Inr data \<Rightarrow>
         let tx = \<lparr>txid = [], from_address = PROTOCOL_TREASURY, to_address = PROTOCOL_TREASURY,
               tx_amount = 0, tx_fee = 0, tx_nonce = block_index, tx_data = data,
               tx_timestamp = block_timestamp, tx_chain_id = 0, tx_signature = [], tx_public_key = []\<rparr>
         in Ok (tx\<lparr>txid := compute_txid E tx\<rparr>))"

definition tx_verify :: "tx_libs \<Rightarrow> transaction \<Rightarrow> unit result" where
  "tx_verify E tx =
    (if is_coinbase tx then
       if tx_signature tx \<noteq> [] \<or> tx_public_key tx \<noteq> []
       then Err (InvalidTransaction ''coinbase transaction must not have signature or public_key'')
       else Ok ()
     else if is_evm_tx tx then Ok ()
     else if from_address tx = PROTOCOL_TREASURY \<and> is_jail_evidence_bundle_tx E tx then
       if tx_signature tx \<noteq> [] \<or> tx_public_key tx \<noteq> []
       then Err (InvalidTransaction ''JailEvidenceBundle system tx must not have signature or public_key'')
       else Ok ()
     else case hex_decode E (tx_public_key tx) of
       None \<Rightarrow> Err InvalidSignature
     | Some pub_key_bytes \<Rightarrow>
     case public_key_from_slice E pub_key_bytes of
       None \<Rightarrow> Err InvalidSignature
     | Some public_key \<Rightarrow>
     let derived_address = derive_address E public_key
     in if derived_address \<noteq> from_address tx
        then Err (InvalidTransaction
               (''public key does not match from_address: expected '' @ from_address tx @
                '', derived '' @ derived_address))
        else case hex_decode E (tx_signature tx) of
          None \<Rightarrow> Err InvalidSignature
        | Some sig_bytes \<Rightarrow>
        case signature_from_compact E sig_bytes of
          None \<Rightarrow> Err InvalidSignature
        | Some sig \<Rightarrow>
        case payload_to_message E (signing_payload E tx) of
          Err e \<Rightarrow> Err e
        | Ok msg \<Rightarrow>
            if verify_ecdsa E msg sig public_key then Ok () else Err InvalidSignature)"

definition tx_validate :: "tx_libs \<Rightarrow> transaction \<Rightarrow> u64 \<Rightarrow> u64 \<Rightarrow> unit result" where
  "tx_validate E tx expected_nonce expected_chain_id =
    (if is_coinbase tx then Ok ()
     else if is_system_tx E tx then Ok ()
     else if tx_fee tx < MIN_TX_FEE
     then Err (InvalidTransaction
            (''fee '' @ show_nat (tx_fee tx) @ '' below minimum '' @ show_nat MIN_TX_FEE))
     else if tx_amount tx = 0 \<and> \<not> is_token_op E (tx_data tx) \<and> \<not> is_evm_tx tx \<and>
         \<not> is_staking_op E (tx_data tx)
     then Err (InvalidTransaction ''amount must be > 0 (unless token/EVM/staking operation)'')
     else if tx_nonce tx \<noteq> expected_nonce then Err (InvalidNonce expected_nonce (tx_nonce tx))
     else if tx_chain_id tx \<noteq> expected_chain_id
     then Err (InvalidTransaction
            (''wrong chain_id: expected '' @ show_nat expected_chain_id @ '', got '' @ show_nat (tx_chain_id tx)))
     else case tx_verify E tx of Err e \<Rightarrow> Err e | Ok u \<Rightarrow> Ok ())"

section \<open>Acceptance\<close>

text \<open>
  A transaction is signed by its sender when its key derives to the sender's address and its
  signature verifies on the payload. This is what acceptance comes to, except for EVM transactions.
\<close>

definition signed_by_sender :: "tx_libs \<Rightarrow> transaction \<Rightarrow> bool" where
  "signed_by_sender E tx \<longleftrightarrow>
    (case Option.bind (hex_decode E (tx_public_key tx)) (public_key_from_slice E) of
       None \<Rightarrow> False
     | Some key \<Rightarrow>
         derive_address E key = from_address tx \<and>
         (case Option.bind (hex_decode E (tx_signature tx)) (signature_from_compact E) of
            None \<Rightarrow> False
          | Some sig \<Rightarrow> verify_ecdsa E (sha_digest E (str_bytes (signing_payload E tx))) sig key))"

lemma tx_verify_ordinary:
  assumes "\<not> is_coinbase tx" "\<not> is_evm_tx tx" "\<not> is_system_tx E tx"
  shows "is_ok (tx_verify E tx) \<longleftrightarrow> signed_by_sender E tx"
proof -
  note defs = tx_verify_def signed_by_sender_def payload_to_message_def
  have ordinary: "\<not> (from_address tx = PROTOCOL_TREASURY \<and> is_jail_evidence_bundle_tx E tx)"
    using assms(3) by (simp add: is_system_tx_def)
  show ?thesis
  proof (cases "Option.bind (hex_decode E (tx_public_key tx)) (public_key_from_slice E)")
    case None
    then show ?thesis
      by (cases "hex_decode E (tx_public_key tx)") (simp_all add: defs assms(1,2) if_not_P [OF ordinary])
  next
    case (Some key)
    then obtain b where key: "hex_decode E (tx_public_key tx) = Some b" "public_key_from_slice E b = Some key"
      by (auto simp: bind_eq_Some_conv)
    show ?thesis
    proof (cases "hex_decode E (tx_signature tx)")
      case None
      with key show ?thesis by (simp add: defs assms(1,2) if_not_P [OF ordinary])
    next
      case (Some s)
      with key show ?thesis
        by (cases "signature_from_compact E s") (simp_all add: defs assms(1,2) if_not_P [OF ordinary])
    qed
  qed
qed

lemma tx_verify_evm: "is_evm_tx tx \<Longrightarrow> \<not> is_coinbase tx \<Longrightarrow> tx_verify E tx = Ok ()"
  by (simp add: tx_verify_def)

lemma validate_ok_iff:
  "is_ok (tx_validate E tx n c) \<longleftrightarrow>
    is_coinbase tx \<or> is_system_tx E tx \<or>
    (MIN_TX_FEE \<le> tx_fee tx \<and>
     (0 < tx_amount tx \<or> is_token_op E (tx_data tx) \<or> is_evm_tx tx \<or> is_staking_op E (tx_data tx)) \<and>
     tx_nonce tx = n \<and> tx_chain_id tx = c \<and> (is_evm_tx tx \<or> signed_by_sender E tx))"
proof (cases "is_coinbase tx \<or> is_system_tx E tx")
  case True
  then show ?thesis by (auto simp: tx_validate_def)
next
  case False
  then have "is_ok (case tx_verify E tx of Err e \<Rightarrow> Err e | Ok u \<Rightarrow> Ok ()) \<longleftrightarrow> is_evm_tx tx \<or> signed_by_sender E tx"
    using tx_verify_ordinary [of tx E] tx_verify_evm [of tx E] by (cases "is_evm_tx tx") (auto split: result.split)
  with False show ?thesis by (auto simp: tx_validate_def)
qed

section \<open>Signing\<close>

text \<open>
  What the libraries document: hexadecimal text decodes to what was encoded, keys and signatures
  survive serialisation, and a signature made with a secret key verifies under its public key.
\<close>

definition bytes :: "u8 list \<Rightarrow> bool" where
  "bytes b \<longleftrightarrow> list_all (\<lambda>x. x < 256) b"

definition key_pair :: "tx_libs \<Rightarrow> u8 list \<Rightarrow> u8 list \<Rightarrow> bool" where
  "key_pair E secret_key public_key \<longleftrightarrow>
    (\<forall>b. bytes b \<longrightarrow> hex_decode E (hex_string E b) = Some b) \<and>
    bytes (serialize_uncompressed E public_key) \<and>
    public_key_from_slice E (serialize_uncompressed E public_key) = Some public_key \<and>
    (\<forall>m. bytes (serialize_compact E (sign_ecdsa E m secret_key)) \<and>
      signature_from_compact E (serialize_compact E (sign_ecdsa E m secret_key)) = Some (sign_ecdsa E m secret_key) \<and>
      verify_ecdsa E m (sign_ecdsa E m secret_key) public_key)"

text \<open>A transaction without the fields that its payload does not cover.\<close>

definition unsigned_part :: "transaction \<Rightarrow> transaction" where
  "unsigned_part tx = tx\<lparr>txid := [], tx_signature := [], tx_public_key := []\<rparr>"

lemma signing_payload_upd [simp]:
  "signing_payload E (tx\<lparr>txid := t\<rparr>) = signing_payload E tx"
  "signing_payload E (tx\<lparr>tx_signature := s\<rparr>) = signing_payload E tx"
  "signing_payload E (tx\<lparr>tx_public_key := k\<rparr>) = signing_payload E tx"
  by (simp_all add: signing_payload_def payload_map_def)

lemma compute_txid_upd [simp]:
  "compute_txid E (tx\<lparr>txid := t\<rparr>) = compute_txid E tx"
  "compute_txid E (tx\<lparr>tx_signature := s\<rparr>) = compute_txid E tx"
  "compute_txid E (tx\<lparr>tx_public_key := k\<rparr>) = compute_txid E tx"
  by (simp_all add: compute_txid_def)

lemma derived_not_coinbase [simp]: "derive_address E key \<noteq> COINBASE_ADDRESS"
  by (simp add: derive_address_def COINBASE_ADDRESS_def)

lemma new_signed:
  assumes "key_pair E sk pk"
    and "Transaction_new E now (derive_address E pk) to amount fee nonce data chain_id sk pk = Ok tx"
  shows "signed_by_sender E tx \<and> \<not> is_coinbase tx \<and> txid tx = compute_txid E tx"
proof -
  define t where "t = \<lparr>txid = [], from_address = derive_address E pk, to_address = to, tx_amount = amount,
    tx_fee = fee, tx_nonce = nonce, tx_data = data, tx_timestamp = now, tx_chain_id = chain_id,
    tx_signature = [], tx_public_key = hex_string E (serialize_uncompressed E pk)\<rparr>"
  let ?s = "hex_string E (serialize_compact E (sign_ecdsa E (sha_digest E (str_bytes (signing_payload E t))) sk))"
  have tx: "tx = t\<lparr>tx_signature := ?s, txid := compute_txid E (t\<lparr>tx_signature := ?s\<rparr>)\<rparr>"
    using assms(2) unfolding Transaction_new_def t_def [symmetric] Let_def payload_to_message_def
    by (simp only: result.case result.inject)
  have "from_address t = derive_address E pk" "tx_public_key t = hex_string E (serialize_uncompressed E pk)"
    by (simp_all add: t_def)
  with assms(1) show ?thesis
    unfolding tx by (simp add: signed_by_sender_def key_pair_def is_coinbase_def)
qed

section \<open>What the id of a transaction covers\<close>

text \<open>
  \<open>serde_json\<close> writes an object, and reading it back gives the map that was written: maps with the
  same keys and the same text are equal.
\<close>

definition json_faithful :: "tx_libs \<Rightarrow> bool" where
  "json_faithful E \<longleftrightarrow>
    (\<forall>m m'. map fst m = map fst m' \<longrightarrow> to_json E m = to_json E m' \<longrightarrow> m = m') \<and>
    (\<forall>m. starts_with (to_json E m) [CHR 0x7B])"

lemma payload_map_inj: "payload_map tx = payload_map tx' \<longleftrightarrow> unsigned_part tx = unsigned_part tx'"
  by (cases tx; cases tx') (auto simp: payload_map_def unsigned_part_def)

lemma signing_payload_inj:
  assumes "json_faithful E"
  shows "signing_payload E tx = signing_payload E tx' \<longleftrightarrow> unsigned_part tx = unsigned_part tx'"
proof -
  have "map fst (payload_map tx) = map fst (payload_map tx')"
    by (simp add: payload_map_def)
  with assms have "to_json E (payload_map tx) = to_json E (payload_map tx') \<longleftrightarrow> payload_map tx = payload_map tx'"
    unfolding json_faithful_def by metis
  then show ?thesis by (simp add: signing_payload_def payload_map_inj)
qed

lemma compute_txid_hash: "compute_txid E tx = hash_str E (signing_payload E tx)"
  by (simp add: compute_txid_def sha256_hex_def)

lemma txid_inj:
  assumes "json_faithful E" "no_collision E {signing_payload E tx, signing_payload E tx'}"
  shows "compute_txid E tx = compute_txid E tx' \<longleftrightarrow> unsigned_part tx = unsigned_part tx'"
proof -
  have "compute_txid E tx = compute_txid E tx' \<longleftrightarrow> signing_payload E tx = signing_payload E tx'"
    unfolding compute_txid_hash using no_collisionD [OF assms(2)] by auto
  then show ?thesis using signing_payload_inj [OF assms(1)] by simp
qed

text \<open>Validation reads neither the stored id nor, for an EVM transaction, the signature and the key.\<close>

lemma classify_txid [simp]:
  "is_coinbase (tx\<lparr>txid := t\<rparr>) = is_coinbase tx"
  "is_evm_tx (tx\<lparr>txid := t\<rparr>) = is_evm_tx tx"
  "is_system_tx E (tx\<lparr>txid := t\<rparr>) = is_system_tx E tx"
  "is_jail_evidence_bundle_tx E (tx\<lparr>txid := t\<rparr>) = is_jail_evidence_bundle_tx E tx"
  by (simp_all add: is_coinbase_def is_evm_tx_def is_system_tx_def is_jail_evidence_bundle_tx_def)

lemma tx_verify_txid [simp]: "tx_verify E (tx\<lparr>txid := t\<rparr>) = tx_verify E tx"
  by (simp add: tx_verify_def cong: option.case_cong if_cong)

lemma validate_txid_irrelevant: "tx_validate E (tx\<lparr>txid := t\<rparr>) n c = tx_validate E tx n c"
  by (simp add: tx_validate_def)

section \<open>A concrete set of libraries\<close>

text \<open>
  The assumptions on the libraries hold together: hexadecimal text as the \<open>hex\<close> crate writes it, a
  checksum for SHA-256, and text for maps that can be read back.
\<close>

definition hex_digit :: "nat \<Rightarrow> char" where
  "hex_digit n = (if n < 10 then char_of (48 + n) else char_of (87 + n))"

definition example_hex :: "u8 list \<Rightarrow> string" where
  "example_hex b = concat (map (\<lambda>x. [hex_digit (x div 16 mod 16), hex_digit (x mod 16)]) b)"

definition hex_value :: "char \<Rightarrow> nat" where
  "hex_value c = (if of_char c < (58 :: nat) then of_char c - 48 else of_char c - 87)"

fun example_unhex :: "string \<Rightarrow> u8 list option" where
  "example_unhex [] = Some []"
| "example_unhex [c] = None"
| "example_unhex (c # d # s) = map_option (\<lambda>b. (16 * hex_value c + hex_value d) # b) (example_unhex s)"

fun example_value :: "json_value \<Rightarrow> string" where
  "example_value (JNum n) = show_nat n @ '',''"
| "example_value (JStr s) = concat (map (\<lambda>c. [CHR ''.'', c]) s) @ '',''"

definition example_json :: "(string \<times> json_value) list \<Rightarrow> string" where
  "example_json m = [CHR 0x7B] @ concat (map (\<lambda>(k, v). example_value v) m)"

definition example_libs :: tx_libs where
  "example_libs =
    \<lparr>sha_digest = \<lambda>b. replicate 30 0 @ [sum_list b div 256 mod 256, sum_list b mod 256], hex_string = example_hex, to_json = example_json,
     staking_to_json = \<lambda>op. Inl [], staking_from_json = \<lambda>s. None,
     token_to_json = \<lambda>op. Inl [], token_from_json = \<lambda>s. None, hex_decode = example_unhex,
     keccak256 = \<lambda>b. replicate 12 0 @ b, public_key_from_slice = Some, serialize_uncompressed = \<lambda>k. k,
     sign_ecdsa = \<lambda>m k. map (\<lambda>x. x mod 256) m, serialize_compact = \<lambda>s. s,
     signature_from_compact = Some, verify_ecdsa = \<lambda>m s k. s = map (\<lambda>x. x mod 256) m\<rparr>"

lemma hex_value_digit [simp]: "n < 16 \<Longrightarrow> hex_value (hex_digit n) = n"
  by (simp add: hex_value_def hex_digit_def)

lemma nibbles: "a < 256 \<Longrightarrow> 16 * (a div 16 mod 16) + a mod 16 = (a :: nat)"
  by (simp add: less_mult_imp_div_less)

lemma unhex_hex: "bytes b \<Longrightarrow> example_unhex (example_hex b) = Some b"
  by (induction b) (simp_all add: example_hex_def bytes_def nibbles)

lemma show_nat_digits: "c \<in> set (show_nat n) \<Longrightarrow> 48 \<le> (of_char c :: nat) \<and> (of_char c :: nat) < 58"
  by (induction n rule: show_nat.induct) (subst (asm) (2) show_nat.simps, auto split: if_splits)

lemma show_nat_not_Nil [simp]: "show_nat n \<noteq> []"
  by (subst show_nat.simps) simp

lemma comma_read:
  "CHR '','' \<notin> set a \<Longrightarrow> CHR '','' \<notin> set b \<Longrightarrow> a @ CHR '','' # r = b @ CHR '','' # s \<longleftrightarrow> a = b \<and> r = s"
proof (induction a arbitrary: b)
  case Nil
  then show ?case by (cases b) auto
next
  case (Cons c a)
  then show ?case by (cases b) auto
qed

lemma dotted_read:
  "concat (map (\<lambda>c. [CHR ''.'', c]) a) @ CHR '','' # r = concat (map (\<lambda>c. [CHR ''.'', c]) b) @ CHR '','' # s \<longleftrightarrow>
    a = b \<and> r = s"
proof (induction a arbitrary: b)
  case Nil
  then show ?case by (cases b) auto
next
  case (Cons c a)
  then show ?case by (cases b) auto
qed

lemma show_nat_no_comma: "CHR '','' \<notin> set (show_nat n)"
  using show_nat_digits [of "CHR '',''" n] by auto

lemma show_nat_vs_dotted: "show_nat n @ CHR '','' # r \<noteq> concat (map (\<lambda>c. [CHR ''.'', c]) b) @ CHR '','' # s"
proof -
  obtain c cs where "show_nat n = c # cs" by (cases "show_nat n") auto
  moreover from this have "c \<noteq> CHR '','' \<and> c \<noteq> CHR ''.''" using show_nat_digits [of c n] by auto
  ultimately show ?thesis by (cases b) auto
qed

lemma example_value_read: "example_value v @ r = example_value w @ s \<longleftrightarrow> v = w \<and> r = s"
  by (cases v; cases w)
    (simp_all add: comma_read show_nat_no_comma show_nat_inj dotted_read show_nat_vs_dotted show_nat_vs_dotted [symmetric])

lemma example_json_inj: "map fst m = map fst m' \<Longrightarrow> example_json m = example_json m' \<Longrightarrow> m = m'"
proof (induction m arbitrary: m')
  case (Cons kv m)
  then obtain kv' n' where m': "m' = kv' # n'" by (cases m') auto
  with Cons.prems Cons.IH [of n'] show ?case
    by (cases kv; cases kv') (simp add: example_json_def example_value_read)
qed simp

lemma example_libs_json: "json_faithful example_libs"
  unfolding json_faithful_def
  by (auto simp: example_libs_def starts_with_def example_json_inj) (simp add: example_json_def)

lemma length_example_hex: "length (example_hex b) = 2 * length b"
  by (induction b) (simp_all add: example_hex_def)

lemma example_key_pair: "bytes pk \<Longrightarrow> key_pair example_libs sk pk"
  by (simp add: key_pair_def example_libs_def unhex_hex) (simp add: bytes_def list_all_iff)

section \<open>Signed transactions\<close>



end
