(* ===== verification/Block.thy ===== *)
theory Block
  imports Transaction Bft_Messages
begin

text \<open>
  Blocks, \<open>sentrix-primitives/src/block.rs\<close>: the record, its constructors, the block hash and the
  structural checks every received block passes first.
\<close>

definition STATE_ROOT_FORK_HEIGHT :: u64 where "STATE_ROOT_FORK_HEIGHT = 100000"

record block =
  index :: u64
  previous_hash :: string
  transactions :: "transaction list"
  blk_timestamp :: u64
  blk_merkle_root :: string
  blk_validator :: string
  blk_hash :: string
  state_root :: "u8 list option"
  blk_round :: u32
  justification :: "block_justification option"

definition calculate_hash :: "tx_libs \<Rightarrow> block \<Rightarrow> string" where
  "calculate_hash E b =
    (if STATE_ROOT_FORK_HEIGHT \<le> index b then
       let state_root_hex =
             (case state_root b of Some r \<Rightarrow> hex_string E r | None \<Rightarrow> replicate 64 (CHR ''0''));
           payload = show_nat (index b) @ previous_hash b @ blk_merkle_root b @
             show_nat (blk_timestamp b) @ blk_validator b @ state_root_hex
       in sha256_hex E (str_bytes payload)
     else
       let payload = show_nat (index b) @ previous_hash b @ blk_merkle_root b @
             show_nat (blk_timestamp b) @ blk_validator b
       in sha256_hex E (str_bytes payload))"

definition is_valid_hash :: "tx_libs \<Rightarrow> block \<Rightarrow> bool" where
  "is_valid_hash E b \<longleftrightarrow> blk_hash b = calculate_hash E b"

definition Block_new :: "tx_libs \<Rightarrow> u64 \<Rightarrow> u64 \<Rightarrow> string \<Rightarrow> transaction list \<Rightarrow> string \<Rightarrow> block" where
  "Block_new E now idx prev txs validator =
    (let txids = map txid txs;
         b = \<lparr>index = idx, previous_hash = prev, transactions = txs, blk_timestamp = now,
              blk_merkle_root = merkle_root E txids, blk_validator = validator, blk_hash = [],
              state_root = None, blk_round = 0, justification = None\<rparr>
     in b\<lparr>blk_hash := calculate_hash E b\<rparr>)"

definition GENESIS_TIMESTAMP :: u64 where "GENESIS_TIMESTAMP = 1712620800"

definition genesis_block :: "tx_libs \<Rightarrow> block" where
  "genesis_block E =
    (let genesis_tx = new_coinbase E ''GENESIS'' 0 0 GENESIS_TIMESTAMP;
         txids = [txid genesis_tx];
         b = \<lparr>index = 0, previous_hash = replicate 64 (CHR ''0''), transactions = [genesis_tx],
              blk_timestamp = GENESIS_TIMESTAMP, blk_merkle_root = merkle_root E txids,
              blk_validator = ''GENESIS'', blk_hash = [], state_root = None, blk_round = 0,
              justification = None\<rparr>
     in b\<lparr>blk_hash := calculate_hash E b\<rparr>)"

definition tx_count :: "block \<Rightarrow> usize" where
  "tx_count b = length (transactions b)"

definition coinbase :: "block \<Rightarrow> transaction option" where
  "coinbase b =
    (case transactions b of [] \<Rightarrow> None | tx # _ \<Rightarrow> if is_coinbase tx then Some tx else None)"

text \<open>The loop over a \<open>HashSet\<close> of the ids seen: the first id that is already in it.\<close>

fun first_duplicate :: "string set \<Rightarrow> transaction list \<Rightarrow> string option" where
  "first_duplicate seen [] = None"
| "first_duplicate seen (tx # txs) =
    (if txid tx \<in> seen then Some (txid tx) else first_duplicate (insert (txid tx) seen) txs)"

definition validate_structure :: "tx_libs \<Rightarrow> block \<Rightarrow> u64 \<Rightarrow> string \<Rightarrow> unit result" where
  "validate_structure E b expected_index expected_prev_hash =
    (if index b \<noteq> expected_index
     then Err (InvalidBlock
            (''expected index '' @ show_nat expected_index @ '', got '' @ show_nat (index b)))
     else if previous_hash b \<noteq> expected_prev_hash then Err (InvalidBlock ''invalid previous hash'')
     else if \<not> is_valid_hash E b then Err (InvalidBlock ''block hash is invalid'')
     else if transactions b = [] then Err (InvalidBlock ''block has no transactions'')
     else if \<not> is_coinbase (transactions b ! 0)
     then Err (InvalidBlock ''first transaction must be coinbase'')
     else if list_ex is_coinbase (drop 1 (transactions b))
     then Err (InvalidBlock ''only the first transaction may be coinbase'')
     else case first_duplicate {} (transactions b) of
       Some t \<Rightarrow> Err (InvalidBlock (''duplicate txid '' @ t @ '' in block''))
     | None \<Rightarrow>
         if merkle_root E (map txid (transactions b)) \<noteq> blk_merkle_root b
         then Err (InvalidBlock ''merkle root mismatch'')
         else Ok ())"

section \<open>Structure\<close>

lemma map_eq_map:
  assumes "map f xs = map f ys" and "\<And>x y. x \<in> set xs \<Longrightarrow> y \<in> set ys \<Longrightarrow> f x = f y \<Longrightarrow> g x = g y"
  shows "map g xs = map g ys"
proof -
  have "length xs = length ys" using assms(1) map_eq_imp_length_eq by blast
  then show ?thesis using assms by (induction xs ys rule: list_induct2) auto
qed

lemma first_duplicate_None: "first_duplicate seen txs = None \<longleftrightarrow> distinct (map txid txs) \<and> seen \<inter> txid ` set txs = {}"
  by (induction txs arbitrary: seen) auto

lemma structure_ok_iff:
  "is_ok (validate_structure E b i p) \<longleftrightarrow>
    index b = i \<and> previous_hash b = p \<and> blk_hash b = calculate_hash E b \<and>
    (\<exists>cb txs. transactions b = cb # txs \<and> is_coinbase cb \<and> \<not> list_ex is_coinbase txs) \<and>
    distinct (map txid (transactions b)) \<and> merkle_root E (map txid (transactions b)) = blk_merkle_root b"
  using first_duplicate_None [of "{}" "transactions b"]
  by (cases "transactions b"; cases "first_duplicate {} (transactions b)")
    (auto simp: validate_structure_def is_valid_hash_def)

section \<open>What the block hash covers\<close>

definition root_part :: "tx_libs \<Rightarrow> block \<Rightarrow> string" where
  "root_part E b =
    (if STATE_ROOT_FORK_HEIGHT \<le> index b
     then case state_root b of Some r \<Rightarrow> hex_string E r | None \<Rightarrow> replicate 64 (CHR ''0'')
     else [])"

definition block_payload :: "tx_libs \<Rightarrow> block \<Rightarrow> string" where
  "block_payload E b = show_nat (index b) @ previous_hash b @ blk_merkle_root b @
    show_nat (blk_timestamp b) @ blk_validator b @ root_part E b"

lemma calculate_hash_payload: "calculate_hash E b = hash_str E (block_payload E b)"
  by (simp add: calculate_hash_def block_payload_def root_part_def)

lemma block_payload_eq:
  assumes "index b = index b'" "length (previous_hash b) = length (previous_hash b')"
    and "length (blk_merkle_root b) = length (blk_merkle_root b')"
    and "length (blk_validator b) = length (blk_validator b')" "length (root_part E b) = length (root_part E b')"
  shows "block_payload E b = block_payload E b' \<longleftrightarrow>
    previous_hash b = previous_hash b' \<and> blk_merkle_root b = blk_merkle_root b' \<and>
    blk_timestamp b = blk_timestamp b' \<and> blk_validator b = blk_validator b' \<and> root_part E b = root_part E b'"
proof -
  have "show_nat (blk_timestamp b) @ blk_validator b @ root_part E b =
      show_nat (blk_timestamp b') @ blk_validator b' @ root_part E b' \<longleftrightarrow>
      blk_timestamp b = blk_timestamp b' \<and> blk_validator b = blk_validator b' \<and> root_part E b = root_part E b'"
    using append_eq_append_conv [of "blk_validator b @ root_part E b" "blk_validator b' @ root_part E b'"
        "show_nat (blk_timestamp b)" "show_nat (blk_timestamp b')"]
      append_eq_append_conv [of "blk_validator b" "blk_validator b'" "root_part E b" "root_part E b'"] assms(4,5)
    by (auto simp: show_nat_inj)
  with assms(1-3) show ?thesis by (simp add: block_payload_def)
qed

text \<open>
  An id is genuine when it is the one computed from the transaction. The strings a node hashes for a
  block are its payload, the strings of the Merkle tree and the signing payloads.
\<close>

definition genuine_ids :: "tx_libs \<Rightarrow> block \<Rightarrow> bool" where
  "genuine_ids E b \<longleftrightarrow> list_all (\<lambda>tx. txid tx = compute_txid E tx) (transactions b)"

definition hashed_strings :: "tx_libs \<Rightarrow> block \<Rightarrow> string set" where
  "hashed_strings E b =
    insert (block_payload E b)
      (set (merkle_inputs E (map txid (transactions b))) \<union> signing_payload E ` set (transactions b))"

definition hex_text :: "tx_libs \<Rightarrow> bool" where
  "hex_text E \<longleftrightarrow> hex64 E \<and> (\<forall>d. \<not> starts_with (sha256_hex E d) [CHR 0x7B])"

lemma hex_text_hd: "hex_text E \<Longrightarrow> hd (sha256_hex E d) \<noteq> CHR 0x7B \<and> sha256_hex E d \<noteq> []"
  by (cases "sha256_hex E d") (auto simp: hex_text_def hex64_def starts_with_def dest: spec [of _ d])

lemma payload_hd: "json_faithful E \<Longrightarrow> hd (signing_payload E tx) = CHR 0x7B"
  by (cases "signing_payload E tx")
    (auto simp: json_faithful_def signing_payload_def starts_with_def dest: spec [of _ "payload_map tx"])

lemma genuine_all64: "hex_text E \<Longrightarrow> genuine_ids E b \<Longrightarrow> all64 (map txid (transactions b))"
  by (auto simp: genuine_ids_def list_all_iff hex_text_def hex64_def compute_txid_hash)

lemma genuine_not_inner:
  assumes E: "hex_text E" "json_faithful E" and gen: "genuine_ids E b" "genuine_ids E b'"
    and nc: "no_collision E (hashed_strings E b \<union> hashed_strings E b')"
  shows "\<not> inner_leaf E (map txid (transactions b)) (map txid (transactions b'))"
proof
  let ?ys = "map txid (transactions b')"
  assume "inner_leaf E (map txid (transactions b)) ?ys"
  then obtain tx p where tx: "tx \<in> set (transactions b)" and p: "p \<in> set (loop_inputs E ?ys)"
    and eq: "txid tx = hash_str E p"
    by (auto simp: inner_leaf_def)
  have "length ?ys \<noteq> 1" using p by (subst (asm) loop_inputs.simps) (auto split: if_splits)
  then have "p \<in> hashed_strings E b'" using p by (simp add: hashed_strings_def merkle_inputs_def)
  moreover have "signing_payload E tx \<in> hashed_strings E b" using tx by (simp add: hashed_strings_def)
  moreover have "hash_str E (signing_payload E tx) = hash_str E p"
    using eq gen(1) tx by (auto simp: genuine_ids_def list_all_iff compute_txid_hash)
  ultimately have payload: "signing_payload E tx = p" using no_collisionD [OF nc] by blast
  obtain a c where ac: "p = a @ c" "a \<in> set ?ys \<or> a \<in> hash_str E ` set (loop_inputs E ?ys)"
    using loop_inputs_split [OF p] by auto
  have "a \<in> range (sha256_hex E)"
    using ac(2) gen(2) by (auto simp: genuine_ids_def list_all_iff compute_txid_hash)
  with hex_text_hd [OF E(1)] have "hd p \<noteq> CHR 0x7B" by (auto simp: ac(1))
  with payload_hd [OF E(2), of tx] payload show False by simp
qed

lemma same_merkle_same_contents:
  assumes E: "hex_text E" "json_faithful E" and gen: "genuine_ids E b" "genuine_ids E b'"
    and nc: "no_collision E (hashed_strings E b \<union> hashed_strings E b')"
    and ok: "is_ok (validate_structure E b i p)" "is_ok (validate_structure E b' i' p')"
  shows "blk_merkle_root b = blk_merkle_root b' \<longleftrightarrow>
    map unsigned_part (transactions b) = map unsigned_part (transactions b')"
proof
  assume "blk_merkle_root b = blk_merkle_root b'"
  then have eq: "merkle_root E (map txid (transactions b)) = merkle_root E (map txid (transactions b'))"
    using ok by (simp add: structure_ok_iff)
  have sub: "set (merkle_inputs E (map txid (transactions b))) \<subseteq> hashed_strings E b \<union> hashed_strings E b'"
      "set (merkle_inputs E (map txid (transactions b'))) \<subseteq> hashed_strings E b \<union> hashed_strings E b'"
    by (auto simp: hashed_strings_def)
  have nc': "no_collision E (hashed_strings E b' \<union> hashed_strings E b)"
    using nc by (simp add: Un_commute)
  have "map txid (transactions b) = map txid (transactions b')"
    using ok genuine_all64 [OF E(1)] gen genuine_not_inner [OF E gen nc] genuine_not_inner [OF E gen(2,1) nc'] E(1)
    by (intro merkle_root_inj [OF _ nc sub _ _ _ _ _ _ _ _ eq]) (auto simp: structure_ok_iff hex_text_def)
  then show "map unsigned_part (transactions b) = map unsigned_part (transactions b')"
  proof (rule map_eq_map)
    fix tx tx'
    assume tx: "tx \<in> set (transactions b)" "tx' \<in> set (transactions b')" "txid tx = txid tx'"
    then have "compute_txid E tx = compute_txid E tx'"
      using gen by (auto simp: genuine_ids_def list_all_iff)
    moreover have "no_collision E {signing_payload E tx, signing_payload E tx'}"
      by (rule no_collision_mono [OF nc]) (use tx in \<open>auto simp: hashed_strings_def\<close>)
    ultimately show "unsigned_part tx = unsigned_part tx'" using txid_inj [OF E(2)] by blast
  qed
next
  assume eq: "map unsigned_part (transactions b) = map unsigned_part (transactions b')"
  have "map txid (transactions b) = map txid (transactions b')"
    using eq
  proof (rule map_eq_map)
    fix tx tx'
    assume tx: "tx \<in> set (transactions b)" "tx' \<in> set (transactions b')" "unsigned_part tx = unsigned_part tx'"
    then show "txid tx = txid tx'"
      using gen signing_payload_inj [OF E(2), of tx tx'] by (auto simp: genuine_ids_def list_all_iff compute_txid_hash)
  qed
  with ok show "blk_merkle_root b = blk_merkle_root b'" by (metis structure_ok_iff)
qed

end
