(* ===== verification/Block_Thms.thy ===== *)
theory Block_Thms
  imports Block
begin

text \<open>
  What the hash of a block commits to. With ids computed from the transactions it determines the
  contents of the block; without that, which no check enforces, it determines only the ids.
\<close>


lemma new_coinbase_genuine [simp]:
  "is_coinbase (new_coinbase E to amount i ts)"
  "txid (new_coinbase E to amount i ts) = compute_txid E (new_coinbase E to amount i ts)"
  by (simp_all add: new_coinbase_def is_coinbase_def compute_txid_def signing_payload_def payload_map_def)

lemma Block_new_structure:
  assumes "is_coinbase cb" "\<not> list_ex is_coinbase txs" "distinct (map txid (cb # txs))"
  shows "is_ok (validate_structure E (Block_new E now i p (cb # txs) v) i p)"
  using assms by (simp add: structure_ok_iff Block_new_def calculate_hash_def)

definition example_block :: "u64 \<Rightarrow> block" where
  "example_block ts =
    Block_new example_libs ts 5 (replicate 64 (CHR ''0'')) [new_coinbase example_libs ''V'' 7 5 ts] ''V''"

definition char_sum :: "string \<Rightarrow> nat" where
  "char_sum s = sum_list (str_bytes s)"

definition sum_hex :: "nat \<Rightarrow> string" where
  "sum_hex n = example_hex (replicate 30 0 @ [n div 256 mod 256, n mod 256])"

lemma char_sum_simps:
  "char_sum [] = 0" "char_sum (c # s) = of_char c + char_sum s" "char_sum (s @ t) = char_sum s + char_sum t"
  by (simp_all add: char_sum_def str_bytes_def)

lemma char_sum_replicate: "char_sum (replicate k c) = k * of_char c"
  by (induction k) (simp_all add: char_sum_simps)

lemma example_hash: "hash_str example_libs s = sum_hex (char_sum s)"
  by (simp add: sha256_hex_def example_libs_def char_sum_def sum_hex_def)

lemma sum_hex_inj:
  assumes "m < 65536" "n < 65536"
  shows "sum_hex m = sum_hex n \<longleftrightarrow> m = n"
proof
  assume "sum_hex m = sum_hex n"
  moreover have "bytes (replicate 30 0 @ [k div 256 mod 256, k mod 256])" for k :: nat
    by (simp add: bytes_def list_all_iff)
  ultimately have "m div 256 mod 256 = n div 256 mod 256 \<and> m mod 256 = n mod 256"
    unfolding sum_hex_def using unhex_hex by (metis append_same_eq list.inject option.inject same_append_eq)
  moreover have "m div 256 < 256" "n div 256 < 256" using assms by (simp_all add: less_mult_imp_div_less)
  ultimately show "m = n" by (metis div_mult_mod_eq mod_less)
qed simp

lemma char_sum_hex:
  "char_sum (sum_hex n) = 2880 + char_sum (example_hex [n div 256 mod 256, n mod 256])"
proof -
  have "char_sum (example_hex (replicate k 0)) = 96 * k" for k
    by (induction k) (simp_all add: example_hex_def hex_digit_def char_sum_simps)
  moreover have "example_hex (a @ b) = example_hex a @ example_hex b" for a b
    by (simp add: example_hex_def)
  ultimately show ?thesis by (simp only: sum_hex_def char_sum_simps(3))
qed

lemma example_payload_sums:
  "char_sum (signing_payload example_libs (new_coinbase example_libs ''V'' 7 5 2)) = 2797"
  "char_sum (signing_payload example_libs (new_coinbase example_libs ''V'' 7 5 3)) = 2798"
  by (simp_all add: new_coinbase_def signing_payload_def payload_map_def example_libs_def show_nat.simps
    COINBASE_ADDRESS_def example_json_def char_sum_simps)

lemma char_sum_hex2:
  "char_sum (sum_hex n) = 2880 + of_char (hex_digit (n div 256 mod 256 div 16)) + of_char (hex_digit (n div 256 mod 256 mod 16)) +
    of_char (hex_digit (n mod 256 div 16)) + of_char (hex_digit (n mod 256 mod 16))"
  unfolding char_sum_hex by (simp add: example_hex_def char_sum_simps)

lemma example_id_sums:
  "char_sum (compute_txid example_libs (new_coinbase example_libs ''V'' 7 5 2)) = 3226"
  "char_sum (compute_txid example_libs (new_coinbase example_libs ''V'' 7 5 3)) = 3227"
  unfolding compute_txid_hash example_hash example_payload_sums char_sum_hex2
  by (simp_all add: hex_digit_def)

lemma example_block_sums:
  "char_sum (block_payload example_libs (example_block 2)) = 6442"
  "char_sum (block_payload example_libs (example_block 3)) = 6444"
proof -
  have m: "char_sum (merkle_root example_libs [txid (new_coinbase example_libs ''V'' 7 5 ts)]) =
      char_sum (sum_hex (char_sum (compute_txid example_libs (new_coinbase example_libs ''V'' 7 5 ts))))" for ts
    by (simp add: merkle_root_def example_hash)
  have p: "char_sum (block_payload example_libs (example_block ts)) =
      char_sum (show_nat 5) + 64 * 48 + char_sum (merkle_root example_libs [txid (new_coinbase example_libs ''V'' 7 5 ts)]) +
      char_sum (show_nat ts) + 86" for ts
    by (simp add: block_payload_def example_block_def Block_new_def root_part_def STATE_ROOT_FORK_HEIGHT_def
      char_sum_simps char_sum_replicate del: new_coinbase_genuine)
  show "char_sum (block_payload example_libs (example_block 2)) = 6442"
    "char_sum (block_payload example_libs (example_block 3)) = 6444"
    unfolding p m example_id_sums char_sum_hex2
    by (simp_all add: hex_digit_def show_nat.simps char_sum_simps)
qed
lemma example_no_collision:
  "no_collision example_libs (hashed_strings example_libs (example_block 2) \<union> hashed_strings example_libs (example_block 3))"
proof -
  let ?cb = "\<lambda>ts. new_coinbase example_libs ''V'' 7 5 ts"
  have strings: "hashed_strings example_libs (example_block ts) =
      {block_payload example_libs (example_block ts), compute_txid example_libs (?cb ts), signing_payload example_libs (?cb ts)}" for ts
    by (auto simp: hashed_strings_def example_block_def Block_new_def merkle_inputs_def)
  show ?thesis
    unfolding strings no_collision_def example_hash
    by (simp add: inj_on_def sum_hex_inj example_block_sums example_id_sums example_payload_sums)
qed

lemma example_libs_hex: "hex_text example_libs"
proof -
  have zeros: "replicate 30 (0 :: nat) = 0 # replicate 29 0"
    using replicate_Suc [of 29 "0 :: nat"] by simp
  have c0: "char_of (48 :: nat) = CHR ''0''" by code_simp
  have shape: "sha256_hex example_libs d = CHR ''0'' # tl (sha256_hex example_libs d) \<and>
      length (sha256_hex example_libs d) = 64" for d
  proof
    show "length (sha256_hex example_libs d) = 64"
      by (simp add: sha256_hex_def example_libs_def length_example_hex)
    show "sha256_hex example_libs d = CHR ''0'' # tl (sha256_hex example_libs d)"
      unfolding sha256_hex_def example_libs_def by (simp add: zeros example_hex_def hex_digit_def c0)
  qed
  show ?thesis
    unfolding hex_text_def hex64_def
  proof (intro conjI allI)
    fix d show "length (sha256_hex example_libs d) = 64" using shape [of d] by simp
  next
    fix d show "\<not> starts_with (sha256_hex example_libs d) [CHR 0x7B]"
      by (subst shape [of d, THEN conjunct1]) (simp add: starts_with_def)
  qed
qed


text \<open>
  The checks do not make ids genuine: in a structurally valid block any transaction after the first
  can be replaced by any other that is not a coinbase, given the id of the one it replaces. The block
  still passes the structural checks, its hash is unchanged, and validation treats the replacement as it
  treats the original of that transaction: it never compares an id with the payload.
\<close>

theorem block_bodies_unbound:
  assumes "is_ok (validate_structure E b i p)" and "0 < k" and "k < length (transactions b)"
    and "\<not> is_coinbase t"
    and "t' = t\<lparr>txid := txid (transactions b ! k)\<rparr>" and "b' = b\<lparr>transactions := (transactions b)[k := t']\<rparr>"
  shows "is_ok (validate_structure E b' i p) \<and> calculate_hash E b' = calculate_hash E b \<and>
    blk_hash b' = blk_hash b \<and> tx_validate E t' n c = tx_validate E t n c"
proof -
  obtain cb txs where txs: "transactions b = cb # txs" "is_coinbase cb" "\<not> list_ex is_coinbase txs"
    using assms(1) by (auto simp: structure_ok_iff)
  have ids: "map txid ((transactions b)[k := t']) = map txid (transactions b)"
    using assms(3,5) by (simp add: map_update list_update_same_conv)
  obtain j where k: "k = Suc j" using assms(2) by (cases k) auto
  have "\<not> is_coinbase t'" using assms(4,5) by simp
  then have "\<not> list_ex is_coinbase (txs[j := t'])"
    using txs(3) set_update_subset_insert [of txs j t'] by (auto simp: list_ex_iff)
  moreover have hash: "calculate_hash E b' = calculate_hash E b"
    using assms(6) by (simp add: calculate_hash_def)
  ultimately have "is_ok (validate_structure E b' i p)"
    using assms(1,6) ids txs k by (auto simp: structure_ok_iff)
  with hash assms(5,6) show ?thesis by (simp add: validate_txid_irrelevant)
qed

definition example_tx :: "string \<Rightarrow> string \<Rightarrow> string \<Rightarrow> u64 \<Rightarrow> transaction" where
  "example_tx t from to amount =
    \<lparr>txid = t, from_address = from, to_address = to, tx_amount = amount, tx_fee = 10000, tx_nonce = 0,
     tx_data = [], tx_timestamp = 2, tx_chain_id = 7119, tx_signature = [], tx_public_key = []\<rparr>"

definition two_tx_block :: block where
  "two_tx_block = Block_new example_libs 2 5 ''P''
    [example_tx ''c'' COINBASE_ADDRESS ''V'' 7, example_tx ''x'' ''A'' ''B'' 1] ''V''"

theorem block_bodies_unbound_witness:
  "is_ok (validate_structure example_libs two_tx_block 5 ''P'') \<and>
   is_ok (validate_structure example_libs
     (two_tx_block\<lparr>transactions := [example_tx ''c'' COINBASE_ADDRESS ''V'' 7, example_tx ''x'' ''A'' ''C'' 900]\<rparr>) 5 ''P'') \<and>
   example_tx ''x'' ''A'' ''C'' 900 \<noteq> example_tx ''x'' ''A'' ''B'' 1"
proof -
  have ok: "is_ok (validate_structure example_libs two_tx_block 5 ''P'')"
    unfolding two_tx_block_def by (rule Block_new_structure) (simp_all add: example_tx_def is_coinbase_def COINBASE_ADDRESS_def)
  have "two_tx_block\<lparr>transactions := [example_tx ''c'' COINBASE_ADDRESS ''V'' 7, example_tx ''x'' ''A'' ''C'' 900]\<rparr> =
      two_tx_block\<lparr>transactions := (transactions two_tx_block)[1 := (example_tx ''n'' ''A'' ''C'' 900)
        \<lparr>txid := txid (transactions two_tx_block ! 1)\<rparr>]\<rparr>"
    by (simp add: two_tx_block_def Block_new_def example_tx_def)
  with block_bodies_unbound [OF ok, of 1 "example_tx ''n'' ''A'' ''C'' 900", OF _ _ _ refl refl, of 0 0] ok
  show ?thesis
    by (simp add: two_tx_block_def Block_new_def example_tx_def is_coinbase_def COINBASE_ADDRESS_def)
qed

end
