(* ===== verification/Nft.thy ===== *)
theory Nft
  imports Encoding Src20
begin

text \<open>
  The native NFT domain, crate \<open>sentrix-nft\<close>: tokens (\<open>token.rs\<close>), events (\<open>events.rs\<close>), errors
  (\<open>error.rs\<close>), collections with every method that changes them (\<open>collection.rs\<close>) and the registry
  (\<open>registry.rs\<close>). A method validates first and commits afterwards, so it is a function to an error
  or to the event and the new collection.
\<close>

section \<open>Errors and events\<close>

datatype nft_error =
    Unauthorized string
  | TokenAlreadyExists u64
  | TokenNotFound u64
  | NotOwner u64 string
  | NotTransferable u64
  | ErrTokenFrozen u64
  | ErrCollectionFrozen
  | MetadataLocked
  | MaxSupplyReached u64 u64
  | InvalidParams string
  | CollectionExists string
  | CollectionNotFound string
  | Overflow string

text \<open>The \<open>Display\<close> text of an error.\<close>

fun nft_error_text :: "nft_error \<Rightarrow> string" where
  "nft_error_text (Unauthorized s) = ''unauthorized: '' @ s"
| "nft_error_text (TokenAlreadyExists n) =
    ''token_id '' @ show_nat n @ '' already exists (ids are never reused after burn)''"
| "nft_error_text (TokenNotFound n) = ''token_id '' @ show_nat n @ '' not found''"
| "nft_error_text (NotOwner n s) = ''token_id '' @ show_nat n @ '': '' @ s @ '' is not the owner''"
| "nft_error_text (NotTransferable n) = ''token_id '' @ show_nat n @ '' is soulbound (non-transferable)''"
| "nft_error_text (ErrTokenFrozen n) = ''token_id '' @ show_nat n @ '' is frozen''"
| "nft_error_text ErrCollectionFrozen = ''collection is frozen''"
| "nft_error_text MetadataLocked = ''collection metadata is locked''"
| "nft_error_text (MaxSupplyReached a b) =
    ''max supply reached: '' @ show_nat a @ '' minted, max '' @ show_nat b"
| "nft_error_text (InvalidParams s) = ''invalid params: '' @ s"
| "nft_error_text (CollectionExists s) = ''collection '' @ s @ '' already exists''"
| "nft_error_text (CollectionNotFound s) = ''collection '' @ s @ '' not found''"
| "nft_error_text (Overflow s) = ''arithmetic overflow: '' @ s"

datatype nft_event =
    CollectionCreated string string string string
  | CollectionUpdated string
  | CollectionFrozen string
  | CollectionMetadataLocked string
  | TokenMinted string u64 string bool
  | TokenTransferred string u64 string string
  | TokenBurned string u64 string
  | TokenApproved string u64 string string
  | ApprovalForAll string string string bool
  | TokenUriUpdated string u64
  | TokenFrozen string u64
  | TokenUnfrozen string u64

section \<open>Tokens and collections\<close>

record nft_token =
  tk_collection_id :: string
  tk_token_id :: u64
  tk_owner :: string
  tk_uri :: string
  tk_uri_hash :: "string option"
  tk_metadata_hash :: "string option"
  tk_transferable :: bool
  tk_frozen :: bool
  tk_burned :: bool

definition NftToken_new :: "string \<Rightarrow> u64 \<Rightarrow> string \<Rightarrow> string \<Rightarrow> bool \<Rightarrow> nft_token" where
  "NftToken_new collection_id token_id owner uri transferable =
    \<lparr>tk_collection_id = collection_id, tk_token_id = token_id, tk_owner = owner, tk_uri = uri,
     tk_uri_hash = None, tk_metadata_hash = None, tk_transferable = transferable, tk_frozen = False,
     tk_burned = False\<rparr>"

definition mark_burned :: "nft_token \<Rightarrow> nft_token" where
  "mark_burned t = t\<lparr>tk_burned := True, tk_frozen := False\<rparr>"

record nft_collection =
  col_id :: string
  col_creator :: string
  col_admin :: string
  col_name :: string
  col_symbol :: string
  col_description :: string
  col_base_uri :: string
  col_external_url :: string
  col_max_supply :: "u64 option"
  col_total_supply :: u64
  col_total_minted :: u64
  col_default_transferable :: bool
  col_metadata_mutable :: bool
  col_frozen :: bool
  col_tokens :: "(u64, nft_token) hmap"
  col_balances :: "(string, u64) hmap"
  col_token_approvals :: "(u64, string) hmap"
  col_operator_approvals :: "(string, (string, bool) hmap) hmap"

definition NftCollection_new ::
  "string \<Rightarrow> string \<Rightarrow> string \<Rightarrow> string \<Rightarrow> string \<Rightarrow> u64 option \<Rightarrow> bool \<Rightarrow> bool \<Rightarrow> nft_collection" where
  "NftCollection_new cid creator name symbol base_uri max_supply default_transferable metadata_mutable =
    \<lparr>col_id = cid, col_creator = creator, col_admin = creator, col_name = name, col_symbol = symbol,
     col_description = [], col_base_uri = base_uri, col_external_url = [], col_max_supply = max_supply,
     col_total_supply = 0, col_total_minted = 0, col_default_transferable = default_transferable,
     col_metadata_mutable = metadata_mutable, col_frozen = False, col_tokens = [], col_balances = [],
     col_token_approvals = [], col_operator_approvals = []\<rparr>"

definition owner_of :: "nft_collection \<Rightarrow> u64 \<Rightarrow> string option" where
  "owner_of c token_id =
    (case hget (col_tokens c) token_id of
       Some t \<Rightarrow> if \<not> tk_burned t then Some (tk_owner t) else None
     | None \<Rightarrow> None)"

definition nft_balance_of :: "nft_collection \<Rightarrow> string \<Rightarrow> u64" where
  "nft_balance_of c address = (case hget (col_balances c) address of Some n \<Rightarrow> n | None \<Rightarrow> 0)"

definition get_approved :: "nft_collection \<Rightarrow> u64 \<Rightarrow> string option" where
  "get_approved c token_id = hget (col_token_approvals c) token_id"

definition is_approved_for_all :: "nft_collection \<Rightarrow> string \<Rightarrow> string \<Rightarrow> bool" where
  "is_approved_for_all c owner operator =
    (case hget (col_operator_approvals c) owner of
       None \<Rightarrow> False
     | Some m \<Rightarrow> (case hget m operator of Some b \<Rightarrow> b | None \<Rightarrow> False))"

definition token_uri :: "nft_collection \<Rightarrow> u64 \<Rightarrow> string" where
  "token_uri c token_id =
    (case hget (col_tokens c) token_id of
       Some t \<Rightarrow>
         if \<not> tk_burned t
         then if tk_uri t = [] then col_base_uri c @ show_nat token_id else tk_uri t
         else []
     | None \<Rightarrow> [])"

definition transfer_authorized :: "nft_collection \<Rightarrow> string \<Rightarrow> string \<Rightarrow> u64 \<Rightarrow> bool" where
  "transfer_authorized c caller owner token_id \<longleftrightarrow>
    caller = owner \<or> hget (col_token_approvals c) token_id = Some caller \<or>
    is_approved_for_all c owner caller"

definition live_owner :: "nft_collection \<Rightarrow> u64 \<Rightarrow> nft_error + string" where
  "live_owner c token_id =
    (case hget (col_tokens c) token_id of
       Some t \<Rightarrow> if \<not> tk_burned t then Inr (tk_owner t) else Inl (TokenNotFound token_id)
     | None \<Rightarrow> Inl (TokenNotFound token_id))"

section \<open>Methods\<close>

type_synonym nft_step = "nft_error + (nft_event \<times> nft_collection)"

text \<open>The \<open>?\<close> operator on a sum, and \<open>ok_or\<close> on an option.\<close>

definition and_then :: "nft_error + 'a \<Rightarrow> ('a \<Rightarrow> nft_error + 'b) \<Rightarrow> nft_error + 'b" where
  "and_then r k = (case r of Inl e \<Rightarrow> Inl e | Inr x \<Rightarrow> k x)"

definition or_err :: "'a option \<Rightarrow> nft_error \<Rightarrow> nft_error + 'a" where
  "or_err x e = (case x of None \<Rightarrow> Inl e | Some v \<Rightarrow> Inr v)"

definition nft_mint ::
  "nft_collection \<Rightarrow> string \<Rightarrow> string \<Rightarrow> u64 \<Rightarrow> string \<Rightarrow> bool option \<Rightarrow> nft_step" where
  "nft_mint c caller to token_id uri transferable =
    (if caller \<noteq> col_admin c then Inl (Unauthorized ''only the collection admin can mint'')
     else if to = [] then Inl (InvalidParams ''empty recipient'')
     else if hget (col_tokens c) token_id \<noteq> None then Inl (TokenAlreadyExists token_id)
     else if (case col_max_supply c of Some m \<Rightarrow> m \<le> col_total_minted c | None \<Rightarrow> False)
     then Inl (MaxSupplyReached (col_total_minted c) (the (col_max_supply c)))
     else
       let transf = (case transferable of Some b \<Rightarrow> b | None \<Rightarrow> col_default_transferable c)
       in and_then (or_err (checked_add_u64 (nft_balance_of c to) 1) (Overflow ''balance'')) (\<lambda>new_balance.
          and_then (or_err (checked_add_u64 (col_total_supply c) 1) (Overflow ''total_supply'')) (\<lambda>new_total_supply.
          and_then (or_err (checked_add_u64 (col_total_minted c) 1) (Overflow ''total_minted'')) (\<lambda>new_total_minted.
            Inr (TokenMinted (col_id c) token_id to transf,
              c\<lparr>col_tokens := hput (col_tokens c) token_id (NftToken_new (col_id c) token_id to uri transf),
                col_balances := hput (col_balances c) to new_balance,
                col_total_supply := new_total_supply,
                col_total_minted := new_total_minted\<rparr>)))))"

definition nft_transfer :: "nft_collection \<Rightarrow> string \<Rightarrow> string \<Rightarrow> string \<Rightarrow> u64 \<Rightarrow> nft_step" where
  "nft_transfer c caller from to token_id =
    (if from = [] \<or> to = [] then Inl (InvalidParams ''empty address'')
     else if from = to then Inl (InvalidParams ''cannot transfer to self'')
     else
       and_then (or_err (case hget (col_tokens c) token_id of
                      Some t \<Rightarrow> if \<not> tk_burned t then Some t else None
                    | None \<Rightarrow> None) (TokenNotFound token_id)) (\<lambda>token.
       if \<not> tk_transferable token then Inl (NotTransferable token_id)
       else if tk_frozen token then Inl (ErrTokenFrozen token_id)
       else if col_frozen c then Inl ErrCollectionFrozen
       else if tk_owner token \<noteq> from then Inl (NotOwner token_id from)
       else if \<not> transfer_authorized c caller from token_id
       then Inl (Unauthorized (caller @ '' cannot transfer token_id '' @ show_nat token_id))
       else
         and_then (or_err (checked_sub (nft_balance_of c from) 1) (Overflow ''transfer underflow'')) (\<lambda>new_from.
         and_then (or_err (checked_add_u64 (nft_balance_of c to) 1) (Overflow ''transfer overflow'')) (\<lambda>new_to.
           Inr (TokenTransferred (col_id c) token_id from to,
             c\<lparr>col_balances := hput (hput (col_balances c) from new_from) to new_to,
               col_tokens := hput (col_tokens c) token_id (token\<lparr>tk_owner := to\<rparr>),
               col_token_approvals := hdel (col_token_approvals c) token_id\<rparr>)))))"

definition nft_approve :: "nft_collection \<Rightarrow> string \<Rightarrow> string \<Rightarrow> u64 \<Rightarrow> nft_step" where
  "nft_approve c caller spender token_id =
    (if spender = [] then Inl (InvalidParams ''empty spender (use clear_approval)'')
     else and_then (live_owner c token_id) (\<lambda>owner.
       if caller \<noteq> owner \<and> \<not> is_approved_for_all c owner caller
       then Inl (Unauthorized (caller @ '' cannot approve token_id '' @ show_nat token_id))
       else Inr (TokenApproved (col_id c) token_id owner spender,
              c\<lparr>col_token_approvals := hput (col_token_approvals c) token_id spender\<rparr>)))"

definition clear_approval :: "nft_collection \<Rightarrow> string \<Rightarrow> u64 \<Rightarrow> nft_step" where
  "clear_approval c caller token_id =
    and_then (live_owner c token_id) (\<lambda>owner.
      if caller \<noteq> owner \<and> \<not> is_approved_for_all c owner caller
      then Inl (Unauthorized (caller @ '' cannot clear approval on token_id '' @ show_nat token_id))
      else Inr (TokenApproved (col_id c) token_id owner [],
             c\<lparr>col_token_approvals := hdel (col_token_approvals c) token_id\<rparr>))"

definition set_approval_for_all :: "nft_collection \<Rightarrow> string \<Rightarrow> string \<Rightarrow> string \<Rightarrow> bool \<Rightarrow> nft_step" where
  "set_approval_for_all c caller owner operator approved =
    (if owner = [] \<or> operator = [] then Inl (InvalidParams ''empty address'')
     else if caller \<noteq> owner
     then Inl (Unauthorized ''caller may only set operator approvals for itself'')
     else if owner = operator then Inl (InvalidParams ''cannot set operator for self'')
     else
       let m = (case hget (col_operator_approvals c) owner of Some m \<Rightarrow> m | None \<Rightarrow> [])
       in Inr (ApprovalForAll (col_id c) owner operator approved,
            c\<lparr>col_operator_approvals := hput (col_operator_approvals c) owner (hput m operator approved)\<rparr>))"

text \<open>Writing through \<open>get_mut\<close> where the entry exists.\<close>

definition upd_token :: "nft_collection \<Rightarrow> u64 \<Rightarrow> (nft_token \<Rightarrow> nft_token) \<Rightarrow> nft_collection" where
  "upd_token c token_id f =
    (case hget (col_tokens c) token_id of
       Some t \<Rightarrow> c\<lparr>col_tokens := hput (col_tokens c) token_id (f t)\<rparr>
     | None \<Rightarrow> c)"

definition nft_burn :: "nft_collection \<Rightarrow> string \<Rightarrow> u64 \<Rightarrow> nft_step" where
  "nft_burn c caller token_id =
    and_then (live_owner c token_id) (\<lambda>owner.
      if caller \<noteq> owner \<and> caller \<noteq> col_admin c
      then Inl (Unauthorized (''only owner or admin can burn token_id '' @ show_nat token_id))
      else
        and_then (or_err (checked_sub (nft_balance_of c owner) 1) (Overflow ''burn underflow'')) (\<lambda>new_balance.
        and_then (or_err (checked_sub (col_total_supply c) 1) (Overflow ''total_supply underflow'')) (\<lambda>new_total_supply.
          Inr (TokenBurned (col_id c) token_id owner,
            upd_token
              (c\<lparr>col_balances := hput (col_balances c) owner new_balance,
                 col_total_supply := new_total_supply,
                 col_token_approvals := hdel (col_token_approvals c) token_id\<rparr>)
              token_id mark_burned))))"

definition update_token_uri :: "nft_collection \<Rightarrow> string \<Rightarrow> u64 \<Rightarrow> string \<Rightarrow> nft_step" where
  "update_token_uri c caller token_id new_uri =
    (if col_frozen c then Inl ErrCollectionFrozen
     else if \<not> col_metadata_mutable c then Inl MetadataLocked
     else and_then (live_owner c token_id) (\<lambda>owner.
       if caller \<noteq> col_admin c \<and> caller \<noteq> owner
       then Inl (Unauthorized (caller @ '' cannot update token_id '' @ show_nat token_id @ '' uri''))
       else if (case hget (col_tokens c) token_id of Some t \<Rightarrow> tk_frozen t | None \<Rightarrow> False)
       then Inl (ErrTokenFrozen token_id)
       else Inr (TokenUriUpdated (col_id c) token_id, upd_token c token_id (\<lambda>t. t\<lparr>tk_uri := new_uri\<rparr>))))"

definition update_collection_metadata ::
  "nft_collection \<Rightarrow> string \<Rightarrow> string option \<Rightarrow> string option \<Rightarrow> string option \<Rightarrow> nft_step" where
  "update_collection_metadata c caller description base_uri external_url =
    (if caller \<noteq> col_admin c then Inl (Unauthorized ''only admin can update metadata'')
     else if col_frozen c then Inl ErrCollectionFrozen
     else if \<not> col_metadata_mutable c then Inl MetadataLocked
     else
       let c1 = (case description of Some d \<Rightarrow> c\<lparr>col_description := d\<rparr> | None \<Rightarrow> c);
           c2 = (case base_uri of Some b \<Rightarrow> c1\<lparr>col_base_uri := b\<rparr> | None \<Rightarrow> c1);
           c3 = (case external_url of Some e \<Rightarrow> c2\<lparr>col_external_url := e\<rparr> | None \<Rightarrow> c2)
       in Inr (CollectionUpdated (col_id c), c3))"

definition freeze_collection :: "nft_collection \<Rightarrow> string \<Rightarrow> nft_step" where
  "freeze_collection c caller =
    (if caller \<noteq> col_admin c then Inl (Unauthorized ''only admin can freeze'')
     else Inr (CollectionFrozen (col_id c), c\<lparr>col_frozen := True\<rparr>))"

definition lock_metadata :: "nft_collection \<Rightarrow> string \<Rightarrow> nft_step" where
  "lock_metadata c caller =
    (if caller \<noteq> col_admin c then Inl (Unauthorized ''only admin can lock metadata'')
     else Inr (CollectionMetadataLocked (col_id c), c\<lparr>col_metadata_mutable := False\<rparr>))"

definition set_token_frozen :: "nft_collection \<Rightarrow> string \<Rightarrow> u64 \<Rightarrow> bool \<Rightarrow> nft_step" where
  "set_token_frozen c caller token_id frozen =
    (if caller \<noteq> col_admin c then Inl (Unauthorized ''only admin can freeze tokens'')
     else and_then (live_owner c token_id) (\<lambda>owner.
       Inr ((if frozen then TokenFrozen (col_id c) token_id else TokenUnfrozen (col_id c) token_id),
         upd_token c token_id (\<lambda>t. t\<lparr>tk_frozen := frozen\<rparr>))))"

section \<open>Registry\<close>

definition compute_collection_id :: "(u8 list \<Rightarrow> u8 list) \<Rightarrow> (u8 list \<Rightarrow> string) \<Rightarrow> string \<Rightarrow> string \<Rightarrow> string" where
  "compute_collection_id sha hex creator seed =
    (let hash = sha (be_bytes 8 (length creator) @ str_bytes creator @ be_bytes 8 (length seed) @ str_bytes seed)
     in ''SRC721_'' @ hex (take 20 hash))"

type_synonym nft_registry = "(string, nft_collection) hmap"

definition deploy_collection ::
  "(u8 list \<Rightarrow> u8 list) \<Rightarrow> (u8 list \<Rightarrow> string) \<Rightarrow> nft_registry \<Rightarrow> string \<Rightarrow> string \<Rightarrow> string \<Rightarrow> string \<Rightarrow>
    u64 option \<Rightarrow> bool \<Rightarrow> bool \<Rightarrow> string \<Rightarrow> nft_error + ((string \<times> nft_event) \<times> nft_registry)" where
  "deploy_collection sha hex r creator name symbol base_uri max_supply default_transferable metadata_mutable seed =
    (if creator = [] then Inl (InvalidParams ''empty creator'')
     else if name = [] \<or> 64 < length name
     then Inl (InvalidParams (''name must be 1'' @ en_dash @ ''64 bytes''))
     else if symbol = [] \<or> 10 < length symbol \<or> \<not> list_all ascii_alphanumeric symbol
     then Inl (InvalidParams (''symbol must be 1'' @ en_dash @ ''10 ASCII alphanumeric chars''))
     else if max_supply = Some 0
     then Inl (InvalidParams ''max_supply cannot be 0 (use None for unlimited)'')
     else
       let cid = compute_collection_id sha hex creator seed
       in if hget r cid \<noteq> None then Inl (CollectionExists cid)
          else Inr ((cid, CollectionCreated cid creator name symbol),
                 hput r cid (NftCollection_new cid creator name symbol base_uri max_supply
                   default_transferable metadata_mutable)))"

definition collection_exists :: "nft_registry \<Rightarrow> string \<Rightarrow> bool" where
  "collection_exists r cid \<longleftrightarrow> hget r cid \<noteq> None"

definition collection_count :: "nft_registry \<Rightarrow> usize" where
  "collection_count r = length r"

section \<open>Calls\<close>

datatype nft_op =
    NMint string u64 string "bool option"
  | NTransfer string string u64
  | NApprove string u64
  | NClear u64
  | NOperator string string bool
  | NBurn u64
  | NTokenUri u64 string
  | NMetadata "string option" "string option" "string option"
  | NFreeze
  | NLock
  | NFreezeToken u64 bool

fun nft_call :: "nft_collection \<Rightarrow> string \<Rightarrow> nft_op \<Rightarrow> nft_step" where
  "nft_call c caller (NMint to n uri tr) = nft_mint c caller to n uri tr"
| "nft_call c caller (NTransfer from to n) = nft_transfer c caller from to n"
| "nft_call c caller (NApprove spender n) = nft_approve c caller spender n"
| "nft_call c caller (NClear n) = clear_approval c caller n"
| "nft_call c caller (NOperator owner operator b) = set_approval_for_all c caller owner operator b"
| "nft_call c caller (NBurn n) = nft_burn c caller n"
| "nft_call c caller (NTokenUri n uri) = update_token_uri c caller n uri"
| "nft_call c caller (NMetadata d b e) = update_collection_metadata c caller d b e"
| "nft_call c caller NFreeze = freeze_collection c caller"
| "nft_call c caller NLock = lock_metadata c caller"
| "nft_call c caller (NFreezeToken n b) = set_token_frozen c caller n b"

text \<open>A rejected call leaves the collection as it was.\<close>

definition nft_after :: "nft_collection \<Rightarrow> string \<times> nft_op \<Rightarrow> nft_collection" where
  "nft_after c e = (case nft_call c (fst e) (snd e) of Inl err \<Rightarrow> c | Inr (ev, c') \<Rightarrow> c')"

lemma and_then_Inr: "and_then r k = Inr y \<longleftrightarrow> (\<exists>x. r = Inr x \<and> k x = Inr y)"
  by (cases r) (auto simp: and_then_def)

lemma or_err_Inr: "or_err x e = Inr v \<longleftrightarrow> x = Some v"
  by (cases x) (auto simp: or_err_def)

lemma live_owner_Inr: "live_owner c n = Inr a \<longleftrightarrow> owner_of c n = Some a"
  by (auto simp: live_owner_def owner_of_def split: option.splits)

lemma owner_of_Some:
  "owner_of c n = Some a \<longleftrightarrow> (\<exists>t. hget (col_tokens c) n = Some t \<and> \<not> tk_burned t \<and> tk_owner t = a)"
  by (auto simp: owner_of_def split: option.splits)

lemmas nft_results = and_then_Inr or_err_Inr live_owner_Inr

section \<open>Counting tokens\<close>

definition is_live :: "nft_token \<Rightarrow> nat" where
  "is_live t = (if tk_burned t then 0 else 1)"

definition held_by :: "string \<Rightarrow> nft_token \<Rightarrow> nat" where
  "held_by a t = (if \<not> tk_burned t \<and> tk_owner t = a then 1 else 0)"

definition live_tokens :: "nft_collection \<Rightarrow> nat" where
  "live_tokens c = map_sum is_live (col_tokens c)"

definition tokens_held :: "nft_collection \<Rightarrow> string \<Rightarrow> nat" where
  "tokens_held c a = map_sum (held_by a) (col_tokens c)"

definition nft_inv :: "nft_collection \<Rightarrow> bool" where
  "nft_inv c \<longleftrightarrow>
    wf_map (col_tokens c) \<and>
    col_total_supply c = live_tokens c \<and>
    col_total_minted c = length (col_tokens c) \<and>
    (\<forall>a. nft_balance_of c a = tokens_held c a) \<and>
    (\<forall>m. col_max_supply c = Some m \<longrightarrow> length (col_tokens c) \<le> m)"

lemma nft_invD:
  assumes "nft_inv c"
  shows "wf_map (col_tokens c)" "col_total_supply c = live_tokens c" "col_total_minted c = length (col_tokens c)"
    "nft_balance_of c a = tokens_held c a" "col_max_supply c = Some m \<Longrightarrow> length (col_tokens c) \<le> m"
  using assms by (simp_all add: nft_inv_def)

lemma nft_inv_new: "nft_inv (NftCollection_new cid creator name symbol uri m tr mut)"
  by (simp add: nft_inv_def NftCollection_new_def live_tokens_def tokens_held_def nft_balance_of_def)

text \<open>A change that keeps owners, tombstones and counters keeps the invariant.\<close>

lemma length_hput: "length (hput m k v) = (if hget m k = None then Suc (length m) else length m)"
  by (induction m) auto

lemma nft_inv_same:
  assumes "nft_inv c" and "col_tokens c' = col_tokens c" "col_balances c' = col_balances c"
    "col_total_supply c' = col_total_supply c" "col_total_minted c' = col_total_minted c"
    "col_max_supply c' = col_max_supply c"
  shows "nft_inv c'"
  using assms by (simp add: nft_inv_def live_tokens_def tokens_held_def nft_balance_of_def)

lemma nft_inv_upd_token:
  assumes "nft_inv c" and "\<And>t. tk_burned (f t) = tk_burned t \<and> tk_owner (f t) = tk_owner t"
  shows "nft_inv (upd_token c n f)"
proof (cases "hget (col_tokens c) n")
  case None
  with assms(1) show ?thesis by (simp add: upd_token_def)
next
  case (Some t)
  have "map_sum g (hput (col_tokens c) n (f t)) = map_sum g (col_tokens c)" if "g (f t) = g t" for g
    using map_sum_hput_upd [OF Some, of g "f t"] that by simp
  moreover have "is_live (f t) = is_live t" "held_by a (f t) = held_by a t" for a
    using assms(2) [of t] by (simp_all add: is_live_def held_by_def)
  ultimately show ?thesis
    using assms(1) Some
    by (simp add: upd_token_def nft_inv_def live_tokens_def tokens_held_def nft_balance_of_def length_hput)
qed

lemma balance_hput:
  "nft_balance_of (c\<lparr>col_balances := hput b k v\<rparr>) a = (if a = k then v else nft_balance_of (c\<lparr>col_balances := b\<rparr>) a)"
  by (simp add: nft_balance_of_def hget_hput)

lemma nft_invI:
  assumes "nft_inv c" and "wf_map (col_tokens c')" and "col_total_supply c' = live_tokens c'"
    and "col_total_minted c' = length (col_tokens c')" and "\<And>a. nft_balance_of c' a = tokens_held c' a"
    and "col_max_supply c' = col_max_supply c"
    and "\<And>m. col_max_supply c = Some m \<Longrightarrow> length (col_tokens c) \<le> m \<Longrightarrow> length (col_tokens c') \<le> m"
  shows "nft_inv c'"
  using assms unfolding nft_inv_def by simp

lemma nft_mint_inv:
  assumes inv: "nft_inv c" and call: "nft_mint c caller to n uri tr = Inr (ev, c')"
  shows "nft_inv c'"
proof -
  from call obtain b where new: "hget (col_tokens c) n = None"
    and room: "\<not> (case col_max_supply c of Some m \<Rightarrow> m \<le> col_total_minted c | None \<Rightarrow> False)"
    and c': "c' = c\<lparr>col_tokens := hput (col_tokens c) n (NftToken_new (col_id c) n to uri b),
      col_balances := hput (col_balances c) to (nft_balance_of c to + 1),
      col_total_supply := col_total_supply c + 1, col_total_minted := col_total_minted c + 1\<rparr>"
    by (auto simp: nft_mint_def nft_results split: if_splits)
  have t: "is_live (NftToken_new (col_id c) n to uri b) = 1"
      "held_by a (NftToken_new (col_id c) n to uri b) = (if a = to then 1 else 0)" for a
    by (simp_all add: is_live_def held_by_def NftToken_new_def)
  have held: "nft_balance_of c' a = tokens_held c' a" for a
    using nft_invD(4) [OF inv, of a] nft_invD(4) [OF inv, of to]
    by (simp add: c' tokens_held_def map_sum_hput_new [OF new] t nft_balance_of_def hget_hput)
  show ?thesis
    by (rule nft_invI [OF inv])
      (use inv new room held in \<open>simp_all add: c' nft_invD live_tokens_def map_sum_hput_new t length_hput split: option.splits\<close>)
qed

lemma nft_transfer_inv:
  assumes inv: "nft_inv c" and call: "nft_transfer c caller from to n = Inr (ev, c')"
  shows "nft_inv c'"
proof -
  from call obtain t where t: "hget (col_tokens c) n = Some t" "\<not> tk_burned t" "tk_owner t = from" and "from \<noteq> to"
    and c': "c' = c\<lparr>col_balances := hput (hput (col_balances c) from (nft_balance_of c from - 1)) to (nft_balance_of c to + 1),
      col_tokens := hput (col_tokens c) n (t\<lparr>tk_owner := to\<rparr>),
      col_token_approvals := hdel (col_token_approvals c) n\<rparr>"
    and pos: "1 \<le> nft_balance_of c from"
    by (auto simp: nft_transfer_def nft_results split: if_splits option.splits)
  have upd: "map_sum g (hput (col_tokens c) n (t\<lparr>tk_owner := to\<rparr>)) + g t = map_sum g (col_tokens c) + g (t\<lparr>tk_owner := to\<rparr>)" for g
    by (rule map_sum_hput_upd [OF t(1)])
  have held: "nft_balance_of c' a = tokens_held c' a" for a
    using nft_invD(4) [OF inv, of a] upd [of "held_by a"] t(2,3) \<open>from \<noteq> to\<close> pos
    by (auto simp: c' tokens_held_def nft_balance_of_def hget_hput held_by_def split: if_splits)
  show ?thesis
    by (rule nft_invI [OF inv])
      (use inv t upd [of is_live] held in \<open>simp_all add: c' nft_invD live_tokens_def is_live_def length_hput\<close>)
qed

lemma nft_burn_inv:
  assumes inv: "nft_inv c" and call: "nft_burn c caller n = Inr (ev, c')"
  shows "nft_inv c'"
proof -
  from call obtain t where t: "hget (col_tokens c) n = Some t" "\<not> tk_burned t"
    and c': "c' = c\<lparr>col_balances := hput (col_balances c) (tk_owner t) (nft_balance_of c (tk_owner t) - 1),
      col_total_supply := col_total_supply c - 1,
      col_token_approvals := hdel (col_token_approvals c) n, col_tokens := hput (col_tokens c) n (mark_burned t)\<rparr>"
    and pos: "1 \<le> nft_balance_of c (tk_owner t)" "1 \<le> col_total_supply c"
    by (auto simp: nft_burn_def nft_results owner_of_Some upd_token_def split: if_splits)
  have upd: "map_sum g (hput (col_tokens c) n (mark_burned t)) + g t = map_sum g (col_tokens c) + g (mark_burned t)" for g
    by (rule map_sum_hput_upd [OF t(1)])
  have held: "nft_balance_of c' a = tokens_held c' a" for a
    using nft_invD(4) [OF inv, of a] upd [of "held_by a"] t(2) pos
    by (auto simp: c' tokens_held_def nft_balance_of_def hget_hput held_by_def mark_burned_def split: if_splits)
  show ?thesis
    by (rule nft_invI [OF inv])
      (use inv t upd [of is_live] pos held in
        \<open>simp_all add: c' nft_invD live_tokens_def is_live_def mark_burned_def length_hput\<close>)
qed

end
