(* ===== verification/Nft_Thms.thy ===== *)
theory Nft_Thms
  imports Nft
begin

text \<open>
  Histories of native NFTs: every method keeps the counters of its collection exact, and no sequence
  of calls reuses an id, revives a burned token or moves a soulbound one.
\<close>

lemma nft_call_inv:
  assumes inv: "nft_inv c" and call: "nft_call c caller op = Inr (ev, c')"
  shows "nft_inv c'"
proof (cases op)
  case (NMint to n uri tr)
  with inv call show ?thesis by (auto intro: nft_mint_inv)
next
  case (NTransfer src dst n)
  with inv call show ?thesis by (auto intro: nft_transfer_inv)
next
  case (NBurn n)
  with inv call show ?thesis by (auto intro: nft_burn_inv)
next
  case (NTokenUri n uri)
  with call have "c' = upd_token c n (\<lambda>t. t\<lparr>tk_uri := uri\<rparr>)"
    by (auto simp: update_token_uri_def nft_results split: if_splits)
  with inv show ?thesis by (simp add: nft_inv_upd_token)
next
  case (NFreezeToken n b)
  with call have "c' = upd_token c n (\<lambda>t. t\<lparr>tk_frozen := b\<rparr>)"
    by (auto simp: set_token_frozen_def nft_results split: if_splits)
  with inv show ?thesis by (simp add: nft_inv_upd_token)
qed (use call in \<open>auto intro!: nft_inv_same [OF inv] simp: nft_approve_def clear_approval_def set_approval_for_all_def
  update_collection_metadata_def freeze_collection_def lock_metadata_def nft_results split: if_splits option.splits\<close>)

section \<open>Histories of tokens\<close>

text \<open>
  What no call can undo: an id stays taken, a tombstone stays one and keeps its last owner, the
  transferability of a token is fixed, and a soulbound token keeps its owner.
\<close>

definition token_later :: "nft_token \<Rightarrow> nft_token \<Rightarrow> bool" where
  "token_later t t' \<longleftrightarrow>
    tk_transferable t' = tk_transferable t \<and> (tk_burned t \<longrightarrow> tk_burned t') \<and>
    (tk_burned t \<or> \<not> tk_transferable t \<longrightarrow> tk_owner t' = tk_owner t)"

definition col_later :: "nft_collection \<Rightarrow> nft_collection \<Rightarrow> bool" where
  "col_later c c' \<longleftrightarrow>
    (\<forall>n t. hget (col_tokens c) n = Some t \<longrightarrow> (\<exists>t'. hget (col_tokens c') n = Some t' \<and> token_later t t'))"

lemma token_later_refl [simp]: "token_later t t"
  by (simp add: token_later_def)

lemma token_later_trans: "token_later t u \<Longrightarrow> token_later u v \<Longrightarrow> token_later t v"
  by (auto simp: token_later_def)

lemma col_later_trans: "col_later c d \<Longrightarrow> col_later d e \<Longrightarrow> col_later c e"
  unfolding col_later_def by (metis token_later_trans)

lemma col_later_same: "col_tokens c' = col_tokens c \<Longrightarrow> col_later c c'"
  by (simp add: col_later_def)

lemma col_later_hput:
  assumes "col_tokens c' = hput (col_tokens c) n v"
    and "\<And>t. hget (col_tokens c) n = Some t \<Longrightarrow> token_later t v"
  shows "col_later c c'"
  using assms by (auto simp: col_later_def hget_hput)

lemma col_later_put:
  assumes "hget (col_tokens c) n = Some t" "token_later t v" "col_tokens c' = hput (col_tokens c) n v"
  shows "col_later c c'"
  using assms by (auto simp: col_later_def hget_hput)

lemma col_later_upd_token: "(\<And>t. token_later t (f t)) \<Longrightarrow> col_later c (upd_token c n f)"
  by (cases "hget (col_tokens c) n") (auto simp: upd_token_def intro: col_later_same col_later_hput)

lemma nft_call_later:
  assumes call: "nft_call c caller op = Inr (ev, c')"
  shows "col_later c c'"
proof (cases op)
  case (NMint to n uri tr)
  with call obtain v where v: "col_tokens c' = hput (col_tokens c) n v" and new: "hget (col_tokens c) n = None"
    by (auto simp: nft_mint_def nft_results split: if_splits)
  show ?thesis by (rule col_later_hput [OF v]) (simp add: new)
next
  case (NTransfer src dst n)
  with call obtain t where t: "hget (col_tokens c) n = Some t" "\<not> tk_burned t" "tk_transferable t"
    "col_tokens c' = hput (col_tokens c) n (t\<lparr>tk_owner := dst\<rparr>)"
    by (auto simp: nft_transfer_def nft_results split: if_splits option.splits)
  show ?thesis by (rule col_later_put [OF t(1) _ t(4)]) (simp add: token_later_def t)
next
  case (NBurn n)
  with call obtain t where t: "hget (col_tokens c) n = Some t" "col_tokens c' = hput (col_tokens c) n (mark_burned t)"
    by (auto simp: nft_burn_def nft_results owner_of_Some upd_token_def split: if_splits)
  show ?thesis by (rule col_later_put [OF t(1) _ t(2)]) (simp add: token_later_def mark_burned_def)
next
  case (NTokenUri n uri)
  with call have "c' = upd_token c n (\<lambda>t. t\<lparr>tk_uri := uri\<rparr>)"
    by (auto simp: update_token_uri_def nft_results split: if_splits)
  then show ?thesis by (auto simp: token_later_def intro: col_later_upd_token)
next
  case (NFreezeToken n b)
  with call have "c' = upd_token c n (\<lambda>t. t\<lparr>tk_frozen := b\<rparr>)"
    by (auto simp: set_token_frozen_def nft_results split: if_splits)
  then show ?thesis by (auto simp: token_later_def intro: col_later_upd_token)
qed (use call in \<open>auto intro!: col_later_same simp: nft_approve_def clear_approval_def set_approval_for_all_def
  update_collection_metadata_def freeze_collection_def lock_metadata_def nft_results split: if_splits option.splits\<close>)

section \<open>Sequences of calls\<close>

definition nft_init :: "nft_collection \<Rightarrow> bool" where
  "nft_init c \<longleftrightarrow> (\<exists>cid creator name symbol uri m tr mut. c = NftCollection_new cid creator name symbol uri m tr mut)"

definition nft_trans :: "nft_collection \<Rightarrow> string \<times> nft_op \<Rightarrow> nft_collection \<Rightarrow> bool" where
  "nft_trans c e c' \<longleftrightarrow> c' = nft_after c e"

interpretation nfts: transition_system nft_init nft_trans nft_inv
proof
  fix c assume "nft_init c"
  then show "nft_inv c" by (auto simp: nft_init_def nft_inv_new)
next
  fix c e c' assume "nft_inv c" "nft_trans c e c'"
  then show "nft_inv c'"
    by (auto simp: nft_trans_def nft_after_def intro: nft_call_inv split: sum.split)
qed

lemma nft_run_steps: "nfts.steps c es (foldl nft_after c es)"
  by (induction es arbitrary: c) (auto simp: nft_trans_def intro: nfts.steps.intros)

lemma nft_run_later: "col_later c (foldl nft_after c es)"
proof (induction es arbitrary: c)
  case (Cons e es)
  have "col_later c (nft_after c e)"
    by (auto simp: nft_after_def col_later_same intro: nft_call_later split: sum.split)
  then show ?case using Cons.IH [of "nft_after c e"] by (simp add: col_later_trans)
qed (simp add: col_later_same)

text \<open>
  Ownership of native NFTs is exact over any history (C33): after any sequence of calls by anybody on a new
  collection, the supply is the number of live tokens, the balance of every address is the number of
  live tokens it owns, and the mint counter is the number of ids ever minted and within the maximum.
  Between any two points of that history an id stays taken, a burned token stays burned, and a soulbound
  token keeps its owner.
\<close>

theorem nft_ownership_exact:
  assumes "c = foldl nft_after (NftCollection_new cid creator name symbol uri max_supply tr mut) es"
    and "c' = foldl nft_after c es'"
  shows "col_total_supply c' = live_tokens c' \<and> (\<forall>a. nft_balance_of c' a = tokens_held c' a) \<and>
    col_total_minted c' = length (col_tokens c') \<and> distinct (hkeys (col_tokens c')) \<and>
    (\<forall>m. col_max_supply c' = Some m \<longrightarrow> col_total_minted c' \<le> m) \<and>
    (\<forall>n t. hget (col_tokens c) n = Some t \<longrightarrow> (\<exists>t'. hget (col_tokens c') n = Some t' \<and>
      tk_transferable t' = tk_transferable t \<and> (tk_burned t \<longrightarrow> tk_burned t') \<and>
      (tk_burned t \<or> \<not> tk_transferable t \<longrightarrow> tk_owner t' = tk_owner t)))"
proof -
  have "nft_inv c"
    unfolding assms(1) by (rule nfts.steps_inv [OF nft_run_steps nft_inv_new])
  then have inv: "nft_inv c'"
    unfolding assms(2) by (rule nfts.steps_inv [OF nft_run_steps])
  have "col_later c c'"
    unfolding assms(2) by (rule nft_run_later)
  with inv show ?thesis
    by (auto simp: nft_inv_def wf_map_def col_later_def token_later_def)
qed

definition example_collection :: nft_collection where
  "example_collection = foldl nft_after (NftCollection_new ''C'' ''A'' ''n'' ''S'' [] (Some 2) True True)
    [(''A'', NMint ''B'' 5 [] (Some False))]"

theorem nft_ownership_exact_witness:
  "hget (col_tokens example_collection) 5 = Some (NftToken_new ''C'' 5 ''B'' [] False) \<and>
   (\<exists>t'. hget (col_tokens (nft_after example_collection (''B'', NTransfer ''B'' ''D'' 5))) 5 = Some t' \<and> tk_owner t' = ''B'')"
proof -
  have token: "hget (col_tokens example_collection) 5 = Some (NftToken_new ''C'' 5 ''B'' [] False)"
    by (simp add: example_collection_def nft_after_def nft_mint_def NftCollection_new_def and_then_def or_err_def
      nft_balance_of_def checked_add_u64_def U64_MAX_def)
  with nft_ownership_exact [OF example_collection_def refl, of "[(''B'', NTransfer ''B'' ''D'' 5)]"]
  have "\<exists>t'. hget (col_tokens (nft_after example_collection (''B'', NTransfer ''B'' ''D'' 5))) 5 = Some t' \<and> tk_owner t' = ''B''"
    by (force simp: NftToken_new_def)
  with token show ?thesis by simp
qed

end
