(* ===== verification/Address.thy ===== *)
theory Address
  imports Transaction
begin

text \<open>
  Address validation and the parameters of the chain: \<open>sentrix-core/src/address.rs\<close> and
  \<open>chain_params.rs\<close>.
\<close>

definition ascii_hexdigit :: "char \<Rightarrow> bool" where
  "ascii_hexdigit c \<longleftrightarrow>
    (let n = (of_char c :: nat) in 48 \<le> n \<and> n \<le> 57 \<or> 65 \<le> n \<and> n \<le> 70 \<or> 97 \<le> n \<and> n \<le> 102)"

definition is_valid_sentrix_address :: "string \<Rightarrow> bool" where
  "is_valid_sentrix_address addr \<longleftrightarrow>
    length addr = 42 \<and> starts_with addr ''0x'' \<and> list_all ascii_hexdigit (drop 2 addr)"

definition ZERO_ADDRESS :: string where
  "ZERO_ADDRESS = ''0x0000000000000000000000000000000000000000''"

definition is_spendable_sentrix_address :: "string \<Rightarrow> bool" where
  "is_spendable_sentrix_address addr \<longleftrightarrow> is_valid_sentrix_address addr \<and> addr \<noteq> ZERO_ADDRESS"

definition ECOSYSTEM_FUND_ADDRESS :: string where
  "ECOSYSTEM_FUND_ADDRESS = ''0xeb70fdefd00fdb768dec06c478f450c351499f14''"

definition TOTAL_PREMINE :: u64 where "TOTAL_PREMINE = 63000000 * 100000000"

definition MAX_TX_PER_BLOCK :: usize where "MAX_TX_PER_BLOCK = 5000"

definition CHAIN_ID :: u64 where "CHAIN_ID = 7119"

definition CHAIN_WINDOW_SIZE :: usize where "CHAIN_WINDOW_SIZE = 1000"

lemma zero_address_valid: "is_valid_sentrix_address ZERO_ADDRESS"
  by (simp add: is_valid_sentrix_address_def ZERO_ADDRESS_def starts_with_def ascii_hexdigit_def)

lemma coinbase_not_valid: "\<not> is_valid_sentrix_address COINBASE_ADDRESS"
  by (simp add: is_valid_sentrix_address_def COINBASE_ADDRESS_def)

end
