(* ===== verification/Authority.thy ===== *)
theory Authority
  imports Address
begin

text \<open>
  The proof-of-authority validator set, \<open>sentrix-core/src/authority.rs\<close>: round-robin selection and
  the administrator's operations with their log. The wall clock is a parameter \<open>now\<close>. The lemmas
  show that every height has one producer, that consecutive heights give every active validator its
  turn, and that the administrator can never empty the active set.
\<close>

definition MIN_ACTIVE_VALIDATORS :: usize where "MIN_ACTIVE_VALIDATORS = 1"

definition MAX_ADMIN_LOG_SIZE :: usize where "MAX_ADMIN_LOG_SIZE = 10000"

record admin_event =
  ae_operation :: string
  ae_caller :: string
  ae_target_address :: string
  ae_target_name :: string
  ae_timestamp :: u64

record pioneer =
  pio_address :: string
  pio_name :: string
  pio_public_key :: string
  pio_registered_at :: u64
  pio_blocks_produced :: u64
  pio_is_active :: bool
  pio_last_block_time :: u64

definition Validator_new :: "u64 \<Rightarrow> string \<Rightarrow> string \<Rightarrow> string \<Rightarrow> pioneer" where
  "Validator_new now address name public_key =
    \<lparr>pio_address = address, pio_name = name, pio_public_key = public_key, pio_registered_at = now,
     pio_blocks_produced = 0, pio_is_active = True, pio_last_block_time = 0\<rparr>"

record authority_manager =
  pioneers :: "(string, pioneer) hmap"
  admin_address :: string
  admin_log :: "admin_event list"

definition AuthorityManager_new :: "string \<Rightarrow> authority_manager" where
  "AuthorityManager_new admin = \<lparr>pioneers = [], admin_address = admin, admin_log = []\<rparr>"

definition address_le :: "pioneer \<Rightarrow> pioneer \<Rightarrow> bool" where
  "address_le a b \<longleftrightarrow> pio_address a \<le> pio_address b"

definition active_validators :: "authority_manager \<Rightarrow> pioneer list" where
  "active_validators m = sort_by address_le (filter pio_is_active (hvalues (pioneers m)))"

definition all_validators :: "authority_manager \<Rightarrow> pioneer list" where
  "all_validators m = sort_by address_le (hvalues (pioneers m))"

definition expected_validator :: "authority_manager \<Rightarrow> u64 \<Rightarrow> pioneer result" where
  "expected_validator m block_height =
    (let active = active_validators m
     in if active = [] then Err NoActiveValidators
        else Ok (active ! (block_height mod length active)))"

definition is_authorized :: "authority_manager \<Rightarrow> string \<Rightarrow> u64 \<Rightarrow> bool result" where
  "is_authorized m address block_height =
    (case expected_validator m block_height of
       Err e \<Rightarrow> Err e
     | Ok v \<Rightarrow> Ok (pio_address v = address))"

definition is_active_validator :: "authority_manager \<Rightarrow> string \<Rightarrow> bool" where
  "is_active_validator m address =
    (case hget (pioneers m) address of Some v \<Rightarrow> pio_is_active v | None \<Rightarrow> False)"

definition trim_admin_log :: "authority_manager \<Rightarrow> authority_manager" where
  "trim_admin_log m =
    (if MAX_ADMIN_LOG_SIZE < length (admin_log m)
     then m\<lparr>admin_log := drop (length (admin_log m) - MAX_ADMIN_LOG_SIZE) (admin_log m)\<rparr>
     else m)"

text \<open>Appending to the log and trimming it, as every operation ends.\<close>

definition log_admin :: "authority_manager \<Rightarrow> u64 \<Rightarrow> string \<Rightarrow> string \<Rightarrow> string \<Rightarrow> string \<Rightarrow> authority_manager" where
  "log_admin m now operation caller target_address target_name =
    trim_admin_log (m\<lparr>admin_log := admin_log m @
      [\<lparr>ae_operation = operation, ae_caller = caller, ae_target_address = target_address,
        ae_target_name = target_name, ae_timestamp = now\<rparr>]\<rparr>)"

definition not_admin :: "string \<Rightarrow> sentrix_error" where
  "not_admin caller = UnauthorizedValidator (caller @ '' is not admin'')"

definition add_validator ::
  "tx_libs \<Rightarrow> u64 \<Rightarrow> authority_manager \<Rightarrow> string \<Rightarrow> string \<Rightarrow> string \<Rightarrow> string \<Rightarrow> unit result \<times> authority_manager" where
  "add_validator E now m caller address name public_key =
    (if caller \<noteq> admin_address m then (Err (not_admin caller), m)
     else if hget (pioneers m) address \<noteq> None
     then (Err (InvalidBlock (''validator '' @ address @ '' already exists'')), m)
     else if \<not> is_valid_sentrix_address address
     then (Err (InvalidTransaction (''invalid validator address format: '' @ address)), m)
     else
       ok_or (hex_decode E public_key) (InvalidTransaction ''public_key: invalid hex encoding'') m (\<lambda>pk_bytes.
       ok_or (public_key_from_slice E pk_bytes)
         (InvalidTransaction ''public_key: not a valid secp256k1 public key'') m (\<lambda>pk.
       let derived = derive_address E pk
       in if derived \<noteq> address
          then (Err (InvalidTransaction
                 (''public_key does not correspond to address '' @ em_dash @ '' derived '' @ derived @
                  '', expected '' @ address)), m)
          else (Ok (), log_admin
                 (m\<lparr>pioneers := hput (pioneers m) address (Validator_new now address name public_key)\<rparr>)
                 now ''add_validator'' caller address name))))"

definition remove_validator ::
  "u64 \<Rightarrow> authority_manager \<Rightarrow> string \<Rightarrow> string \<Rightarrow> unit result \<times> authority_manager" where
  "remove_validator now m caller address =
    (if caller \<noteq> admin_address m then (Err (not_admin caller), m)
     else if address = admin_address m then (Err (InvalidBlock ''admin cannot remove itself''), m)
     else
       let active_after = length (filter (\<lambda>v. pio_address v \<noteq> address) (active_validators m))
       in if active_after < MIN_ACTIVE_VALIDATORS
          then (Err (InvalidBlock (''cannot remove: at least '' @ show_nat MIN_ACTIVE_VALIDATORS @
                 '' active validators required'')), m)
          else
            let name = (case hget (pioneers m) address of Some v \<Rightarrow> pio_name v | None \<Rightarrow> [])
            in ok_or (hget (pioneers m) address) (NotFound (''validator '' @ address)) m (\<lambda>v.
                 (Ok (), log_admin (m\<lparr>pioneers := hdel (pioneers m) address\<rparr>)
                    now ''remove_validator'' caller address name)))"

definition toggle_validator ::
  "u64 \<Rightarrow> authority_manager \<Rightarrow> string \<Rightarrow> string \<Rightarrow> bool result \<times> authority_manager" where
  "toggle_validator now m caller address =
    (if caller \<noteq> admin_address m then (Err (not_admin caller), m)
     else ok_or (hget (pioneers m) address) (NotFound (''validator '' @ address)) m (\<lambda>v.
       let active_after = length (filter (\<lambda>v. pio_address v \<noteq> address) (active_validators m))
       in if pio_is_active v \<and> active_after < MIN_ACTIVE_VALIDATORS
          then (Err (InvalidBlock (''cannot deactivate: at least '' @ show_nat MIN_ACTIVE_VALIDATORS @
                 '' active validators required'')), m)
          else
            let new_state = \<not> pio_is_active v;
                op = (if new_state then ''activate_validator'' else ''deactivate_validator'')
            in (Ok new_state, log_admin
                  (m\<lparr>pioneers := hput (pioneers m) address (v\<lparr>pio_is_active := new_state\<rparr>)\<rparr>)
                  now op caller address (pio_name v))))"

definition rename_validator ::
  "u64 \<Rightarrow> authority_manager \<Rightarrow> string \<Rightarrow> string \<Rightarrow> string \<Rightarrow> unit result \<times> authority_manager" where
  "rename_validator now m caller address new_name =
    (if caller \<noteq> admin_address m then (Err (not_admin caller), m)
     else ok_or (hget (pioneers m) address) (NotFound (''validator '' @ address)) m (\<lambda>v.
       (Ok (), log_admin (m\<lparr>pioneers := hput (pioneers m) address (v\<lparr>pio_name := new_name\<rparr>)\<rparr>)
          now ''rename_validator'' caller address (pio_name v @ '' -> '' @ new_name))))"

definition validator_count :: "authority_manager \<Rightarrow> usize" where
  "validator_count m = length (pioneers m)"

definition pioneer_count :: "authority_manager \<Rightarrow> usize" where
  "pioneer_count m = length (active_validators m)"

definition collusion_risk :: "authority_manager \<Rightarrow> usize" where
  "collusion_risk m = (let n = pioneer_count m in if n = 0 then 0 else n div 2 + 1)"

definition record_block_produced :: "authority_manager \<Rightarrow> string \<Rightarrow> u64 \<Rightarrow> authority_manager" where
  "record_block_produced m address timestamp =
    (case hget (pioneers m) address of
       Some v \<Rightarrow> m\<lparr>pioneers := hput (pioneers m) address
                    (v\<lparr>pio_blocks_produced := wrapping_add_u64 (pio_blocks_produced v) 1,
                       pio_last_block_time := timestamp\<rparr>)\<rparr>
     | None \<Rightarrow> m)"

definition transfer_admin ::
  "u64 \<Rightarrow> authority_manager \<Rightarrow> string \<Rightarrow> string \<Rightarrow> unit result \<times> authority_manager" where
  "transfer_admin now m caller new_admin =
    (if caller \<noteq> admin_address m then (Err (not_admin caller), m)
     else if \<not> is_valid_sentrix_address new_admin
     then (Err (InvalidTransaction (''invalid new admin address format: '' @ new_admin)), m)
     else if new_admin = admin_address m
     then (Err (InvalidTransaction ''new admin address is the same as the current admin (no-op)''), m)
     else
       let old_admin = admin_address m
       in (Ok (), log_admin (m\<lparr>admin_address := new_admin\<rparr>) now ''transfer_admin'' old_admin new_admin ''(admin role)''))"

definition add_validator_unchecked ::
  "u64 \<Rightarrow> authority_manager \<Rightarrow> string \<Rightarrow> string \<Rightarrow> string \<Rightarrow> authority_manager" where
  "add_validator_unchecked now m address name public_key =
    m\<lparr>pioneers := hput (pioneers m) address (Validator_new now address name public_key)\<rparr>"

section \<open>Operations and invariant\<close>

datatype auth_op =
    AddValidator string string string string
  | RemoveValidator string string
  | ToggleValidator string string
  | RenameValidator string string string
  | RecordBlock string u64
  | TransferAdmin string string
  | AddUnchecked string string string

fun auth_step :: "tx_libs \<Rightarrow> authority_manager \<Rightarrow> u64 \<times> auth_op \<Rightarrow> authority_manager" where
  "auth_step E m (now, AddValidator c a n k) = snd (add_validator E now m c a n k)"
| "auth_step E m (now, RemoveValidator c a) = snd (remove_validator now m c a)"
| "auth_step E m (now, ToggleValidator c a) = snd (toggle_validator now m c a)"
| "auth_step E m (now, RenameValidator c a n) = snd (rename_validator now m c a n)"
| "auth_step E m (now, RecordBlock a t) = record_block_produced m a t"
| "auth_step E m (now, TransferAdmin c a) = snd (transfer_admin now m c a)"
| "auth_step E m (now, AddUnchecked a n k) = add_validator_unchecked now m a n k"

definition auth_inv :: "authority_manager \<Rightarrow> bool" where
  "auth_inv m \<longleftrightarrow> wf_map (pioneers m) \<and> (\<forall>a v. hget (pioneers m) a = Some v \<longrightarrow> pio_address v = a) \<and>
    length (admin_log m) \<le> MAX_ADMIN_LOG_SIZE"

definition some_active :: "authority_manager \<Rightarrow> bool" where
  "some_active m \<longleftrightarrow> (\<exists>a v. hget (pioneers m) a = Some v \<and> pio_is_active v)"

lemma log_admin_simps [simp]:
  "pioneers (log_admin m now op c a n) = pioneers m"
  "admin_address (log_admin m now op c a n) = admin_address m"
  by (simp_all add: log_admin_def trim_admin_log_def)

lemma log_admin_bounded [simp]: "length (admin_log (log_admin m now op c a n)) \<le> MAX_ADMIN_LOG_SIZE"
  by (simp add: log_admin_def trim_admin_log_def MAX_ADMIN_LOG_SIZE_def)

lemma auth_inv_step: "auth_inv m \<Longrightarrow> auth_inv (auth_step E m e)"
  by (cases "(E, m, e)" rule: auth_step.cases)
    (auto simp: auth_inv_def add_validator_def remove_validator_def toggle_validator_def rename_validator_def
      record_block_produced_def transfer_admin_def add_validator_unchecked_def Validator_new_def hget_hput hget_hdel
      split: ok_or_splits if_splits option.splits)

lemma set_active: "auth_inv m \<Longrightarrow> v \<in> set (active_validators m) \<longleftrightarrow> pio_is_active v \<and> (\<exists>a. hget (pioneers m) a = Some v)"
  using set_hvalues [of "pioneers m" v] by (auto simp: active_validators_def auth_inv_def)

lemma active_not_Nil: "auth_inv m \<Longrightarrow> active_validators m \<noteq> [] \<longleftrightarrow> some_active m"
proof -
  assume "auth_inv m"
  then have "active_validators m \<noteq> [] \<longleftrightarrow> (\<exists>v. v \<in> set (active_validators m))"
    by (cases "active_validators m") auto
  with set_active [OF \<open>auth_inv m\<close>] show ?thesis by (auto simp: some_active_def)
qed

lemma another_active:
  assumes "auth_inv m" "\<not> length (filter (\<lambda>v. pio_address v \<noteq> address) (active_validators m)) < MIN_ACTIVE_VALIDATORS"
  shows "\<exists>a v. hget (pioneers m) a = Some v \<and> pio_is_active v \<and> a \<noteq> address"
proof -
  from assms(2) have "filter (\<lambda>v. pio_address v \<noteq> address) (active_validators m) \<noteq> []"
    by (auto simp: MIN_ACTIVE_VALIDATORS_def)
  then obtain v where "v \<in> set (active_validators m)" "pio_address v \<noteq> address"
    by (auto simp: filter_empty_conv)
  moreover from this set_active [OF assms(1), of v] obtain a where "hget (pioneers m) a = Some v" "pio_is_active v"
    by auto
  ultimately show ?thesis using assms(1) unfolding auth_inv_def by blast
qed

lemma some_active_step:
  assumes "auth_inv m" "some_active m"
  shows "some_active (auth_step E m e)"
proof -
  obtain b w where b: "hget (pioneers m) b = Some w" "pio_is_active w" using assms(2) by (auto simp: some_active_def)
  show ?thesis
  proof (cases "(E, m, e)" rule: auth_step.cases)
    case (2 E' m' now c a)
    with b another_active [OF assms(1), of a] show ?thesis
      by (auto simp: remove_validator_def some_active_def hget_hdel split: ok_or_splits if_splits)
  next
    case (4 E' m' now c a n)
    with b show ?thesis
      by (auto simp: rename_validator_def some_active_def hget_hput split: ok_or_splits intro!: exI [of _ b])
  next
    case (5 E' m' now a t)
    with b show ?thesis
      by (auto simp: record_block_produced_def some_active_def hget_hput split: option.splits intro!: exI [of _ b])
  next
    case (3 E' m' now c a)
    with b another_active [OF assms(1), of a] show ?thesis
      by (auto simp: toggle_validator_def some_active_def hget_hput split: ok_or_splits if_splits)
  qed (use b in \<open>auto simp: add_validator_def transfer_admin_def
      add_validator_unchecked_def Validator_new_def some_active_def hget_hput split: ok_or_splits if_splits option.splits\<close>)
qed

section \<open>Turns\<close>

definition auth_init :: "authority_manager \<Rightarrow> bool" where
  "auth_init m \<longleftrightarrow> auth_inv m \<and> some_active m"

definition auth_trans :: "tx_libs \<Rightarrow> authority_manager \<Rightarrow> u64 \<times> auth_op \<Rightarrow> authority_manager \<Rightarrow> bool" where
  "auth_trans E m e m' \<longleftrightarrow> m' = auth_step E m e"

interpretation authority: transition_system auth_init "auth_trans E" auth_init for E
  by unfold_locales (auto simp: auth_init_def auth_trans_def intro: auth_inv_step some_active_step)

lemma auth_run_steps: "authority.steps E m es (foldl (auth_step E) m es)"
  by (induction es arbitrary: m) (auto simp: auth_trans_def intro: authority.steps.intros)

lemma distinct_active:
  assumes "auth_inv m"
  shows "distinct (active_validators m)"
proof -
  have addr: "pio_address v = a" if "(a, v) \<in> set (pioneers m)" for a v
    using that assms set_wf_map [of "pioneers m" a v] unfolding auth_inv_def by blast
  have "map pio_address (hvalues (pioneers m)) = hkeys (pioneers m)"
    using addr by (auto simp: comp_def intro!: map_cong)
  moreover have "distinct (hkeys (pioneers m))"
    using assms by (simp add: auth_inv_def wf_map_def)
  ultimately have "distinct (map pio_address (hvalues (pioneers m)))" by (simp only:)
  then have "distinct (hvalues (pioneers m))" using distinct_map [of pio_address "hvalues (pioneers m)"] by blast
  then show ?thesis by (simp add: active_validators_def)
qed

lemma one_in_window:
  assumes "i < (n :: nat)"
  shows "\<exists>!k. h \<le> k \<and> k < h + n \<and> k mod n = i"
proof -
  let ?k = "h + (n - h mod n + i) mod n"
  have le: "h mod n \<le> n" using assms by (simp add: order_less_imp_le)
  have "?k mod n = (h mod n + (n - h mod n + i)) mod n"
    by (metis mod_add_left_eq mod_add_right_eq)
  also have "\<dots> = (n + i) mod n" using le by (simp add: algebra_simps)
  also have "\<dots> = i" using assms by simp
  finally have "h \<le> ?k \<and> ?k < h + n \<and> ?k mod n = i" using assms by simp
  moreover have "k = k'" if "h \<le> k" "k < h + n" "h \<le> k'" "k' < h + n" "k mod n = k' mod n" for k k'
  proof -
    have "k \<le> k' \<or> k' \<le> k" by linarith
    then show ?thesis
    proof
      assume "k \<le> k'"
      then have "n dvd k' - k" using that(5) mod_eq_dvd_iff_nat [of k k' n] by simp
      then show ?thesis using that \<open>k \<le> k'\<close> dvd_imp_le [of n "k' - k"] by (cases "k' - k = 0") simp_all
    next
      assume "k' \<le> k"
      then have "n dvd k - k'" using that(5) mod_eq_dvd_iff_nat [of k' k n] by simp
      then show ?thesis using that \<open>k' \<le> k\<close> dvd_imp_le [of n "k - k'"] by (cases "k - k' = 0") simp_all
    qed
  qed
  ultimately show ?thesis by blast
qed

text \<open>
  Round-robin production is live and fair: however the administrator and the registration of
  validators change a set that has an active validator, every height afterwards has an expected
  producer, and among any as many consecutive heights as there are active validators each of them is
  expected exactly once.
\<close>

theorem round_robin_fair:
  assumes "auth_inv m0" and "some_active m0" and "m = foldl (auth_step E) m0 es"
  shows "0 < pioneer_count m \<and> (\<forall>h. is_ok (expected_validator m h)) \<and>
    (\<forall>v h. v \<in> set (active_validators m) \<longrightarrow>
      (\<exists>!k. h \<le> k \<and> k < h + pioneer_count m \<and> expected_validator m k = Ok v))"
proof -
  have "auth_init m"
    unfolding assms(3) using assms(1,2) by (intro authority.steps_inv [OF auth_run_steps]) (simp add: auth_init_def)
  then have inv: "auth_inv m" and ne: "active_validators m \<noteq> []"
    by (simp_all add: auth_init_def active_not_Nil)
  have turn: "\<exists>!k. h \<le> k \<and> k < h + pioneer_count m \<and> expected_validator m k = Ok v"
    if v: "v \<in> set (active_validators m)" for v h
  proof -
    obtain i where i: "i < pioneer_count m" "active_validators m ! i = v"
      using v by (auto simp: in_set_conv_nth pioneer_count_def)
    have "expected_validator m k = Ok v \<longleftrightarrow> k mod pioneer_count m = i" for k
      using ne i distinct_active [OF inv] nth_eq_iff_index_eq [of "active_validators m" "k mod pioneer_count m" i]
      by (auto simp: expected_validator_def pioneer_count_def)
    then show ?thesis using one_in_window [OF i(1), of h] by simp
  qed
  with ne show ?thesis by (auto simp: expected_validator_def pioneer_count_def)
qed

definition two_pioneers :: authority_manager where
  "two_pioneers = \<lparr>pioneers = [(''b'', Validator_new 1 ''b'' [] []), (''a'', Validator_new 1 ''a'' [] [])],
    admin_address = ''r'', admin_log = []\<rparr>"

theorem round_robin_fair_witness:
  "\<forall>h. is_ok (expected_validator (foldl (auth_step example_libs) two_pioneers
      [(5, ToggleValidator ''r'' ''a''), (6, RemoveValidator ''r'' ''b'')]) h)"
proof -
  have "auth_inv two_pioneers" "some_active two_pioneers"
    by (auto simp: auth_inv_def some_active_def two_pioneers_def wf_map_def Validator_new_def split: if_splits)
  from round_robin_fair [OF this refl] show ?thesis by blast
qed

end
