(* ===== verification/Fork_Heights.thy ===== *)
theory Fork_Heights
  imports Rust_Prelude
begin

text \<open>
  Fork activation heights, crate \<open>sentrix-fork-heights\<close>: each is read from an environment variable
  with a default that may depend on the configured chain, and gates a rule of consensus from that
  height on. The environment is a parameter, a function from names to values that are valid text.
\<close>

type_synonym env = "string \<Rightarrow> string option"

text \<open>\<open>str::parse::<u64>\<close>: an optional plus sign, then decimal digits whose value fits.\<close>

definition is_digit :: "char \<Rightarrow> bool" where
  "is_digit c \<longleftrightarrow> 48 \<le> (of_char c :: nat) \<and> (of_char c :: nat) \<le> 57"

definition digits_value :: "string \<Rightarrow> nat" where
  "digits_value s = foldl (\<lambda>n c. 10 * n + (of_char c - 48)) 0 s"

definition parse_u64 :: "string \<Rightarrow> u64 option" where
  "parse_u64 s =
    (let d = (case s of c # r \<Rightarrow> if c = CHR ''+'' then r else s | [] \<Rightarrow> s)
     in if d = [] \<or> \<not> list_all is_digit d \<or> U64_MAX < digits_value d then None
        else Some (digits_value d))"

definition MAINNET_CHAIN_ID :: u64 where "MAINNET_CHAIN_ID = 7119"
definition TESTNET_CHAIN_ID :: u64 where "TESTNET_CHAIN_ID = 7120"

definition VOYAGER_DPOS_HEIGHT_DEFAULT :: u64 where "VOYAGER_DPOS_HEIGHT_DEFAULT = U64_MAX"
definition VOYAGER_DPOS_HEIGHT_TESTNET_DEFAULT :: u64 where "VOYAGER_DPOS_HEIGHT_TESTNET_DEFAULT = 10"
definition VOYAGER_EVM_HEIGHT_DEFAULT :: u64 where "VOYAGER_EVM_HEIGHT_DEFAULT = U64_MAX"
definition VOYAGER_EVM_HEIGHT_TESTNET_DEFAULT :: u64 where "VOYAGER_EVM_HEIGHT_TESTNET_DEFAULT = 752"
definition VOYAGER_REWARD_V2_HEIGHT_DEFAULT :: u64 where "VOYAGER_REWARD_V2_HEIGHT_DEFAULT = U64_MAX"
definition VOYAGER_REWARD_V2_HEIGHT_TESTNET_DEFAULT :: u64 where "VOYAGER_REWARD_V2_HEIGHT_TESTNET_DEFAULT = 100"
definition TOKENOMICS_V2_HEIGHT_DEFAULT :: u64 where "TOKENOMICS_V2_HEIGHT_DEFAULT = U64_MAX"
definition TOKENOMICS_V2_HEIGHT_TESTNET_DEFAULT :: u64 where "TOKENOMICS_V2_HEIGHT_TESTNET_DEFAULT = 381651"
definition SPECULATIVE_APPLY_HEIGHT_DEFAULT :: u64 where "SPECULATIVE_APPLY_HEIGHT_DEFAULT = U64_MAX"
definition BFT_GATE_RELAX_HEIGHT_DEFAULT :: u64 where "BFT_GATE_RELAX_HEIGHT_DEFAULT = U64_MAX"
definition BFT_GATE_RELAX_HEIGHT_TESTNET_DEFAULT :: u64 where "BFT_GATE_RELAX_HEIGHT_TESTNET_DEFAULT = 551500"
definition JAIL_CONSENSUS_HEIGHT_DEFAULT :: u64 where "JAIL_CONSENSUS_HEIGHT_DEFAULT = U64_MAX"
definition NFT_TOKENOP_HEIGHT_DEFAULT :: u64 where "NFT_TOKENOP_HEIGHT_DEFAULT = U64_MAX"
definition ADD_SELF_STAKE_HEIGHT_DEFAULT :: u64 where "ADD_SELF_STAKE_HEIGHT_DEFAULT = U64_MAX"
definition ADD_SELF_STAKE_HEIGHT_TESTNET_DEFAULT :: u64 where "ADD_SELF_STAKE_HEIGHT_TESTNET_DEFAULT = 5800000"
definition EVM_VALUE_TRANSFER_HEIGHT_DEFAULT :: u64 where "EVM_VALUE_TRANSFER_HEIGHT_DEFAULT = 1748900"
definition EVM_VALUE_TRANSFER_HEIGHT_TESTNET_DEFAULT :: u64 where "EVM_VALUE_TRANSFER_HEIGHT_TESTNET_DEFAULT = 3409717"
definition EVM_GAS_FIX_HEIGHT_DEFAULT :: u64 where "EVM_GAS_FIX_HEIGHT_DEFAULT = 1748900"
definition EVM_GAS_FIX_HEIGHT_TESTNET_DEFAULT :: u64 where "EVM_GAS_FIX_HEIGHT_TESTNET_DEFAULT = 3787000"
definition EXTENDED_TOUCH_LIST_HEIGHT_DEFAULT :: u64 where "EXTENDED_TOUCH_LIST_HEIGHT_DEFAULT = U64_MAX"
definition STRICT_JUSTIFICATION_HEIGHT_DEFAULT :: u64 where "STRICT_JUSTIFICATION_HEIGHT_DEFAULT = U64_MAX"
definition STATE_IN_TRIE_HEIGHT_DEFAULT :: u64 where "STATE_IN_TRIE_HEIGHT_DEFAULT = U64_MAX"
definition STATE_IN_TRIE_HEIGHT_TESTNET_DEFAULT :: u64 where "STATE_IN_TRIE_HEIGHT_TESTNET_DEFAULT = 6026000"
definition NATIVE_STATE_IN_TRIE_HEIGHT_DEFAULT :: u64 where "NATIVE_STATE_IN_TRIE_HEIGHT_DEFAULT = U64_MAX"
definition REWARD_APPLY_PATH_HEIGHT_DEFAULT :: u64 where "REWARD_APPLY_PATH_HEIGHT_DEFAULT = U64_MAX"
definition CANONICAL_DELETE_HEIGHT_DEFAULT :: u64 where "CANONICAL_DELETE_HEIGHT_DEFAULT = U64_MAX"

definition configured_chain_id :: "env \<Rightarrow> u64" where
  "configured_chain_id e =
    (case Option.bind (e ''SENTRIX_CHAIN_ID'') parse_u64 of Some n \<Rightarrow> n | None \<Rightarrow> MAINNET_CHAIN_ID)"

definition chain_default :: "env \<Rightarrow> u64 \<Rightarrow> u64 \<Rightarrow> u64" where
  "chain_default e mainnet_default testnet_default =
    (if configured_chain_id e = TESTNET_CHAIN_ID then testnet_default else mainnet_default)"

definition read_height :: "env \<Rightarrow> string \<Rightarrow> u64 \<Rightarrow> u64" where
  "read_height e env_var dflt =
    (case Option.bind (e env_var) parse_u64 of Some n \<Rightarrow> n | None \<Rightarrow> dflt)"

definition get_voyager_fork_height :: "env \<Rightarrow> u64" where
  "get_voyager_fork_height e = read_height e ''VOYAGER_FORK_HEIGHT'' (chain_default e VOYAGER_DPOS_HEIGHT_DEFAULT VOYAGER_DPOS_HEIGHT_TESTNET_DEFAULT)"

definition get_evm_fork_height :: "env \<Rightarrow> u64" where
  "get_evm_fork_height e = read_height e ''VOYAGER_EVM_HEIGHT'' (chain_default e VOYAGER_EVM_HEIGHT_DEFAULT VOYAGER_EVM_HEIGHT_TESTNET_DEFAULT)"

definition get_reward_v2_fork_height :: "env \<Rightarrow> u64" where
  "get_reward_v2_fork_height e = read_height e ''VOYAGER_REWARD_V2_HEIGHT'' (chain_default e VOYAGER_REWARD_V2_HEIGHT_DEFAULT VOYAGER_REWARD_V2_HEIGHT_TESTNET_DEFAULT)"

definition get_tokenomics_v2_height :: "env \<Rightarrow> u64" where
  "get_tokenomics_v2_height e = read_height e ''TOKENOMICS_V2_HEIGHT'' (chain_default e TOKENOMICS_V2_HEIGHT_DEFAULT TOKENOMICS_V2_HEIGHT_TESTNET_DEFAULT)"

definition get_speculative_apply_height :: "env \<Rightarrow> u64" where
  "get_speculative_apply_height e = read_height e ''SPECULATIVE_APPLY_HEIGHT'' SPECULATIVE_APPLY_HEIGHT_DEFAULT"

definition get_bft_gate_relax_height :: "env \<Rightarrow> u64" where
  "get_bft_gate_relax_height e = read_height e ''BFT_GATE_RELAX_HEIGHT'' (chain_default e BFT_GATE_RELAX_HEIGHT_DEFAULT BFT_GATE_RELAX_HEIGHT_TESTNET_DEFAULT)"

definition get_jail_consensus_height :: "env \<Rightarrow> u64" where
  "get_jail_consensus_height e = read_height e ''JAIL_CONSENSUS_HEIGHT'' JAIL_CONSENSUS_HEIGHT_DEFAULT"

definition get_nft_tokenop_height :: "env \<Rightarrow> u64" where
  "get_nft_tokenop_height e = read_height e ''NFT_TOKENOP_HEIGHT'' NFT_TOKENOP_HEIGHT_DEFAULT"

definition get_add_self_stake_height :: "env \<Rightarrow> u64" where
  "get_add_self_stake_height e = read_height e ''ADD_SELF_STAKE_HEIGHT'' (chain_default e ADD_SELF_STAKE_HEIGHT_DEFAULT ADD_SELF_STAKE_HEIGHT_TESTNET_DEFAULT)"

definition get_evm_value_transfer_height :: "env \<Rightarrow> u64" where
  "get_evm_value_transfer_height e = read_height e ''EVM_VALUE_TRANSFER_HEIGHT'' (chain_default e EVM_VALUE_TRANSFER_HEIGHT_DEFAULT EVM_VALUE_TRANSFER_HEIGHT_TESTNET_DEFAULT)"

definition get_evm_gas_fix_height :: "env \<Rightarrow> u64" where
  "get_evm_gas_fix_height e = read_height e ''EVM_GAS_FIX_HEIGHT'' (chain_default e EVM_GAS_FIX_HEIGHT_DEFAULT EVM_GAS_FIX_HEIGHT_TESTNET_DEFAULT)"

definition get_extended_touch_list_height :: "env \<Rightarrow> u64" where
  "get_extended_touch_list_height e = read_height e ''EXTENDED_TOUCH_LIST_HEIGHT'' EXTENDED_TOUCH_LIST_HEIGHT_DEFAULT"

definition get_strict_justification_height :: "env \<Rightarrow> u64" where
  "get_strict_justification_height e = read_height e ''STRICT_JUSTIFICATION_HEIGHT'' STRICT_JUSTIFICATION_HEIGHT_DEFAULT"

definition get_state_in_trie_height :: "env \<Rightarrow> u64" where
  "get_state_in_trie_height e = read_height e ''STATE_IN_TRIE_HEIGHT'' (chain_default e STATE_IN_TRIE_HEIGHT_DEFAULT STATE_IN_TRIE_HEIGHT_TESTNET_DEFAULT)"

definition get_native_state_in_trie_height :: "env \<Rightarrow> u64" where
  "get_native_state_in_trie_height e = read_height e ''NATIVE_STATE_IN_TRIE_HEIGHT'' NATIVE_STATE_IN_TRIE_HEIGHT_DEFAULT"

definition get_reward_apply_path_height :: "env \<Rightarrow> u64" where
  "get_reward_apply_path_height e = read_height e ''REWARD_APPLY_PATH_HEIGHT'' REWARD_APPLY_PATH_HEIGHT_DEFAULT"

definition get_canonical_delete_height :: "env \<Rightarrow> u64" where
  "get_canonical_delete_height e = read_height e ''CANONICAL_DELETE_HEIGHT'' CANONICAL_DELETE_HEIGHT_DEFAULT"

section \<open>Gates\<close>

definition is_voyager_height :: "env \<Rightarrow> u64 \<Rightarrow> bool" where
  "is_voyager_height e height \<longleftrightarrow> (let fork = get_voyager_fork_height e in fork \<noteq> U64_MAX \<and> fork \<le> height)"

definition is_reward_v2_height :: "env \<Rightarrow> u64 \<Rightarrow> bool" where
  "is_reward_v2_height e height \<longleftrightarrow> (let fork = get_reward_v2_fork_height e in fork \<noteq> U64_MAX \<and> fork \<le> height)"

definition is_tokenomics_v2_height :: "env \<Rightarrow> u64 \<Rightarrow> bool" where
  "is_tokenomics_v2_height e height \<longleftrightarrow> (let fork = get_tokenomics_v2_height e in fork \<noteq> U64_MAX \<and> fork \<le> height)"

definition is_speculative_apply_height :: "env \<Rightarrow> u64 \<Rightarrow> bool" where
  "is_speculative_apply_height e height \<longleftrightarrow> (let fork = get_speculative_apply_height e in fork \<noteq> U64_MAX \<and> fork \<le> height)"

definition is_bft_gate_relax_height :: "env \<Rightarrow> u64 \<Rightarrow> bool" where
  "is_bft_gate_relax_height e height \<longleftrightarrow> (let fork = get_bft_gate_relax_height e in fork \<noteq> U64_MAX \<and> fork \<le> height)"

definition is_jail_consensus_height :: "env \<Rightarrow> u64 \<Rightarrow> bool" where
  "is_jail_consensus_height e height \<longleftrightarrow> (let fork = get_jail_consensus_height e in fork \<noteq> U64_MAX \<and> fork \<le> height)"

definition is_nft_tokenop_height :: "env \<Rightarrow> u64 \<Rightarrow> bool" where
  "is_nft_tokenop_height e height \<longleftrightarrow> (let fork = get_nft_tokenop_height e in fork \<noteq> U64_MAX \<and> fork \<le> height)"

definition is_add_self_stake_height :: "env \<Rightarrow> u64 \<Rightarrow> bool" where
  "is_add_self_stake_height e height \<longleftrightarrow> (let fork = get_add_self_stake_height e in fork \<noteq> U64_MAX \<and> fork \<le> height)"

definition is_evm_value_transfer_height :: "env \<Rightarrow> u64 \<Rightarrow> bool" where
  "is_evm_value_transfer_height e height \<longleftrightarrow> (let fork = get_evm_value_transfer_height e in fork \<noteq> U64_MAX \<and> fork \<le> height)"

definition is_evm_gas_fix_height :: "env \<Rightarrow> u64 \<Rightarrow> bool" where
  "is_evm_gas_fix_height e height \<longleftrightarrow> (let fork = get_evm_gas_fix_height e in fork \<noteq> U64_MAX \<and> fork \<le> height)"

definition is_extended_touch_list_height :: "env \<Rightarrow> u64 \<Rightarrow> bool" where
  "is_extended_touch_list_height e height \<longleftrightarrow> (let fork = get_extended_touch_list_height e in fork \<noteq> U64_MAX \<and> fork \<le> height)"

definition is_strict_justification_height :: "env \<Rightarrow> u64 \<Rightarrow> bool" where
  "is_strict_justification_height e height \<longleftrightarrow> (let fork = get_strict_justification_height e in fork \<noteq> U64_MAX \<and> fork \<le> height)"

definition is_state_in_trie_height :: "env \<Rightarrow> u64 \<Rightarrow> bool" where
  "is_state_in_trie_height e height \<longleftrightarrow> (let fork = get_state_in_trie_height e in fork \<noteq> U64_MAX \<and> fork \<le> height)"

definition is_native_state_in_trie_height :: "env \<Rightarrow> u64 \<Rightarrow> bool" where
  "is_native_state_in_trie_height e height \<longleftrightarrow> (let fork = get_native_state_in_trie_height e in fork \<noteq> U64_MAX \<and> fork \<le> height)"

definition is_reward_apply_path_height :: "env \<Rightarrow> u64 \<Rightarrow> bool" where
  "is_reward_apply_path_height e height \<longleftrightarrow> (let fork = get_reward_apply_path_height e in fork \<noteq> U64_MAX \<and> fork \<le> height)"

definition is_canonical_delete_height :: "env \<Rightarrow> u64 \<Rightarrow> bool" where
  "is_canonical_delete_height e height \<longleftrightarrow> (let fork = get_canonical_delete_height e in fork \<noteq> U64_MAX \<and> fork \<le> height)"

text \<open>A gate that is open stays open.\<close>

lemmas gate_defs =
  is_voyager_height_def
  is_reward_v2_height_def
  is_tokenomics_v2_height_def
  is_speculative_apply_height_def
  is_bft_gate_relax_height_def
  is_jail_consensus_height_def
  is_nft_tokenop_height_def
  is_add_self_stake_height_def
  is_evm_value_transfer_height_def
  is_evm_gas_fix_height_def
  is_extended_touch_list_height_def
  is_strict_justification_height_def
  is_state_in_trie_height_def
  is_native_state_in_trie_height_def
  is_reward_apply_path_height_def
  is_canonical_delete_height_def

lemma gates_monotone:
  assumes "h \<le> k"
  shows "is_voyager_height e h \<Longrightarrow> is_voyager_height e k"
    and "is_reward_v2_height e h \<Longrightarrow> is_reward_v2_height e k"
    and "is_tokenomics_v2_height e h \<Longrightarrow> is_tokenomics_v2_height e k"
    and "is_speculative_apply_height e h \<Longrightarrow> is_speculative_apply_height e k"
    and "is_bft_gate_relax_height e h \<Longrightarrow> is_bft_gate_relax_height e k"
    and "is_jail_consensus_height e h \<Longrightarrow> is_jail_consensus_height e k"
    and "is_nft_tokenop_height e h \<Longrightarrow> is_nft_tokenop_height e k"
    and "is_add_self_stake_height e h \<Longrightarrow> is_add_self_stake_height e k"
    and "is_evm_value_transfer_height e h \<Longrightarrow> is_evm_value_transfer_height e k"
    and "is_evm_gas_fix_height e h \<Longrightarrow> is_evm_gas_fix_height e k"
    and "is_extended_touch_list_height e h \<Longrightarrow> is_extended_touch_list_height e k"
    and "is_strict_justification_height e h \<Longrightarrow> is_strict_justification_height e k"
    and "is_state_in_trie_height e h \<Longrightarrow> is_state_in_trie_height e k"
    and "is_native_state_in_trie_height e h \<Longrightarrow> is_native_state_in_trie_height e k"
    and "is_reward_apply_path_height e h \<Longrightarrow> is_reward_apply_path_height e k"
    and "is_canonical_delete_height e h \<Longrightarrow> is_canonical_delete_height e k"
  using assms by (simp_all add: gate_defs)

text \<open>Digits as \<open>format!\<close> prints them are read back.\<close>

lemma digits_value_snoc: "digits_value (s @ [c]) = 10 * digits_value s + (of_char c - 48)"
  by (simp add: digits_value_def)

lemma show_nat_value: "digits_value (show_nat n) = n \<and> list_all is_digit (show_nat n) \<and> show_nat n \<noteq> []"
proof (induction n rule: less_induct)
  case (less n)
  show ?case
  proof (cases "n < 10")
    case True
    then show ?thesis
      by (subst (1 2 3) show_nat.simps) (simp add: digits_value_def is_digit_def)
  next
    case False
    then have "digits_value (show_nat (n div 10)) = n div 10 \<and> list_all is_digit (show_nat (n div 10))"
      using less [of "n div 10"] by simp
    with False show ?thesis
      by (subst (1 2 3) show_nat.simps) (simp add: digits_value_snoc is_digit_def)
  qed
qed

lemma parse_show: "n \<le> U64_MAX \<Longrightarrow> parse_u64 (show_nat n) = Some n"
proof -
  assume "n \<le> U64_MAX"
  moreover have "show_nat n \<noteq> CHR ''+'' # r" for r
    using show_nat_value [of n] by (auto simp: is_digit_def)
  ultimately show ?thesis
    using show_nat_value [of n] by (cases "show_nat n") (auto simp: parse_u64_def)
qed

end
