(* ===== verification/Tokenomics.thy ===== *)
theory Tokenomics
  imports Fork_Heights Address
begin

text \<open>
  The emission schedule of \<open>sentrix-core/src/tokenomics.rs\<close> and the reward of
  \<open>get_block_reward\<close>, with its closed form over any number of blocks.
\<close>

section \<open>Emission\<close>

definition MAX_SUPPLY :: u64 where "MAX_SUPPLY = 210000000 * 100000000"
definition MAX_SUPPLY_V2 :: u64 where "MAX_SUPPLY_V2 = 315000000 * 100000000"
definition BLOCK_REWARD :: u64 where "BLOCK_REWARD = 100000000"
definition HALVING_INTERVAL :: u64 where "HALVING_INTERVAL = 42000000"
definition HALVING_INTERVAL_V2 :: u64 where "HALVING_INTERVAL_V2 = 126000000"

definition max_supply_for :: "env \<Rightarrow> u64 \<Rightarrow> u64" where
  "max_supply_for e h = (if is_tokenomics_v2_height e h then MAX_SUPPLY_V2 else MAX_SUPPLY)"

definition halving_interval_for :: "env \<Rightarrow> u64 \<Rightarrow> u64" where
  "halving_interval_for e h = (if is_tokenomics_v2_height e h then HALVING_INTERVAL_V2 else HALVING_INTERVAL)"

text \<open>\<open>try_into::<u32>().unwrap_or(u32::MAX)\<close> and \<open>u64::checked_shr\<close>.\<close>

definition to_u32_or_max :: "u64 \<Rightarrow> u32" where
  "to_u32_or_max n = (if n \<le> U32_MAX then n else U32_MAX)"

definition checked_shr_u64 :: "u64 \<Rightarrow> u32 \<Rightarrow> u64 option" where
  "checked_shr_u64 n k = (if k < 64 then Some (n div 2 ^ k) else None)"

definition halvings_at :: "env \<Rightarrow> u64 \<Rightarrow> u32" where
  "halvings_at e h =
    (let fork = get_tokenomics_v2_height e
     in if fork = U64_MAX \<or> h < fork then to_u32_or_max (h div HALVING_INTERVAL)
        else to_u32_or_max (saturating_sub h fork div HALVING_INTERVAL_V2))"

text \<open>The reward at a height when an amount has been minted, as \<open>get_block_reward\<close> computes it.\<close>

definition reward_at :: "env \<Rightarrow> u64 \<Rightarrow> u64 \<Rightarrow> u64" where
  "reward_at e h minted =
    (let remaining = saturating_sub (max_supply_for e h) minted
     in if remaining = 0 then 0
        else
          let reward = (case checked_shr_u64 BLOCK_REWARD (halvings_at e h) of Some r \<Rightarrow> r | None \<Rightarrow> 0)
          in if reward = 0 then 0 else min reward remaining)"

section \<open>Emission over a run of blocks\<close>

text \<open>The amount minted after further blocks, each minting the reward read at its parent's height.\<close>

fun mint_run :: "env \<Rightarrow> u64 \<Rightarrow> u64 \<Rightarrow> nat \<Rightarrow> u64" where
  "mint_run e h minted 0 = minted"
| "mint_run e h minted (Suc n) = mint_run e (h + 1) (minted + reward_at e h minted) n"

definition era_reward :: "env \<Rightarrow> u64 \<Rightarrow> u64" where
  "era_reward e h = BLOCK_REWARD div 2 ^ halvings_at e h"

lemma block_reward_small: "BLOCK_REWARD < 2 ^ 27" by (simp add: BLOCK_REWARD_def)

lemma shifted_out: "27 \<le> k \<Longrightarrow> BLOCK_REWARD div 2 ^ k = 0"
  by (meson block_reward_small div_less less_le_trans one_le_numeral power_increasing)

lemma shr_is_div: "(case checked_shr_u64 BLOCK_REWARD k of Some r \<Rightarrow> r | None \<Rightarrow> 0) = BLOCK_REWARD div 2 ^ k"
  using shifted_out [of k] by (auto simp: checked_shr_u64_def)

lemma clamped_shift: "BLOCK_REWARD div 2 ^ to_u32_or_max k = BLOCK_REWARD div 2 ^ k"
proof -
  have big: "27 \<le> U32_MAX" by (simp add: U32_MAX_def)
  show ?thesis
    using shifted_out [of k] shifted_out [OF big] big by (simp add: to_u32_or_max_def)
qed

lemma era_reward_unfold:
  "era_reward e h =
    (let fork = get_tokenomics_v2_height e
     in if fork = U64_MAX \<or> h < fork then BLOCK_REWARD div 2 ^ (h div HALVING_INTERVAL)
        else BLOCK_REWARD div 2 ^ ((h - fork) div HALVING_INTERVAL_V2))"
  by (simp add: era_reward_def halvings_at_def clamped_shift saturating_sub_def)

lemma reward_capped:
  "minted \<le> max_supply_for e h \<Longrightarrow> minted + reward_at e h minted = min (max_supply_for e h) (minted + era_reward e h)"
  by (auto simp: reward_at_def shr_is_div era_reward_def saturating_sub_def)

lemma era_reward_le: "era_reward e h \<le> BLOCK_REWARD"
  by (simp add: era_reward_def)

text \<open>The activation condition the schedule is documented with.\<close>

definition early_fork :: "env \<Rightarrow> bool" where
  "early_fork e \<longleftrightarrow> get_tokenomics_v2_height e = U64_MAX \<or> get_tokenomics_v2_height e < HALVING_INTERVAL"

lemma era_reward_antimono:
  assumes "early_fork e" and "h \<le> k"
  shows "era_reward e k \<le> era_reward e h"
proof -
  have mono: "BLOCK_REWARD div 2 ^ b \<le> BLOCK_REWARD div 2 ^ a" if "a \<le> b" for a b :: nat
    using that by (simp add: div_le_mono2 power_increasing)
  let ?f = "get_tokenomics_v2_height e"
  consider "?f = U64_MAX \<or> k < ?f" | "?f \<noteq> U64_MAX" "?f \<le> h" | "?f \<noteq> U64_MAX" "h < ?f" "?f \<le> k"
    by linarith
  then show ?thesis
  proof cases
    case 1
    then show ?thesis using assms mono [of "h div HALVING_INTERVAL" "k div HALVING_INTERVAL"]
      by (auto simp: era_reward_unfold div_le_mono)
  next
    case 2
    then show ?thesis
      using assms mono [of "(h - ?f) div HALVING_INTERVAL_V2" "(k - ?f) div HALVING_INTERVAL_V2"]
      by (auto simp: era_reward_unfold div_le_mono)
  next
    case 3
    then have "h div HALVING_INTERVAL = 0" using assms by (simp add: early_fork_def)
    with 3 show ?thesis by (simp add: era_reward_unfold)
  qed
qed

lemma mint_run_Suc: "mint_run e h m (Suc n) = mint_run e h m n + reward_at e (h + n) (mint_run e h m n)"
proof (induction n arbitrary: h m)
  case 0
  then show ?case by simp
next
  case (Suc n)
  from Suc.IH [of "h + 1" "m + reward_at e h m"] show ?case by simp
qed

definition minted :: "env \<Rightarrow> nat \<Rightarrow> u64" where
  "minted e n = mint_run e 0 TOTAL_PREMINE n"

lemma minted_0: "minted e 0 = TOTAL_PREMINE"
  and minted_Suc: "minted e (Suc n) = minted e n + reward_at e n (minted e n)"
  using mint_run_Suc [of e 0 TOTAL_PREMINE n] by (simp_all add: minted_def del: mint_run.simps(2))

lemmas supply_consts = MAX_SUPPLY_def MAX_SUPPLY_V2_def BLOCK_REWARD_def TOTAL_PREMINE_def HALVING_INTERVAL_def

lemma rewards_before_fork: "(\<Sum>i<n. era_reward e i) \<le> n * BLOCK_REWARD"
  using sum_bounded_above [of "{..<n}" "era_reward e" BLOCK_REWARD] era_reward_le by simp

lemma max_supply_cases:
  assumes "early_fork e"
  shows "max_supply_for e (Suc n) = max_supply_for e n \<or>
    (Suc n < HALVING_INTERVAL \<or> Suc n = HALVING_INTERVAL) \<and> max_supply_for e n = MAX_SUPPLY \<and> max_supply_for e (Suc n) = MAX_SUPPLY_V2"
  using assms by (auto simp: max_supply_for_def is_tokenomics_v2_height_def early_fork_def)

lemma minted_closed:
  assumes "early_fork e"
  shows "minted e n = min (max_supply_for e n) (TOTAL_PREMINE + (\<Sum>i<n. era_reward e i))"
proof (induction n)
  case 0
  then show ?case
    by (simp add: minted_0 max_supply_for_def supply_consts)
next
  case (Suc n)
  let ?s = "\<lambda>n. TOTAL_PREMINE + (\<Sum>i<n. era_reward e i)"
  have le: "minted e n \<le> max_supply_for e n" using Suc by simp
  have "minted e (Suc n) = min (max_supply_for e n) (minted e n + era_reward e n)"
    unfolding minted_Suc by (rule reward_capped [OF le])
  also have "\<dots> = min (max_supply_for e n) (?s (Suc n))"
    using Suc by (simp add: min_def)
  also have "\<dots> = min (max_supply_for e (Suc n)) (?s (Suc n))"
  proof -
    have "?s (Suc n) \<le> MAX_SUPPLY" "MAX_SUPPLY \<le> MAX_SUPPLY_V2" if "Suc n \<le> HALVING_INTERVAL"
      using rewards_before_fork [of e "Suc n"] that by (simp_all add: supply_consts)
    with max_supply_cases [OF assms, of n] show ?thesis by auto
  qed
  finally show ?case .
qed

lemma era_sum:
  "(\<Sum>i < n * k. BLOCK_REWARD div 2 ^ (i div k)) = k * (\<Sum>m < n. BLOCK_REWARD div 2 ^ m)" if "0 < k"
proof -
  have "(\<Sum>i < n * k. BLOCK_REWARD div 2 ^ (i div k)) = (\<Sum>m < n. \<Sum>i = m * k ..< m * k + k. BLOCK_REWARD div 2 ^ (i div k))"
    by (rule sum.nat_group [symmetric])
  also have "\<dots> = (\<Sum>m < n. \<Sum>i = m * k ..< m * k + k. BLOCK_REWARD div 2 ^ m)"
  proof (intro sum.cong refl)
    fix m i assume "i \<in> {m * k ..< m * k + k}"
    then have "i div k = m" using that by (auto simp: mult.commute [of m] intro!: div_nat_eqI)
    then show "BLOCK_REWARD div 2 ^ (i div k) = BLOCK_REWARD div 2 ^ m" by simp
  qed
  also have "\<dots> = k * (\<Sum>m < n. BLOCK_REWARD div 2 ^ m)"
    by (simp add: sum_distrib_left)
  finally show ?thesis .
qed

lemma whole_emission:
  assumes "0 < k" and "27 * k \<le> n"
  shows "(\<Sum>i < n. BLOCK_REWARD div 2 ^ (i div k)) = k * 199999988"
proof -
  have "(\<Sum>i < n. BLOCK_REWARD div 2 ^ (i div k)) =
    (\<Sum>i < 27 * k. BLOCK_REWARD div 2 ^ (i div k)) + (\<Sum>i = 27 * k ..< n. BLOCK_REWARD div 2 ^ (i div k))"
    using assms(2) by (simp add: lessThan_atLeast0 sum.atLeastLessThan_concat)
  also have "(\<Sum>i = 27 * k ..< n. BLOCK_REWARD div 2 ^ (i div k)) = 0"
    using assms(1) shifted_out by (intro sum.neutral ballI) (simp add: less_eq_div_iff_mult_less_eq)
  also have "(\<Sum>i < 27 * k. BLOCK_REWARD div 2 ^ (i div k)) = k * 199999988"
    unfolding era_sum [OF assms(1)] by (simp add: BLOCK_REWARD_def lessThan_nat_numeral)
  finally show ?thesis by simp
qed

lemma emission_without_fork:
  assumes "get_tokenomics_v2_height e = U64_MAX" and "27 * HALVING_INTERVAL \<le> n"
  shows "minted e n = 14699999496000000"
proof -
  have "early_fork e" using assms by (simp add: early_fork_def)
  moreover have "(\<Sum>i<n. era_reward e i) = HALVING_INTERVAL * 199999988"
    using whole_emission [OF _ assms(2)] assms(1) by (simp add: era_reward_unfold HALVING_INTERVAL_def)
  ultimately show ?thesis
    using assms(1) by (simp add: minted_closed max_supply_for_def is_tokenomics_v2_height_def supply_consts)
qed

lemma emission_with_fork:
  assumes "get_tokenomics_v2_height e = fork" and "fork < HALVING_INTERVAL" and "fork + 27 * HALVING_INTERVAL_V2 \<le> n"
  shows "minted e n = min MAX_SUPPLY_V2 (31499998488000000 + fork * BLOCK_REWARD)"
proof -
  have not_max: "fork \<noteq> U64_MAX" using assms(2) by (auto simp: HALVING_INTERVAL_def U64_MAX_def)
  have "early_fork e" using assms by (simp add: early_fork_def)
  have split: "{..<n} = {..<fork} \<union> {fork..<n}" using assms(3) by auto
  have "(\<Sum>i<n. era_reward e i) = (\<Sum>i<fork. era_reward e i) + (\<Sum>i = fork..<n. era_reward e i)"
    unfolding split by (rule sum.union_disjoint) auto
  also have "(\<Sum>i<fork. era_reward e i) = (\<Sum>i<fork. BLOCK_REWARD)"
    using assms(1,2) by (intro sum.cong refl) (simp add: era_reward_unfold)
  also have "(\<Sum>i = fork..<n. era_reward e i) = (\<Sum>i = fork..<n. BLOCK_REWARD div 2 ^ ((i - fork) div HALVING_INTERVAL_V2))"
    using assms(1) not_max by (intro sum.cong refl) (simp add: era_reward_unfold)
  also have "\<dots> = (\<Sum>i < n - fork. BLOCK_REWARD div 2 ^ (i div HALVING_INTERVAL_V2))"
    using assms(3) sum.shift_bounds_nat_ivl [of "\<lambda>i. BLOCK_REWARD div 2 ^ ((i - fork) div HALVING_INTERVAL_V2)" 0 fork "n - fork"]
    by (simp add: lessThan_atLeast0)
  also have "\<dots> = HALVING_INTERVAL_V2 * 199999988"
    using assms(3) by (intro whole_emission) (simp_all add: HALVING_INTERVAL_V2_def)
  finally have "(\<Sum>i<n. era_reward e i) = fork * BLOCK_REWARD + HALVING_INTERVAL_V2 * 199999988" by simp
  moreover have "is_tokenomics_v2_height e n"
    using assms not_max by (simp add: is_tokenomics_v2_height_def)
  ultimately show ?thesis
    using minted_closed [OF \<open>early_fork e\<close>, of n]
    by (simp add: max_supply_for_def HALVING_INTERVAL_V2_def TOTAL_PREMINE_def algebra_simps)
qed

lemma rewards_fall:
  assumes "early_fork e"
  shows "reward_at e (Suc n) (minted e (Suc n)) \<le> reward_at e n (minted e n)"
proof -
  have le: "minted e k \<le> max_supply_for e k" for k
    unfolding minted_closed [OF assms] by simp
  have r: "reward_at e k (minted e k) = min (era_reward e k) (max_supply_for e k - minted e k)" for k
    using reward_capped [OF le, of k] by (auto simp: min_def split: if_splits)
  have up: "minted e n \<le> minted e (Suc n)" by (simp add: minted_Suc)
  have anti: "era_reward e (Suc n) \<le> era_reward e n" by (rule era_reward_antimono [OF assms]) simp
  have room: "era_reward e n \<le> max_supply_for e n - minted e n" if "Suc n \<le> HALVING_INTERVAL" "max_supply_for e n = MAX_SUPPLY"
  proof -
    have "minted e n \<le> TOTAL_PREMINE + n * BLOCK_REWARD"
      unfolding minted_closed [OF assms] using rewards_before_fork [of e n] by linarith
    with that era_reward_le [of e n] show ?thesis by (simp add: supply_consts)
  qed
  show ?thesis
    using max_supply_cases [OF assms, of n] up anti room unfolding r by (auto simp: min_def)
qed


text \<open>The default environment of the main network, and that of the test network.\<close>

definition testnet_env :: env where
  "testnet_env = [''SENTRIX_CHAIN_ID'' \<mapsto> ''7120'']"

lemma default_forks:
  "get_tokenomics_v2_height Map.empty = U64_MAX" "get_tokenomics_v2_height testnet_env = 381651"
proof -
  have "parse_u64 ''7120'' = Some 7120"
    by (simp add: parse_u64_def is_digit_def digits_value_def U64_MAX_def)
  then show "get_tokenomics_v2_height Map.empty = U64_MAX" "get_tokenomics_v2_height testnet_env = 381651"
    by (simp_all add: get_tokenomics_v2_height_def read_height_def chain_default_def configured_chain_id_def
        MAINNET_CHAIN_ID_def TESTNET_CHAIN_ID_def TOKENOMICS_V2_HEIGHT_DEFAULT_def
        TOKENOMICS_V2_HEIGHT_TESTNET_DEFAULT_def testnet_env_def)
qed


end
