(* ===== verification/Chain.thy ===== *)
theory Chain
  imports Block Account Epoch Nft Authority Tokenomics
begin

text \<open>
  The chain state and its readers: the record \<open>Blockchain\<close> of \<open>sentrix-core/src/blockchain.rs\<close>, the
  accessors of \<open>blockchain_block_accessors.rs\<close>, epoch bookkeeping, the activation of forks
  (\<open>blockchain_activations.rs\<close>) and the system transaction a producer adds at an epoch boundary.
  Left out of the record are the display name, the event emitter, the rejection-rate tracker, the
  state trie and the storage handle.
\<close>

datatype block_source = SelfProduced | Peer

record blockchain =
  chain :: "block list"
  bc_accounts :: account_db
  bc_authority :: authority_manager
  bc_contracts :: contract_registry
  bc_nfts :: nft_registry
  mempool :: "transaction list"
  mempool_txids :: "string set"
  mempool_sender_count :: "(string, u32) hmap"
  total_minted :: u64
  bc_chain_id :: u64
  bc_stakes :: stake_registry
  bc_epochs :: epoch_manager
  bc_slashing :: slashing_engine
  source_for_current_add :: block_source
  justification_verified :: bool
  voyager_activated :: bool
  evm_activated :: bool

section \<open>Position\<close>

definition height :: "blockchain \<Rightarrow> u64" where
  "height bc = (case chain bc of [] \<Rightarrow> 0 | _ \<Rightarrow> index (last (chain bc)))"

definition chain_window_start :: "blockchain \<Rightarrow> u64" where
  "chain_window_start bc = (case chain bc of [] \<Rightarrow> 0 | b # _ \<Rightarrow> index b)"

definition latest_block :: "blockchain \<Rightarrow> block result" where
  "latest_block bc = (case chain bc of [] \<Rightarrow> Err (NotFound ''chain is empty'') | _ \<Rightarrow> Ok (last (chain bc)))"

definition get_block :: "blockchain \<Rightarrow> u64 \<Rightarrow> block option" where
  "get_block bc i =
    (let window_start = chain_window_start bc
     in if i < window_start then None
        else if i - window_start < length (chain bc) then Some (chain bc ! (i - window_start)) else None)"

definition get_block_by_hash :: "blockchain \<Rightarrow> string \<Rightarrow> block option" where
  "get_block_by_hash bc hash = find (\<lambda>b. blk_hash b = hash) (chain bc)"

fun linked :: "tx_libs \<Rightarrow> block list \<Rightarrow> bool" where
  "linked E (prev # b # rest) \<longleftrightarrow>
    (if previous_hash b \<noteq> blk_hash prev then False
     else if \<not> is_valid_hash E b then False
     else if merkle_root E (map txid (transactions b)) \<noteq> blk_merkle_root b then False
     else linked E (b # rest))"
| "linked E _ \<longleftrightarrow> True"

definition is_valid_chain_window :: "tx_libs \<Rightarrow> blockchain \<Rightarrow> bool" where
  "is_valid_chain_window E bc = linked E (chain bc)"

definition voyager_mode_for :: "env \<Rightarrow> blockchain \<Rightarrow> u64 \<Rightarrow> bool" where
  "voyager_mode_for e bc h \<longleftrightarrow> voyager_activated bc \<or> is_voyager_height e h"

definition min_active_for_bft :: "env \<Rightarrow> u64 \<Rightarrow> usize \<Rightarrow> usize" where
  "min_active_for_bft e h total_validator_count =
    (if \<not> is_bft_gate_relax_height e h then MIN_BFT_VALIDATORS
     else saturating_add_u64 (saturating_mul_u64 total_validator_count 2) 2 div 3)"

section \<open>Reward\<close>

definition get_block_reward :: "env \<Rightarrow> blockchain \<Rightarrow> u64" where
  "get_block_reward e bc = reward_at e (height bc) (total_minted bc)"

section \<open>Activation of forks\<close>

definition activate_evm :: "blockchain \<Rightarrow> blockchain" where
  "activate_evm bc =
    (if evm_activated bc then bc
     else bc\<lparr>bc_accounts := snd (migrate_to_evm (bc_accounts bc)), evm_activated := True\<rparr>)"

definition activate_voyager :: "blockchain \<Rightarrow> unit result \<times> blockchain" where
  "activate_voyager bc =
    (if voyager_activated bc then (Ok (), bc)
     else
       let addresses = map pio_address (active_validators (bc_authority bc));
           r1 = foldl (\<lambda>r a. snd (register_validator r a MIN_SELF_STAKE 1000 (height bc))) (bc_stakes bc) addresses;
           r2 = update_active_set r1
       in (Ok (), bc\<lparr>bc_stakes := r2, bc_epochs := initialize_epoch (bc_epochs bc) r2 (height bc),
             voyager_activated := True\<rparr>))"

section \<open>Epoch bookkeeping\<close>

text \<open>
  Released stake is paid out of the treasury after the reward fork and minted to the delegator before
  it; a payment that fails is logged and dropped.
\<close>

definition release_stake :: "env \<Rightarrow> u64 \<Rightarrow> account_db \<Rightarrow> string \<times> u64 \<Rightarrow> account_db" where
  "release_stake e h db p =
    (if is_reward_v2_height e h then snd (transfer db PROTOCOL_TREASURY (fst p) (snd p) 0)
     else snd (credit db (fst p) (snd p)))"

definition run_epoch_bookkeeping :: "env \<Rightarrow> blockchain \<Rightarrow> u64 \<Rightarrow> blockchain" where
  "run_epoch_bookkeeping e bc h =
    (if \<not> is_epoch_boundary h then bc
     else
       let (released, r1) = process_unbonding (bc_stakes bc) h;
           db1 = foldl (release_stake e h) (bc_accounts bc) released;
           r2 = update_active_set r1;
           active = active_set r2;
           staked = staked_by r2 active;
           em = bc_epochs bc;
           hist = epoch_history em @ [current_epoch em];
           hist1 = (if max_history em < length hist then tl hist else hist);
           next_num = wrapping_add_u64 (epoch_number (current_epoch em)) 1;
           em1 = em\<lparr>current_epoch := fresh_epoch next_num active staked, epoch_history := hist1\<rparr>;
           (slashed, eng1, r3) = check_liveness (bc_slashing bc) r2 active h;
           db2 = foldl (\<lambda>db p. burn db (snd p)) db1 slashed
       in bc\<lparr>bc_accounts := db2, bc_stakes := r3, bc_epochs := em1, bc_slashing := eng1\<rparr>)"

text \<open>The reward, liveness and epoch bundle of the block just appended.\<close>

definition apply_reward_bookkeeping :: "env \<Rightarrow> blockchain \<Rightarrow> blockchain" where
  "apply_reward_bookkeeping e bc =
    (case chain bc of
       [] \<Rightarrow> bc
     | _ \<Rightarrow>
         let latest = last (chain bc)
         in case justification latest of
              None \<Rightarrow> bc
            | Some j \<Rightarrow>
                let signers = map sp_validator (bj_precommits j);
                    reward_signers = map (\<lambda>p. (sp_validator p, stake_weight p)) (bj_precommits j);
                    active = active_set (bc_stakes bc);
                    reward = get_block_reward e bc
                in bc\<lparr>bc_slashing := record_block_signatures (bc_slashing bc) active signers (index latest),
                      bc_stakes := snd (distribute_reward (bc_stakes bc) (blk_validator latest) reward_signers reward 0),
                      bc_epochs := record_epoch_block (bc_epochs bc) reward\<rparr>)"

definition reset_reward_accumulators :: "stake_registry \<Rightarrow> stake_registry" where
  "reset_reward_accumulators r =
    r\<lparr>validators := map (\<lambda>(k, v). (k, v\<lparr>pending_rewards := 0\<rparr>)) (validators r), delegator_rewards := []\<rparr>"

section \<open>Jail evidence\<close>

definition build_jail_evidence_system_tx :: "tx_libs \<Rightarrow> env \<Rightarrow> blockchain \<Rightarrow> u64 \<Rightarrow> u64 \<Rightarrow> transaction option" where
  "build_jail_evidence_system_tx E e bc next_height block_timestamp =
    (if \<not> is_jail_consensus_height e next_height then None
     else if \<not> is_epoch_boundary next_height then None
     else
       let active = active_set (bc_stakes bc);
           evidence = compute_jail_evidence (bc_slashing bc) active next_height
       in if evidence = [] then None
          else
            let epoch = epoch_for_height next_height;
                epoch_start_block = saturating_mul_u64 epoch EPOCH_LENGTH;
                op = JailEvidenceBundle epoch epoch_start_block next_height evidence active
            in case new_jail_evidence_bundle E op next_height block_timestamp of
                 Ok tx \<Rightarrow> Some tx
               | Err _ \<Rightarrow> None)"

end
