(* ===== verification/Mempool.thy ===== *)
theory Mempool
  imports Chain
begin

text \<open>
  The mempool of \<open>sentrix-core/src/mempool.rs\<close>: admission, its two sidecar indexes, age and nonce
  pruning, and the removal of mined transactions at the end of block application. The clock is an
  argument, and so are \<open>bincode::serialized_size\<close> and \<open>VecDeque::partition_point\<close>: the latter is
  specified only on a partitioned queue, and the mempool's queue is not always partitioned by fee.
\<close>

definition MAX_MEMPOOL_SIZE :: usize where "MAX_MEMPOOL_SIZE = 10000"
definition MAX_MEMPOOL_PER_SENDER :: usize where "MAX_MEMPOOL_PER_SENDER = 100"
definition MEMPOOL_MAX_AGE_SECS :: u64 where "MEMPOOL_MAX_AGE_SECS = 3600"
definition MAX_TX_SIZE :: usize where "MAX_TX_SIZE = 128 * 1024"

lemmas mempool_consts =
  MAX_MEMPOOL_SIZE_def MAX_MEMPOOL_PER_SENDER_def MEMPOOL_MAX_AGE_SECS_def MAX_TX_SIZE_def

record queue_libs =
  serialized_size :: "transaction \<Rightarrow> u64 option"
  partition_point :: "(transaction \<Rightarrow> bool) \<Rightarrow> transaction list \<Rightarrow> usize"

definition mempool_pending_count :: "blockchain \<Rightarrow> string \<Rightarrow> u64" where
  "mempool_pending_count bc address =
    (case hget (mempool_sender_count bc) address of Some n \<Rightarrow> n | None \<Rightarrow> 0)"

definition mempool_pending_spend :: "blockchain \<Rightarrow> string \<Rightarrow> u64" where
  "mempool_pending_spend bc address =
    foldl saturating_add_u64 0
      (map (\<lambda>tx. saturating_add_u64 (tx_amount tx) (tx_fee tx))
        (filter (\<lambda>tx. from_address tx = address) (mempool bc)))"

definition mempool_size :: "blockchain \<Rightarrow> usize" where
  "mempool_size bc = length (mempool bc)"

text \<open>\<open>Iterator::rposition\<close>.\<close>

fun rposition :: "('a \<Rightarrow> bool) \<Rightarrow> 'a list \<Rightarrow> nat option" where
  "rposition P [] = None"
| "rposition P (x # xs) =
    (case rposition P xs of Some i \<Rightarrow> Some (i + 1) | None \<Rightarrow> if P x then Some 0 else None)"

definition bump_count :: "(string, u32) hmap \<Rightarrow> string \<Rightarrow> (string, u32) hmap" where
  "bump_count m a = hput m a (wrapping_add_u32 (case hget m a of Some n \<Rightarrow> n | None \<Rightarrow> 0) 1)"

definition mempool_insert :: "queue_libs \<Rightarrow> blockchain \<Rightarrow> transaction \<Rightarrow> blockchain" where
  "mempool_insert Q bc tx =
    (let fee_pos = partition_point Q (\<lambda>existing. tx_fee tx \<le> tx_fee existing) (mempool bc);
         same_sender_last =
           map_option (\<lambda>i. i + 1) (rposition (\<lambda>existing. from_address existing = from_address tx) (mempool bc));
         pos = (case same_sender_last of Some min_pos \<Rightarrow> max fee_pos min_pos | None \<Rightarrow> fee_pos)
     in bc\<lparr>mempool := take pos (mempool bc) @ tx # drop pos (mempool bc),
           mempool_txids := insert (txid tx) (mempool_txids bc),
           mempool_sender_count := bump_count (mempool_sender_count bc) (from_address tx)\<rparr>)"

definition add_to_mempool ::
  "tx_libs \<Rightarrow> queue_libs \<Rightarrow> u64 \<Rightarrow> blockchain \<Rightarrow> transaction \<Rightarrow> unit result \<times> blockchain" where
  "add_to_mempool E Q now bc tx =
    (if is_coinbase tx
     then (Err (InvalidTransaction ''cannot manually add coinbase to mempool''), bc)
     else if (case serialized_size Q tx of Some sz \<Rightarrow> MAX_TX_SIZE < sz | None \<Rightarrow> False)
     then (Err (InvalidTransaction (''tx size '' @ show_nat (the (serialized_size Q tx)) @
            '' bytes exceeds limit '' @ show_nat MAX_TX_SIZE)), bc)
     else if MAX_MEMPOOL_SIZE \<le> length (mempool bc)
     then (Err (InvalidTransaction (''mempool full '' @ em_dash @ '' try again later'')), bc)
     else if MAX_MEMPOOL_PER_SENDER \<le> mempool_pending_count bc (from_address tx)
     then (Err (InvalidTransaction ''too many pending transactions from this sender''), bc)
     else if \<not> is_valid_sentrix_address (to_address tx)
     then (Err (InvalidTransaction (''invalid to_address: '' @ [CHR 0x27] @ to_address tx @ [CHR 0x27])), bc)
     else if to_address tx = TOKEN_OP_ADDRESS \<and> \<not> is_token_op E (tx_data tx) \<and> \<not> is_evm_tx tx
     then (Err (InvalidTransaction (''cannot send SRX to zero address '' @ em_dash @
            '' use TokenOp::Burn to explicitly burn tokens'')), bc)
     else if wrapping_add_u64 now 300 < tx_timestamp tx
     then (Err (InvalidTransaction ''transaction timestamp too far in the future (max +5 min)''), bc)
     else if saturating_add_u64 (tx_timestamp tx) MEMPOOL_MAX_AGE_SECS < now
     then (Err (InvalidTransaction (''transaction too old '' @ em_dash @ '' max age '' @
            show_nat MEMPOOL_MAX_AGE_SECS @ '' seconds'')), bc)
     else if txid tx \<in> mempool_txids bc
     then (Err (InvalidTransaction (''duplicate txid in mempool: '' @ txid tx)), bc)
     else
       let expected_nonce =
             wrapping_add_u64 (get_nonce (bc_accounts bc) (from_address tx)) (mempool_pending_count bc (from_address tx))
       in case tx_validate E tx expected_nonce (bc_chain_id bc) of
            Err e \<Rightarrow> (Err e, bc)
          | Ok _ \<Rightarrow>
              let pending_spend = mempool_pending_spend bc (from_address tx);
                  available = saturating_sub (get_balance (bc_accounts bc) (from_address tx)) pending_spend
              in ok_or (checked_add_u64 (tx_amount tx) (tx_fee tx)) (InvalidTransaction ''amount + fee overflow'') bc
                   (\<lambda>needed.
                     if available < needed then (Err (InsufficientBalance available needed), bc)
                     else (Ok (), mempool_insert Q bc tx)))"

definition clear_mempool :: "blockchain \<Rightarrow> blockchain" where
  "clear_mempool bc = bc\<lparr>mempool := [], mempool_txids := {}, mempool_sender_count := []\<rparr>"

definition rebuild_mempool_sidecars :: "blockchain \<Rightarrow> blockchain" where
  "rebuild_mempool_sidecars bc =
    foldl (\<lambda>bc tx. bc\<lparr>mempool_txids := insert (txid tx) (mempool_txids bc),
             mempool_sender_count := bump_count (mempool_sender_count bc) (from_address tx)\<rparr>)
      (bc\<lparr>mempool_txids := {}, mempool_sender_count := []\<rparr>) (mempool bc)"

definition prune_mempool :: "u64 \<Rightarrow> blockchain \<Rightarrow> blockchain" where
  "prune_mempool now bc =
    rebuild_mempool_sidecars
      (bc\<lparr>mempool := filter (\<lambda>tx. now \<le> saturating_add_u64 (tx_timestamp tx) MEMPOOL_MAX_AGE_SECS) (mempool bc)\<rparr>)"

definition evict_stale_nonce_for_senders :: "string list \<Rightarrow> blockchain \<Rightarrow> blockchain" where
  "evict_stale_nonce_for_senders senders bc =
    (if senders = [] then bc
     else
       let nonces = map (\<lambda>a. (a, get_nonce (bc_accounts bc) a)) senders
       in rebuild_mempool_sidecars
            (bc\<lparr>mempool := filter (\<lambda>tx. case map_of nonces (from_address tx) of
                 Some finalized \<Rightarrow> finalized \<le> tx_nonce tx | None \<Rightarrow> True) (mempool bc)\<rparr>))"

text \<open>The end of block application: mined transactions leave, then stale and expired ones.\<close>

definition mempool_after_block :: "u64 \<Rightarrow> block \<Rightarrow> blockchain \<Rightarrow> blockchain" where
  "mempool_after_block now b bc =
    (let mined_txids = map txid (transactions b);
         bc1 = rebuild_mempool_sidecars
           (bc\<lparr>mempool := filter (\<lambda>tx. txid tx \<notin> set mined_txids) (mempool bc)\<rparr>);
         bumped_senders = map from_address (transactions b)
     in prune_mempool now (evict_stale_nonce_for_senders bumped_senders bc1))"

end
