(* ===== verification/Mempool_Thms.thy ===== *)
theory Mempool_Thms
  imports Mempool
begin

text \<open>
  The mempool's invariants: its indexes mirror the queue over any history, and the queue can be
  executed in order.
\<close>

section \<open>The sidecars mirror the queue\<close>

definition pending_from :: "transaction list \<Rightarrow> string \<Rightarrow> transaction list" where
  "pending_from xs a = filter (\<lambda>tx. from_address tx = a) xs"

definition sidecars_ok :: "blockchain \<Rightarrow> bool" where
  "sidecars_ok bc \<longleftrightarrow> mempool_txids bc = set (map txid (mempool bc)) \<and>
    (\<forall>a. mempool_pending_count bc a = length (pending_from (mempool bc) a))"

definition pool_inv :: "blockchain \<Rightarrow> bool" where
  "pool_inv bc \<longleftrightarrow> sidecars_ok bc \<and> distinct (map txid (mempool bc)) \<and>
    length (mempool bc) \<le> MAX_MEMPOOL_SIZE \<and>
    (\<forall>a. length (pending_from (mempool bc) a) \<le> MAX_MEMPOOL_PER_SENDER) \<and>
    list_all (\<lambda>tx. \<not> is_coinbase tx) (mempool bc)"

datatype pool_op =
    PoolAdd u64 transaction
  | PoolPrune u64
  | PoolEvict "string list"
  | PoolBlock u64 block account_db
  | PoolClear

text \<open>A block changes the accounts before the mempool is cleaned up.\<close>

fun pool_after :: "tx_libs \<Rightarrow> queue_libs \<Rightarrow> blockchain \<Rightarrow> pool_op \<Rightarrow> blockchain" where
  "pool_after E Q bc (PoolAdd now tx) = snd (add_to_mempool E Q now bc tx)"
| "pool_after E Q bc (PoolPrune now) = prune_mempool now bc"
| "pool_after E Q bc (PoolEvict senders) = evict_stale_nonce_for_senders senders bc"
| "pool_after E Q bc (PoolBlock now b db) = mempool_after_block now b (bc\<lparr>bc_accounts := db\<rparr>)"
| "pool_after E Q bc PoolClear = clear_mempool bc"

lemma bump_count_get:
  "(case hget (bump_count m a) b of Some n \<Rightarrow> n | None \<Rightarrow> 0) =
    (if a = b then wrapping_add_u32 (case hget m b of Some n \<Rightarrow> n | None \<Rightarrow> 0) 1
     else case hget m b of Some n \<Rightarrow> n | None \<Rightarrow> 0)"
  by (simp add: bump_count_def update_conv')

lemma rebuild_fold:
  defines "go \<equiv> foldl (\<lambda>bc tx. bc\<lparr>mempool_txids := insert (txid tx) (mempool_txids bc),
             mempool_sender_count := bump_count (mempool_sender_count bc) (from_address tx)\<rparr>)"
  assumes "\<forall>a. mempool_pending_count bc a + length (pending_from xs a) \<le> U32_MAX"
  shows "mempool (go bc xs) = mempool bc \<and> mempool_txids (go bc xs) = mempool_txids bc \<union> set (map txid xs) \<and>
    (\<forall>a. mempool_pending_count (go bc xs) a = mempool_pending_count bc a + length (pending_from xs a)) \<and>
    bc_accounts (go bc xs) = bc_accounts bc \<and> bc_chain_id (go bc xs) = bc_chain_id bc"
  using assms(2)
proof (induction xs arbitrary: bc)
  case Nil
  then show ?case by (simp add: go_def pending_from_def)
next
  case (Cons tx xs)
  let ?b = "bc\<lparr>mempool_txids := insert (txid tx) (mempool_txids bc),
             mempool_sender_count := bump_count (mempool_sender_count bc) (from_address tx)\<rparr>"
  have count: "mempool_pending_count ?b a = mempool_pending_count bc a + (if from_address tx = a then 1 else 0)" for a
  proof (cases "from_address tx = a")
    case True
    with Cons.prems [rule_format, of a] have "mempool_pending_count bc a + 1 \<le> U32_MAX" by (simp add: pending_from_def)
    with True show ?thesis
      by (simp add: mempool_pending_count_def bump_count_get wrapping_add_u32_def U32_MAX_def)
  next
    case False
    then show ?thesis by (simp add: mempool_pending_count_def bump_count_get)
  qed
  have "\<forall>a. mempool_pending_count ?b a + length (pending_from xs a) \<le> U32_MAX"
  proof
    fix a show "mempool_pending_count ?b a + length (pending_from xs a) \<le> U32_MAX"
      using Cons.prems [rule_format, of a] unfolding count by (simp add: pending_from_def split: if_splits)
  qed
  from Cons.IH [OF this] show ?case
    unfolding count by (auto simp: go_def pending_from_def)
qed

lemma rebuild_mempool_sidecars:
  assumes "length (mempool bc) \<le> U32_MAX"
  shows "sidecars_ok (rebuild_mempool_sidecars bc)" and "mempool (rebuild_mempool_sidecars bc) = mempool bc"
    and "bc_accounts (rebuild_mempool_sidecars bc) = bc_accounts bc"
    and "bc_chain_id (rebuild_mempool_sidecars bc) = bc_chain_id bc"
proof -
  let ?b = "bc\<lparr>mempool_txids := {}, mempool_sender_count := []\<rparr>"
  have "length (pending_from (mempool bc) a) \<le> U32_MAX" for a
    using assms length_filter_le [of _ "mempool bc"] unfolding pending_from_def by (rule le_trans [rotated])
  then have "\<forall>a. mempool_pending_count ?b a + length (pending_from (mempool bc) a) \<le> U32_MAX"
    by (simp add: mempool_pending_count_def)
  note fold = rebuild_fold [OF this]
  show "sidecars_ok (rebuild_mempool_sidecars bc)" "mempool (rebuild_mempool_sidecars bc) = mempool bc"
    "bc_accounts (rebuild_mempool_sidecars bc) = bc_accounts bc"
    "bc_chain_id (rebuild_mempool_sidecars bc) = bc_chain_id bc"
    using fold by (simp_all add: rebuild_mempool_sidecars_def sidecars_ok_def mempool_pending_count_def)
qed

lemma pool_inv_retain:
  assumes "pool_inv bc" and "xs = filter P (mempool bc)"
  shows "pool_inv (rebuild_mempool_sidecars (bc\<lparr>mempool := xs\<rparr>))"
proof -
  let ?b = "bc\<lparr>mempool := xs\<rparr>"
  have len: "length xs \<le> length (mempool bc)" unfolding assms(2) by (rule length_filter_le)
  then have small: "length (mempool ?b) \<le> U32_MAX"
    using assms(1) by (simp add: pool_inv_def MAX_MEMPOOL_SIZE_def U32_MAX_def)
  have "length (pending_from xs a) \<le> length (pending_from (mempool bc) a)" for a
  proof -
    have "pending_from xs a = filter P (pending_from (mempool bc) a)"
      by (simp add: assms(2) pending_from_def conj_commute)
    then show ?thesis by simp
  qed
  then show ?thesis
    using assms len rebuild_mempool_sidecars(1,2) [OF small]
    by (auto simp: pool_inv_def list_all_iff distinct_map_filter intro: le_trans le_trans [OF length_filter_le])
qed

section \<open>Admission\<close>

lemma rposition_None: "rposition P xs = None \<longleftrightarrow> (\<forall>x \<in> set xs. \<not> P x)"
  by (induction xs) (auto split: option.splits)

lemma after_rposition:
  "rposition P xs = Some i \<Longrightarrow> i + 1 \<le> n \<Longrightarrow> filter P (drop n xs) = []"
proof (induction xs arbitrary: i n)
  case (Cons x xs)
  show ?case
  proof (cases n)
    case (Suc m)
    show ?thesis
    proof (cases "rposition P xs")
      case None
      then have "filter P xs = []" by (simp add: rposition_None)
      then have "filter P (drop m xs) = []" by (auto simp: filter_empty_conv dest: in_set_dropD)
      with Suc show ?thesis by simp
    next
      case (Some j)
      with Cons Suc show ?thesis by auto
    qed
  qed (use Cons.prems in simp)
qed simp

text \<open>The new transaction comes after every pending one of its sender, wherever its fee puts it.\<close>

lemma mempool_insert_queue:
  "pending_from (mempool (mempool_insert Q bc tx)) a =
    pending_from (mempool bc) a @ (if from_address tx = a then [tx] else [])"
  "mset (mempool (mempool_insert Q bc tx)) = add_mset tx (mset (mempool bc))"
proof -
  define pos where "pos =
    (case map_option (\<lambda>i. i + 1) (rposition (\<lambda>existing. from_address existing = from_address tx) (mempool bc)) of
      Some min_pos \<Rightarrow> max (partition_point Q (\<lambda>existing. tx_fee tx \<le> tx_fee existing) (mempool bc)) min_pos
    | None \<Rightarrow> partition_point Q (\<lambda>existing. tx_fee tx \<le> tx_fee existing) (mempool bc))"
  have new: "mempool (mempool_insert Q bc tx) = take pos (mempool bc) @ tx # drop pos (mempool bc)"
    by (simp add: mempool_insert_def pos_def)
  have "filter (\<lambda>t. from_address t = from_address tx) (drop pos (mempool bc)) = []"
  proof (cases "rposition (\<lambda>existing. from_address existing = from_address tx) (mempool bc)")
    case None
    then show ?thesis by (auto simp: rposition_None filter_empty_conv dest: in_set_dropD)
  next
    case (Some i)
    then have "i + 1 \<le> pos" by (simp add: pos_def)
    with Some show ?thesis by (rule after_rposition)
  qed
  moreover have "pending_from (take pos (mempool bc)) a @ pending_from (drop pos (mempool bc)) a = pending_from (mempool bc) a"
    unfolding pending_from_def filter_append [symmetric] by simp
  ultimately show "pending_from (mempool (mempool_insert Q bc tx)) a =
      pending_from (mempool bc) a @ (if from_address tx = a then [tx] else [])"
    unfolding new by (auto simp: pending_from_def)
  have "mset (take pos (mempool bc)) + mset (drop pos (mempool bc)) = mset (mempool bc)"
    by (metis append_take_drop_id mset_append)
  then show "mset (mempool (mempool_insert Q bc tx)) = add_mset tx (mset (mempool bc))"
    unfolding new by simp
qed

text \<open>What admission has checked.\<close>

lemma add_to_mempool_Ok:
  assumes "add_to_mempool E Q now bc tx = (Ok u, bc')"
  shows "bc' = mempool_insert Q bc tx" and "\<not> is_coinbase tx" and "length (mempool bc) < MAX_MEMPOOL_SIZE"
    and "mempool_pending_count bc (from_address tx) < MAX_MEMPOOL_PER_SENDER" and "txid tx \<notin> mempool_txids bc"
    and "tx_validate E tx (wrapping_add_u64 (get_nonce (bc_accounts bc) (from_address tx))
          (mempool_pending_count bc (from_address tx))) (bc_chain_id bc) = Ok ()"
    and "tx_amount tx + tx_fee tx \<le> U64_MAX"
    and "tx_amount tx + tx_fee tx \<le> get_balance (bc_accounts bc) (from_address tx) - mempool_pending_spend bc (from_address tx)"
  using assms
  by (auto simp: add_to_mempool_def checked_add_u64_def saturating_sub_def not_le
      split: if_splits result.splits ok_or_splits)

lemma add_to_mempool_Err: "add_to_mempool E Q now bc tx = (Err e, bc') \<Longrightarrow> bc' = bc"
  by (auto simp: add_to_mempool_def split: if_splits result.splits ok_or_splits)

lemma add_to_mempool_cases:
  obtains "snd (add_to_mempool E Q now bc tx) = bc"
  | "add_to_mempool E Q now bc tx = (Ok (), mempool_insert Q bc tx)"
proof (cases "fst (add_to_mempool E Q now bc tx)")
  case (Ok u)
  then have "add_to_mempool E Q now bc tx = (Ok u, snd (add_to_mempool E Q now bc tx))" by (metis prod.collapse)
  with add_to_mempool_Ok(1) [OF this] that(2) show thesis by simp
next
  case (Err e)
  then have "add_to_mempool E Q now bc tx = (Err e, snd (add_to_mempool E Q now bc tx))" by (metis prod.collapse)
  with add_to_mempool_Err [OF this] that(1) show thesis by simp
qed

lemma pool_inv_add:
  assumes "pool_inv bc"
  shows "pool_inv (snd (add_to_mempool E Q now bc tx))"
proof (rule add_to_mempool_cases [of E Q now bc tx])
  assume ok: "add_to_mempool E Q now bc tx = (Ok (), mempool_insert Q bc tx)"
  let ?b = "mempool_insert Q bc tx"
  note new = mempool_insert_queue [of Q bc tx]
  have count: "mempool_pending_count bc a = length (pending_from (mempool bc) a)" for a
    using assms by (simp add: pool_inv_def sidecars_ok_def)
  have "length (pending_from (mempool bc) (from_address tx)) < MAX_MEMPOOL_PER_SENDER"
    using add_to_mempool_Ok(4) [OF ok] by (simp add: count)
  then have per: "length (pending_from (mempool ?b) a) \<le> MAX_MEMPOOL_PER_SENDER" for a
    using assms new(1) by (auto simp: pool_inv_def)
  have "mempool_pending_count ?b a = length (pending_from (mempool ?b) a)" for a
  proof -
    have "mempool_pending_count ?b a =
      (if from_address tx = a then wrapping_add_u32 (mempool_pending_count bc a) 1 else mempool_pending_count bc a)"
      by (simp add: mempool_pending_count_def mempool_insert_def bump_count_get)
    also have "\<dots> = length (pending_from (mempool ?b) a)"
      using per [of a] by (auto simp: count new(1) wrapping_add_u32_def MAX_MEMPOOL_PER_SENDER_def)
    finally show ?thesis .
  qed
  moreover have "set (mempool ?b) = insert tx (set (mempool bc))"
    using new(2) by (metis set_mset_add_mset_insert set_mset_mset)
  moreover have "distinct (map txid (mempool ?b))"
  proof -
    have "mset (map txid (mempool ?b)) = mset (txid tx # map txid (mempool bc))" by (simp add: new(2))
    moreover have "distinct (txid tx # map txid (mempool bc))"
      using assms add_to_mempool_Ok(5) [OF ok] by (auto simp: pool_inv_def sidecars_ok_def)
    ultimately show ?thesis by (metis mset_eq_imp_distinct_iff)
  qed
  moreover have "length (mempool ?b) = Suc (length (mempool bc))"
    using arg_cong [OF new(2), of size] by simp
  moreover have "mempool_txids ?b = insert (txid tx) (mempool_txids bc)"
    by (simp add: mempool_insert_def)
  ultimately have "pool_inv ?b"
    using assms add_to_mempool_Ok(2,3) [OF ok] per by (auto simp: pool_inv_def sidecars_ok_def list_all_iff)
  then show ?thesis by (simp add: ok)
qed (use assms in simp)

lemma pool_inv_prune: "pool_inv bc \<Longrightarrow> pool_inv (prune_mempool now bc)"
  unfolding prune_mempool_def by (rule pool_inv_retain) (assumption, rule refl)

lemma pool_inv_evict: "pool_inv bc \<Longrightarrow> pool_inv (evict_stale_nonce_for_senders ss bc)"
  unfolding evict_stale_nonce_for_senders_def Let_def
  by (cases "ss = []") (auto intro: pool_inv_retain)

lemma pool_inv_clear: "pool_inv (clear_mempool bc)"
  by (simp add: pool_inv_def sidecars_ok_def clear_mempool_def mempool_pending_count_def pending_from_def)

lemma pool_inv_accounts: "pool_inv bc \<Longrightarrow> pool_inv (bc\<lparr>bc_accounts := db\<rparr>)"
  by (simp add: pool_inv_def sidecars_ok_def mempool_pending_count_def)

lemma pool_inv_after: "pool_inv bc \<Longrightarrow> pool_inv (pool_after E Q bc op)"
proof (cases op)
  case (PoolBlock now b db)
  assume "pool_inv bc"
  then have "pool_inv (bc\<lparr>bc_accounts := db\<rparr>)" by (rule pool_inv_accounts)
  from pool_inv_retain [OF this refl] show ?thesis
    unfolding PoolBlock pool_after.simps mempool_after_block_def Let_def
    by (intro pool_inv_prune pool_inv_evict) simp
qed (simp_all add: pool_inv_add pool_inv_prune pool_inv_evict pool_inv_clear)

definition pool_empty :: "blockchain \<Rightarrow> bool" where
  "pool_empty bc \<longleftrightarrow> (\<exists>bc0. bc = clear_mempool bc0)"

definition pool_trans :: "tx_libs \<Rightarrow> queue_libs \<Rightarrow> blockchain \<Rightarrow> pool_op \<Rightarrow> blockchain \<Rightarrow> bool" where
  "pool_trans E Q bc op bc' \<longleftrightarrow> bc' = pool_after E Q bc op"

interpretation pool: transition_system pool_empty "pool_trans E Q" pool_inv for E Q
  by unfold_locales (auto simp: pool_empty_def pool_trans_def pool_inv_clear intro: pool_inv_after)

lemma pool_run_steps: "pool.steps E Q bc ops (foldl (pool_after E Q) bc ops)"
  by (induction ops arbitrary: bc) (auto simp: pool_trans_def intro: pool.steps.intros)

section \<open>Properties\<close>

text \<open>
  (C34) Over any sequence of admissions, pruning, evictions, blocks and clears, failed admissions
  included, the two indexes mirror the queue: the id set is the set of queued ids, which are
  distinct, and every sender's counter is its number of queued transactions. The queue holds at most
  10000 transactions and at most 100 per sender, and no coinbase.
\<close>

theorem mempool_consistent:
  "let bc' = foldl (pool_after E Q) (clear_mempool bc) ops
   in mempool_txids bc' = set (map txid (mempool bc')) \<and> distinct (map txid (mempool bc')) \<and>
     mempool_pending_count bc' a = length (filter (\<lambda>tx. from_address tx = a) (mempool bc')) \<and>
     mempool_pending_count bc' a \<le> MAX_MEMPOOL_PER_SENDER \<and> mempool_size bc' \<le> MAX_MEMPOOL_SIZE \<and>
     list_all (\<lambda>tx. \<not> is_coinbase tx) (mempool bc')"
  using pool.steps_inv [OF pool_run_steps pool_inv_clear, of E Q bc ops]
  by (simp add: pool_inv_def sidecars_ok_def pending_from_def mempool_size_def)

text \<open>A sender's pending transactions in queue order, each valid at the nonce its place gives it.\<close>

definition tx_needs :: "transaction \<Rightarrow> nat" where
  "tx_needs tx = tx_amount tx + tx_fee tx"

definition queue_ready :: "tx_libs \<Rightarrow> u64 \<Rightarrow> account_db \<Rightarrow> string \<Rightarrow> transaction list \<Rightarrow> bool" where
  "queue_ready E cid db a xs \<longleftrightarrow>
    (\<forall>i < length xs. tx_validate E (xs ! i) (get_nonce db a + i) cid = Ok ()) \<and>
    sum_list (map tx_needs xs) \<le> get_balance db a"

definition ready_inv :: "tx_libs \<Rightarrow> u64 \<Rightarrow> account_db \<Rightarrow> blockchain \<Rightarrow> bool" where
  "ready_inv E cid db bc \<longleftrightarrow> pool_inv bc \<and> bc_accounts bc = db \<and> bc_chain_id bc = cid \<and>
    list_all (\<lambda>tx. \<not> is_system_tx E tx) (mempool bc) \<and>
    (\<forall>a. queue_ready E cid db a (pending_from (mempool bc) a))"

lemma saturating_sum:
  "sum_list xs \<le> U64_MAX \<Longrightarrow> list_all (\<lambda>x. x \<le> U64_MAX) xs \<Longrightarrow> s + sum_list xs \<le> U64_MAX \<Longrightarrow>
    foldl saturating_add_u64 s xs = s + sum_list xs"
  by (induction xs arbitrary: s) (simp_all add: saturating_add_u64_id add.assoc)

lemma pending_spend_exact:
  assumes "sum_list (map tx_needs (pending_from (mempool bc) a)) \<le> U64_MAX"
  shows "mempool_pending_spend bc a = sum_list (map tx_needs (pending_from (mempool bc) a))"
proof -
  have each: "tx_needs tx \<le> U64_MAX" if "tx \<in> set (pending_from (mempool bc) a)" for tx
    using member_le_sum_list [of "tx_needs tx" "map tx_needs (pending_from (mempool bc) a)"] that assms by auto
  then have eq: "map (\<lambda>tx. saturating_add_u64 (tx_amount tx) (tx_fee tx)) (pending_from (mempool bc) a) =
      map tx_needs (pending_from (mempool bc) a)"
    by (auto simp: tx_needs_def saturating_add_u64_id)
  have "mempool_pending_spend bc a = foldl saturating_add_u64 0 (map tx_needs (pending_from (mempool bc) a))"
    unfolding mempool_pending_spend_def pending_from_def [symmetric] eq ..
  also have "\<dots> = sum_list (map tx_needs (pending_from (mempool bc) a))"
    using saturating_sum [of "map tx_needs (pending_from (mempool bc) a)" 0] assms each by (simp add: list_all_iff)
  finally show ?thesis .
qed

lemma ready_inv_add:
  assumes "ready_inv E cid db bc" and "\<not> is_system_tx E tx"
    and "get_nonce db (from_address tx) + MAX_MEMPOOL_PER_SENDER \<le> U64_MAX"
    and "get_balance db (from_address tx) \<le> U64_MAX"
  shows "ready_inv E cid db (snd (add_to_mempool E Q now bc tx))"
proof (rule add_to_mempool_cases [of E Q now bc tx])
  assume ok: "add_to_mempool E Q now bc tx = (Ok (), mempool_insert Q bc tx)"
  let ?a = "from_address tx" and ?b = "mempool_insert Q bc tx"
  let ?xs = "pending_from (mempool bc) ?a"
  have inv: "pool_inv bc" and db: "bc_accounts bc = db" and cid: "bc_chain_id bc = cid"
    and ready: "queue_ready E cid db ?a ?xs"
    using assms(1) by (simp_all add: ready_inv_def)
  have count: "mempool_pending_count bc ?a = length ?xs"
    using inv by (simp add: pool_inv_def sidecars_ok_def)
  have "wrapping_add_u64 (get_nonce db ?a) (length ?xs) = get_nonce db ?a + length ?xs"
    using add_to_mempool_Ok(4) [OF ok] assms(3) by (intro wrapping_add_u64_id) (simp add: count)
  then have valid: "tx_validate E tx (get_nonce db ?a + length ?xs) cid = Ok ()"
    using add_to_mempool_Ok(6) [OF ok] by (simp add: count db cid)
  have le: "sum_list (map tx_needs ?xs) \<le> get_balance db ?a" using ready by (simp add: queue_ready_def)
  then have "mempool_pending_spend bc ?a = sum_list (map tx_needs ?xs)"
    using assms(4) by (intro pending_spend_exact) simp
  then have "sum_list (map tx_needs ?xs) + tx_needs tx \<le> get_balance db ?a"
    using add_to_mempool_Ok(8) [OF ok] le by (simp add: tx_needs_def db)
  with ready valid have "queue_ready E cid db ?a (?xs @ [tx])"
    by (auto simp: queue_ready_def nth_append less_Suc_eq)
  moreover have "set (mempool ?b) = insert tx (set (mempool bc))"
    using mempool_insert_queue(2) [of Q bc tx] by (metis set_mset_add_mset_insert set_mset_mset)
  moreover have "bc_accounts ?b = db" "bc_chain_id ?b = cid"
    by (simp_all add: mempool_insert_def db cid)
  ultimately have "ready_inv E cid db ?b"
    using assms(1,2) pool_inv_add [OF inv, of E Q now tx] ok
    by (auto simp: ready_inv_def mempool_insert_queue(1) list_all_iff)
  then show ?thesis by (simp add: ok)
qed (use assms(1) in simp)

lemma queue_ready_at:
  assumes "queue_ready E cid db a (pending_from (earlier @ tx # later) a)" and "from_address tx = a"
  shows "tx_validate E tx (get_nonce db a + length (pending_from earlier a)) cid = Ok ()"
    and "sum_list (map tx_needs (pending_from (earlier @ [tx]) a)) \<le> get_balance db a"
proof -
  have split: "pending_from (earlier @ tx # later) a = pending_from earlier a @ tx # pending_from later a"
    using assms(2) by (simp add: pending_from_def)
  from assms(1) have "\<forall>i < length (pending_from earlier a @ tx # pending_from later a).
      tx_validate E ((pending_from earlier a @ tx # pending_from later a) ! i) (get_nonce db a + i) cid = Ok ()"
    unfolding split queue_ready_def by simp
  from this [rule_format, of "length (pending_from earlier a)"]
  show "tx_validate E tx (get_nonce db a + length (pending_from earlier a)) cid = Ok ()" by simp
  from assms show "sum_list (map tx_needs (pending_from (earlier @ [tx]) a)) \<le> get_balance db a"
    by (simp add: queue_ready_def pending_from_def)
qed

text \<open>
  (C10) The queue can be executed in order. After any admissions into an empty mempool, failed ones
  included, every queued transaction is valid at the nonce its sender has once the transactions
  queued before it have run, and the sender's balance covers all of them and it, whatever the fees.
  System transactions are excepted: admission does not check their nonce.
\<close>

theorem mempool_ready:
  assumes "bc' = foldl (\<lambda>b (now, tx). snd (add_to_mempool E Q now b tx)) (clear_mempool bc) adds"
    and "list_all (\<lambda>(now, tx). \<not> is_system_tx E tx) adds"
    and "\<forall>a. get_nonce (bc_accounts bc) a + MAX_MEMPOOL_PER_SENDER \<le> U64_MAX"
    and "\<forall>a. get_balance (bc_accounts bc) a \<le> U64_MAX"
    and "mempool bc' = earlier @ tx # later"
  shows "let before = filter (\<lambda>t. from_address t = from_address tx) earlier;
             nonce = get_nonce (bc_accounts bc) (from_address tx) + length before
         in tx_nonce tx = nonce \<and> tx_validate E tx nonce (bc_chain_id bc) = Ok () \<and>
           (\<Sum>t \<leftarrow> before. tx_amount t + tx_fee t) + (tx_amount tx + tx_fee tx) \<le>
             get_balance (bc_accounts bc) (from_address tx)"
proof -
  let ?db = "bc_accounts bc" and ?cid = "bc_chain_id bc" and ?a = "from_address tx"
  have add: "ready_inv E ?cid ?db (snd (add_to_mempool E Q now b t))"
    if "ready_inv E ?cid ?db b" "\<not> is_system_tx E t" for b now t
    using that assms(3,4) by (intro ready_inv_add) auto
  have "ready_inv E ?cid ?db (foldl (\<lambda>b (now, tx). snd (add_to_mempool E Q now b tx)) b adds)"
    if "ready_inv E ?cid ?db b" for b
    using assms(2) that by (induction adds arbitrary: b) (auto simp: add)
  moreover have "ready_inv E ?cid ?db (clear_mempool bc)"
    using pool_inv_clear [of bc] by (simp add: ready_inv_def clear_mempool_def pending_from_def queue_ready_def)
  ultimately have inv: "ready_inv E ?cid ?db bc'" unfolding assms(1) by blast
  then have "queue_ready E ?cid ?db ?a (pending_from (earlier @ tx # later) ?a)"
    by (simp add: ready_inv_def assms(5))
  note ready = queue_ready_at [OF this refl]
  have "\<not> is_coinbase tx" "\<not> is_system_tx E tx"
    using inv by (simp_all add: ready_inv_def pool_inv_def assms(5))
  then have "tx_nonce tx = get_nonce ?db ?a + length (pending_from earlier ?a)"
    using validate_ok_iff [of E tx "get_nonce ?db ?a + length (pending_from earlier ?a)" ?cid] ready(1) by simp
  with ready show ?thesis by (simp add: pending_from_def tx_needs_def [abs_def])
qed

text \<open>
  Two EVM transactions of one sender, the second with the higher fee: it is queued second.
\<close>

definition pool_sender :: string where
  "pool_sender = ''0x1111111111111111111111111111111111111111''"

definition pool_tx :: "string \<Rightarrow> u64 \<Rightarrow> u64 \<Rightarrow> transaction" where
  "pool_tx i fee n = \<lparr>txid = i, from_address = pool_sender, to_address = pool_sender, tx_amount = 0, tx_fee = fee,
    tx_nonce = n, tx_data = ''EVM:21000:'', tx_timestamp = 5000, tx_chain_id = 7119, tx_signature = [],
    tx_public_key = []\<rparr>"

definition example_queue_libs :: queue_libs where
  "example_queue_libs = \<lparr>serialized_size = (\<lambda>_. Some 300), partition_point = (\<lambda>P xs. length (takeWhile P xs))\<rparr>"

definition example_chain :: "blockchain" where
  "example_chain =
    \<lparr>chain = [genesis_block example_libs], bc_accounts = AccountDB_new\<lparr>accounts :=
       [(pool_sender, Account_new pool_sender\<lparr>acc_balance := 1000000, acc_nonce := 4\<rparr>)]\<rparr>, bc_authority = AuthorityManager_new [],
     bc_contracts = ContractRegistry_new, bc_nfts = [], mempool = [], mempool_txids = {}, mempool_sender_count = [],
     total_minted = 0, bc_chain_id = 7119, bc_stakes = StakeRegistry_new, bc_epochs = EpochManager_new,
     bc_slashing = SlashingEngine_new, source_for_current_add = Peer, justification_verified = False,
     voyager_activated = False, evm_activated = False\<rparr>"

lemmas pool_eval =
  add_to_mempool_def mempool_insert_def pool_tx_def example_queue_libs_def tx_validate_def tx_verify_def
  is_coinbase_def COINBASE_ADDRESS_def is_system_tx_def PROTOCOL_TREASURY_def is_evm_tx_def starts_with_def
  is_token_op_def TokenOp_decode_def TOKEN_OP_ADDRESS_def MIN_TX_FEE_def is_valid_sentrix_address_def
  ascii_hexdigit_def mempool_consts mempool_pending_count_def mempool_pending_spend_def bump_count_def
  saturating_add_u64_def wrapping_add_u64_def wrapping_add_u32_def checked_add_u64_def saturating_sub_def U64_MAX_def

lemma example_accounts:
  "bc_chain_id example_chain = 7119"
  "get_nonce (bc_accounts example_chain) a = (if a = pool_sender then 4 else 0)"
  "get_balance (bc_accounts example_chain) a = (if a = pool_sender then 1000000 else 0)"
  by (simp_all add: example_chain_def get_nonce_def get_balance_def)

definition pool_adds :: "(u64 \<times> transaction) list" where
  "pool_adds = [(5000, pool_tx ''a'' 10000 4), (5000, pool_tx ''b'' 20000 5)]"

definition pool_chain :: blockchain where
  "pool_chain = foldl (\<lambda>b (now, tx). snd (add_to_mempool example_libs example_queue_libs now b tx))
    (clear_mempool example_chain) pool_adds"

lemma first_added:
  "add_to_mempool example_libs example_queue_libs 5000 (clear_mempool example_chain) (pool_tx ''a'' 10000 4) =
    (Ok (), mempool_insert example_queue_libs (clear_mempool example_chain) (pool_tx ''a'' 10000 4))"
  using example_accounts(1) example_accounts(2,3) [of pool_sender]
  by (simp add: pool_eval clear_mempool_def pool_sender_def)

lemma first_state:
  "mempool_insert example_queue_libs (clear_mempool example_chain) (pool_tx ''a'' 10000 4) =
    example_chain\<lparr>mempool := [pool_tx ''a'' 10000 4], mempool_txids := {''a''},
      mempool_sender_count := [(pool_sender, Suc 0)]\<rparr>"
  by (simp add: mempool_insert_def clear_mempool_def example_queue_libs_def bump_count_def wrapping_add_u32_def
      pool_tx_def)

lemma second_added:
  "snd (add_to_mempool example_libs example_queue_libs 5000
      (example_chain\<lparr>mempool := [pool_tx ''a'' 10000 4], mempool_txids := {''a''},
        mempool_sender_count := [(pool_sender, Suc 0)]\<rparr>) (pool_tx ''b'' 20000 5)) =
    example_chain\<lparr>mempool := [pool_tx ''a'' 10000 4, pool_tx ''b'' 20000 5], mempool_txids := {''a'', ''b''},
      mempool_sender_count := [(pool_sender, 2)]\<rparr>"
  using example_accounts(1) example_accounts(2,3) [of pool_sender] by (simp add: pool_eval pool_sender_def insert_commute)

lemma pool_chain_queue: "mempool pool_chain = [pool_tx ''a'' 10000 4] @ pool_tx ''b'' 20000 5 # []"
  by (simp add: pool_chain_def pool_adds_def first_added first_state second_added)

theorem mempool_ready_witness:
  "mempool pool_chain = [pool_tx ''a'' 10000 4, pool_tx ''b'' 20000 5] \<and>
    tx_nonce (pool_tx ''b'' 20000 5) = get_nonce (bc_accounts example_chain) pool_sender + 1 \<and>
    tx_validate example_libs (pool_tx ''b'' 20000 5) 5 7119 = Ok () \<and>
    10000 + 20000 \<le> get_balance (bc_accounts example_chain) pool_sender"
proof -
  have "list_all (\<lambda>(now, tx). \<not> is_system_tx example_libs tx) pool_adds"
    by (simp add: pool_adds_def pool_tx_def is_system_tx_def pool_sender_def PROTOCOL_TREASURY_def)
  moreover have "\<forall>a. get_nonce (bc_accounts example_chain) a + MAX_MEMPOOL_PER_SENDER \<le> U64_MAX"
    "\<forall>a. get_balance (bc_accounts example_chain) a \<le> U64_MAX"
    by (simp_all add: example_accounts MAX_MEMPOOL_PER_SENDER_def U64_MAX_def)
  ultimately show ?thesis
    using mempool_ready [OF pool_chain_def _ _ _ pool_chain_queue] pool_chain_queue
    by (simp add: example_accounts pool_tx_def)
qed

text \<open>
  Nobody signs a system transaction and \<open>validate\<close> does not look at it: a bundle of jail evidence that
  names the treasury as its sender is admitted from anyone, whatever it claims, and with any nonce.
\<close>

lemma forged_bundle_admitted:
  assumes "is_system_tx E tx" and "tx_amount tx = 0" and "tx_fee tx = 0"
    and "is_valid_sentrix_address (to_address tx)" and "to_address tx \<noteq> TOKEN_OP_ADDRESS"
    and "serialized_size Q tx = Some n" and "n \<le> MAX_TX_SIZE" and "length (mempool bc) < MAX_MEMPOOL_SIZE"
    and "mempool_pending_count bc PROTOCOL_TREASURY < MAX_MEMPOOL_PER_SENDER" and "txid tx \<notin> mempool_txids bc"
    and "tx_timestamp tx = now" and "now + 300 \<le> U64_MAX"
  shows "add_to_mempool E Q now bc tx = (Ok (), mempool_insert Q bc tx)"
proof -
  have src: "from_address tx = PROTOCOL_TREASURY" using assms(1) by (simp add: is_system_tx_def)
  then have "\<not> is_coinbase tx" by (simp add: is_coinbase_def COINBASE_ADDRESS_def PROTOCOL_TREASURY_def)
  then show ?thesis
    using assms src wrapping_add_u64_id [OF assms(12)]
    by (simp add: add_to_mempool_def tx_validate_def checked_add_u64_def saturating_add_u64_def)
qed

text \<open>
  Pruning by age can leave a gap: here the transaction with nonce 4 expires before the one with nonce
  5, which then waits in the queue although the account's nonce is still 4.
\<close>

lemma prune_leaves_gap:
  assumes "mempool bc = [pool_tx ''a'' 10000 4\<lparr>tx_timestamp := 2000\<rparr>, pool_tx ''b'' 20000 5]"
  shows "mempool (prune_mempool 6000 bc) = [pool_tx ''b'' 20000 5]"
proof -
  have "mempool (prune_mempool 6000 bc) =
    filter (\<lambda>tx. 6000 \<le> saturating_add_u64 (tx_timestamp tx) MEMPOOL_MAX_AGE_SECS) (mempool bc)"
    unfolding prune_mempool_def
    by (subst rebuild_mempool_sidecars(2)) (simp_all add: assms U32_MAX_def)
  then show ?thesis by (simp add: assms pool_tx_def mempool_consts saturating_add_u64_def U64_MAX_def)
qed

end
