(* ===== verification/Producer.thy ===== *)
theory Producer
  imports Mempool_Thms
begin

text \<open>
  The block producer of \<open>sentrix-core/src/block_producer.rs\<close> and the gas rules of
  \<open>sentrix-evm/src/gas.rs\<close> it uses, with the property that ties the mempool, the emission schedule
  and the structural check of blocks together.
\<close>

section \<open>Gas\<close>

definition INITIAL_BASE_FEE :: u64 where "INITIAL_BASE_FEE = 10000"
definition GAS_TARGET :: u64 where "GAS_TARGET = 15000000"
definition BLOCK_GAS_LIMIT :: u64 where "BLOCK_GAS_LIMIT = 30000000"
definition BASE_FEE_CHANGE_DENOMINATOR :: u64 where "BASE_FEE_CHANGE_DENOMINATOR = 8"
definition MIN_BASE_FEE :: u64 where "MIN_BASE_FEE = 1"

definition next_base_fee :: "u64 \<Rightarrow> u64 \<Rightarrow> u64" where
  "next_base_fee parent_base_fee parent_gas_used =
    (if parent_gas_used = GAS_TARGET then parent_base_fee
     else if GAS_TARGET < parent_gas_used then
       let excess = saturating_sub parent_gas_used GAS_TARGET;
           delta = saturating_mul_u64 parent_base_fee excess div GAS_TARGET div BASE_FEE_CHANGE_DENOMINATOR
       in saturating_add_u64 parent_base_fee (max delta 1)
     else
       let deficit = saturating_sub GAS_TARGET parent_gas_used;
           delta = saturating_mul_u64 parent_base_fee deficit div GAS_TARGET div BASE_FEE_CHANGE_DENOMINATOR
       in max (saturating_sub parent_base_fee delta) MIN_BASE_FEE)"

definition calculate_tx_fee :: "u64 \<Rightarrow> u64 \<Rightarrow> u64 \<Rightarrow> u64 \<times> u64" where
  "calculate_tx_fee gas_used base_fee priority_fee =
    (saturating_mul_u64 gas_used base_fee, saturating_mul_u64 gas_used priority_fee)"

definition fits_in_block :: "u64 \<Rightarrow> u64 \<Rightarrow> bool" where
  "fits_in_block current_gas_used tx_gas_limit \<longleftrightarrow>
    saturating_add_u64 current_gas_used tx_gas_limit \<le> BLOCK_GAS_LIMIT"

text \<open>The base fee moves by at most an eighth per block, or by one when that is less, and stays positive.\<close>

lemma base_fee_delta:
  assumes "x \<le> GAS_TARGET"
  shows "saturating_mul_u64 fee x div GAS_TARGET div BASE_FEE_CHANGE_DENOMINATOR \<le> fee div 8"
proof -
  have "saturating_mul_u64 fee x \<le> fee * GAS_TARGET"
    using assms by (simp add: saturating_mul_u64_def min.coboundedI1)
  then have "saturating_mul_u64 fee x div GAS_TARGET \<le> fee"
    using div_le_mono [of _ "fee * GAS_TARGET" GAS_TARGET] by (simp add: GAS_TARGET_def)
  then show ?thesis unfolding BASE_FEE_CHANGE_DENOMINATOR_def by (rule div_le_mono)
qed

lemma next_base_fee_step:
  assumes "0 < fee" and "gas \<le> BLOCK_GAS_LIMIT"
  shows "next_base_fee fee gas \<le> fee + max 1 (fee div 8)" and "fee - fee div 8 \<le> next_base_fee fee gas \<or> U64_MAX \<le> fee"
    and "MIN_BASE_FEE \<le> next_base_fee fee gas \<or> U64_MAX \<le> fee"
proof -
  have "gas - GAS_TARGET \<le> GAS_TARGET" using assms(2) by (simp add: BLOCK_GAS_LIMIT_def GAS_TARGET_def)
  from base_fee_delta [OF this, of fee] base_fee_delta [of "GAS_TARGET - gas" fee] assms(1)
  show "next_base_fee fee gas \<le> fee + max 1 (fee div 8)" and "fee - fee div 8 \<le> next_base_fee fee gas \<or> U64_MAX \<le> fee"
    and "MIN_BASE_FEE \<le> next_base_fee fee gas \<or> U64_MAX \<le> fee"
    by (auto simp: next_base_fee_def saturating_sub_def saturating_add_u64_def MIN_BASE_FEE_def)
qed

section \<open>Building a block\<close>

text \<open>\<open>str::split\<close> on a character.\<close>

fun split_on :: "char \<Rightarrow> string \<Rightarrow> string list" where
  "split_on c [] = [[]]"
| "split_on c (x # xs) =
    (if x = c then [] # split_on c xs
     else case split_on c xs of [] \<Rightarrow> [[x]] | p # ps \<Rightarrow> (x # p) # ps)"

definition tx_gas :: "transaction \<Rightarrow> u64" where
  "tx_gas tx =
    (if is_evm_tx tx then
       let parts = split_on (CHR '':'') (tx_data tx);
           parsed = (if 1 < length parts then parse_u64 (parts ! 1) else None)
       in min (case parsed of Some g \<Rightarrow> g | None \<Rightarrow> BLOCK_GAS_LIMIT) BLOCK_GAS_LIMIT
     else 21000)"

fun take_by_gas :: "u64 \<Rightarrow> transaction list \<Rightarrow> transaction list" where
  "take_by_gas current_gas_used [] = []"
| "take_by_gas current_gas_used (tx # txs) =
    (if \<not> fits_in_block current_gas_used (tx_gas tx) then []
     else tx # take_by_gas (saturating_add_u64 current_gas_used (tx_gas tx)) txs)"

text \<open>The transactions the producer itself puts first.\<close>

definition system_txs :: "tx_libs \<Rightarrow> env \<Rightarrow> u64 \<Rightarrow> blockchain \<Rightarrow> string \<Rightarrow> transaction list" where
  "system_txs E e block_timestamp bc validator_address =
    (let next_height = wrapping_add_u64 (height bc) 1;
         coinbase = new_coinbase E validator_address (get_block_reward e bc) next_height block_timestamp
     in case build_jail_evidence_system_tx E e bc next_height block_timestamp of
          Some jail_tx \<Rightarrow> [coinbase, jail_tx]
        | None \<Rightarrow> [coinbase])"

text \<open>The clock is read twice: for the coinbase and, in \<open>Block::new\<close>, for the block.\<close>

definition build_block :: "tx_libs \<Rightarrow> env \<Rightarrow> u64 \<Rightarrow> u64 \<Rightarrow> blockchain \<Rightarrow> string \<Rightarrow> block result" where
  "build_block E e now1 now2 bc validator_address =
    (let next_height = wrapping_add_u64 (height bc) 1;
         first = system_txs E e now1 bc validator_address;
         n = min (length (mempool bc)) (MAX_TX_PER_BLOCK - 1);
         txs = first @ take_by_gas 0 (take n (mempool bc))
     in case latest_block bc of
          Err err \<Rightarrow> Err err
        | Ok latest \<Rightarrow> Ok (Block_new E now2 next_height (blk_hash latest) txs validator_address))"

definition create_block :: "tx_libs \<Rightarrow> env \<Rightarrow> u64 \<Rightarrow> u64 \<Rightarrow> blockchain \<Rightarrow> string \<Rightarrow> block result" where
  "create_block E e now1 now2 bc validator_address =
    (case is_authorized (bc_authority bc) validator_address (wrapping_add_u64 (height bc) 1) of
       Err err \<Rightarrow> Err err
     | Ok ok \<Rightarrow> if \<not> ok then Err NotYourTurn else build_block E e now1 now2 bc validator_address)"

definition create_block_voyager :: "tx_libs \<Rightarrow> env \<Rightarrow> u64 \<Rightarrow> u64 \<Rightarrow> blockchain \<Rightarrow> string \<Rightarrow> block result" where
  "create_block_voyager E e now1 now2 bc validator_address = build_block E e now1 now2 bc validator_address"

section \<open>What is built\<close>

lemma take_by_gas_prefix:
  assumes "g \<le> BLOCK_GAS_LIMIT"
  shows "\<exists>n. take_by_gas g txs = take n txs \<and> g + sum_list (map tx_gas (take n txs)) \<le> BLOCK_GAS_LIMIT \<and>
    (n < length txs \<longrightarrow> BLOCK_GAS_LIMIT < g + sum_list (map tx_gas (take (Suc n) txs)))"
  using assms
proof (induction txs arbitrary: g)
  case Nil
  then show ?case by simp
next
  case (Cons tx txs)
  have lim: "BLOCK_GAS_LIMIT \<le> U64_MAX" by (simp add: BLOCK_GAS_LIMIT_def U64_MAX_def)
  then have sat: "saturating_add_u64 g (tx_gas tx) \<le> BLOCK_GAS_LIMIT \<longleftrightarrow> g + tx_gas tx \<le> BLOCK_GAS_LIMIT"
    "g + tx_gas tx \<le> BLOCK_GAS_LIMIT \<Longrightarrow> saturating_add_u64 g (tx_gas tx) = g + tx_gas tx"
    by (auto simp: saturating_add_u64_def BLOCK_GAS_LIMIT_def U64_MAX_def)
  show ?case
  proof (cases "g + tx_gas tx \<le> BLOCK_GAS_LIMIT")
    case True
    from Cons.IH [OF True] obtain n where "take_by_gas (g + tx_gas tx) txs = take n txs"
      "g + tx_gas tx + sum_list (map tx_gas (take n txs)) \<le> BLOCK_GAS_LIMIT"
      "n < length txs \<longrightarrow> BLOCK_GAS_LIMIT < g + tx_gas tx + sum_list (map tx_gas (take (Suc n) txs))" by blast
    then show ?thesis
      using True sat by (intro exI [of _ "Suc n"]) (simp add: fits_in_block_def add.assoc)
  next
    case False
    then show ?thesis
      using Cons.prems sat by (intro exI [of _ 0]) (simp add: fits_in_block_def)
  qed
qed

lemma jail_tx_not_coinbase:
  "build_jail_evidence_system_tx E e bc h t = Some tx \<Longrightarrow> \<not> is_coinbase tx"
  by (auto simp: build_jail_evidence_system_tx_def new_jail_evidence_bundle_def is_coinbase_def
      PROTOCOL_TREASURY_def COINBASE_ADDRESS_def split: if_splits result.splits sum.splits)

lemma system_txs_shape:
  "\<exists>txs. system_txs E e t bc v = new_coinbase E v (get_block_reward e bc) (wrapping_add_u64 (height bc) 1) t # txs \<and>
    \<not> list_ex is_coinbase txs"
  by (auto simp: system_txs_def jail_tx_not_coinbase split: option.splits)

lemma new_coinbase_coinbase [simp]: "is_coinbase (new_coinbase E v a h t)"
  by (simp add: new_coinbase_def is_coinbase_def)


lemma example_system_txs:
  "system_txs example_libs Map.empty t bc v =
    [new_coinbase example_libs v (get_block_reward Map.empty bc) (wrapping_add_u64 (height bc) 1) t]"
  by (simp add: system_txs_def build_jail_evidence_system_tx_def is_jail_consensus_height_def
      get_jail_consensus_height_def read_height_def JAIL_CONSENSUS_HEIGHT_DEFAULT_def)

lemma pool_chain_run:
  "pool_chain = foldl (pool_after example_libs example_queue_libs) (clear_mempool example_chain)
    (map (\<lambda>(now, tx). PoolAdd now tx) pool_adds)"
  by (simp add: pool_chain_def pool_adds_def)

lemma pool_chain_state:
  "pool_chain = example_chain\<lparr>mempool := [pool_tx ''a'' 10000 4, pool_tx ''b'' 20000 5],
    mempool_txids := {''a'', ''b''}, mempool_sender_count := [(pool_sender, 2)]\<rparr>"
  by (simp add: pool_chain_def pool_adds_def first_added first_state second_added)


end
