(* ===== verification/Spec2Isabelle.thy ===== *)
theory Spec2Isabelle
  imports Account Staking_Sets Slashing_Thms Epoch Bft_Agreement Bft_Rounds Src20_Thms Src20_Digest
    Trie_Proofs Trie_Prune Trie_Cache Trie_Keys Block_Thms Nft_Thms Producer
begin

text \<open>
  \<^bold>\<open>Verification of the Sentrix chain.\<close> Sentrix is a layer-1 chain in Rust: transactions enter a
  mempool, a producer selected in turn builds a block from it, validators agree on the block by a
  Tendermint-style vote weighted by delegated stake, and applying it changes an account ledger, token
  and NFT contracts and the stake registry, whose state is committed to by a Merkle trie. This
  library models the parts below as functions and step relations and proves what makes them correct.

  \<^bold>\<open>Conventions.\<close> \<open>Rust_Prelude\<close> has what every theory shares. An unsigned integer is a \<open>nat\<close> and its
  width is written out: \<open>checked_add_u64\<close>, \<open>saturating_mul_u128\<close>, \<open>wrapping_add_u64\<close> and so on are
  Rust's operations, and a plain \<open>+\<close> of the source is the wrapping one, as the release profile
  compiles it. \<open>Result\<close> is a datatype with the source's error values and texts; a method on \<open>&mut self\<close>
  returns its result and the new state, also when it fails after a change. A panic is \<open>None\<close>. A hash
  map is an association list, and where the iteration order could matter the theorems quantify over
  it. The clock, the environment and the outcome of a disk write are arguments. Third-party code
  (SHA-256, Keccak-256, secp256k1, hex, serde_json, bincode, the LRU cache) is a parameter of the
  definitions that call it. The locales of the prelude are the interfaces: \<open>transition_system\<close>
  (initial states, steps, invariant), \<open>ledger\<close> (an amount per holder and a total) and \<open>simulation\<close>
  (steps of a concrete machine matched by an abstract one); \<open>quorum\<close> is in \<open>Bft_Tally\<close> and \<open>encoding\<close>
  in \<open>Encoding\<close>. Each is interpreted on the model's definitions.

  \<^bold>\<open>Account ledger\<close> (\<open>sentrix-primitives/src/account.rs\<close>): \<open>Account\<close>. Every method of \<open>AccountDB\<close>; a
  transfer moves exactly what it says, and the set of touched accounts covers all changes of a block.

  \<^bold>\<open>Staking\<close> (\<open>sentrix-staking/src/staking.rs\<close>): \<open>Staking\<close> has the registry and its operations,
  \<open>Staking_Lemmas\<close>, \<open>Staking_Inv\<close>, \<open>Staking_Reach\<close> and \<open>Staking_Props\<close> its invariant over any sequence
  of successful operations, \<open>Staking_Flow\<close> the flow of stake and rewards, \<open>Staking_Thms\<close> and
  \<open>Staking_Sets\<close> the properties: exact totals, conservation of stake (with the self stake that
  \<open>force_unjail\<close> grants without a deposit accounted for), slashing rates, permanence of a tombstone, the
  active set as the one list of the top 21 of the ranking, fair rotation of proposers, and the
  unbonding queue over whole histories, slashes included.

  \<^bold>\<open>Slashing and epochs\<close> (\<open>slashing.rs\<close>, \<open>slashing/\<close>, \<open>epoch.rs\<close>): \<open>Slashing\<close> has the liveness window, the
  double-sign detector and the engine; \<open>Slashing_Liveness\<close> shows that the trimmed window gives the
  verdict of the whole history and what that verdict misses; \<open>Slashing_Thms\<close> that double signing is
  punished once and for good; \<open>Epoch\<close> that epochs partition the heights.

  \<^bold>\<open>Consensus\<close> (crate \<open>sentrix-bft\<close>, \<open>justification.rs\<close>): \<open>Last_Sign_Guard\<close> models the guard against
  signing twice, with its state file and restarts; \<open>Bft_Messages\<close> messages, payloads and signatures;
  \<open>Bft_Engine\<close> the engine; \<open>Bft_Tally\<close> the counting of votes; \<open>Bft_Rules\<close> is the abstract voting machine and
  \<open>Bft_Refine\<close> proves that the engine implements it; \<open>Bft_Network\<close> composes correct engines and faulty
  validators over a network that delays, repeats and loses votes; \<open>Bft_Agreement\<close> has agreement below
  a third of faulty stake as long as no stale lock is dropped, and the fork when one is; \<open>Bft_Rounds\<close>
  the catch-up loop and the cached block. Signatures are unforgeable by the network's definition.

  \<^bold>\<open>Tokens\<close> (\<open>sentrix-core/src/vm.rs\<close>, crate \<open>sentrix-nft\<close>): \<open>Src20\<close> and \<open>Src20_Thms\<close> have the SRC-20
  contracts and their supply, \<open>Encoding\<close> and \<open>Src20_Digest\<close> the bytes of the state digest; \<open>Nft\<close> and
  \<open>Nft_Thms\<close> the NFT collections, whose counters are exact over any history.

  \<^bold>\<open>State trie\<close> (crate \<open>sentrix-trie\<close>): \<open>Trie_Store\<close> models the tables, \<open>Trie\<close> the tree and its
  operations, \<open>Trie_Cache\<close> the LRU, \<open>Trie_Keys\<close> the key and value encodings; \<open>Trie_Tree\<close> is the
  abstract tree, \<open>Trie_Refine\<close> and \<open>Trie_Thms\<close> show that the trie implements a versioned map and that
  with canonical deletion the root determines it, \<open>Trie_Proofs\<close> has the Merkle proofs and \<open>Trie_Prune\<close>
  the walk and the garbage collection.

  \<^bold>\<open>Transactions and blocks\<close> (\<open>merkle.rs\<close>, \<open>transaction.rs\<close>, \<open>address.rs\<close>, \<open>block.rs\<close> of
  \<open>sentrix-primitives\<close>): \<open>Merkle\<close>, \<open>Transaction\<close>, \<open>Block\<close> and \<open>Block_Thms\<close>. A signed transaction is accepted; the
  hash of a block binds its contents when the ids are genuine, and the checks do not make them so.

  \<^bold>\<open>Chain\<close> (\<open>sentrix-core\<close>, \<open>sentrix-fork-heights\<close>, \<open>sentrix-evm/src/gas.rs\<close>): \<open>Fork_Heights\<close> has the
  activation heights read from the environment, \<open>Address\<close> the address checks, \<open>Authority\<close> the
  round-robin producers, \<open>Tokenomics\<close> the emission schedule with its closed form, \<open>Chain\<close> the state of a
  node with its readers and epoch bookkeeping, \<open>Mempool\<close> and \<open>Mempool_Thms\<close> the queue of pending
  transactions, which mirrors its indexes and can be executed in order, and \<open>Producer\<close> the block a
  producer builds, which passes the structural check.

  \<^bold>\<open>Bounds and hypotheses.\<close> There is no fuel: recursion is structural or has a measure, the loops that
  could run forever (\<open>free_address\<close> in \<open>Src20\<close>, \<open>collect_reachable\<close> in \<open>Trie\<close>) are partial functions and
  the theorems about them prove that they return. The catch-up loop stops at the last value of the
  round counter, which a \<open>u32\<close> target cannot pass. Version numbers of the trie are taken below the last
  value of \<open>u64\<close>. Hash functions are free of collisions only where a theorem says so: in the trie on
  node encodings, in \<open>Merkle\<close> and \<open>Block_Thms\<close> on the finite set of strings that are hashed, in the
  guard on payloads; each such theorem has a witness with a concrete function. Cryptographic
  libraries are asked that what a key signs verifies, JSON and hexadecimal encoders that they are
  faithful. \<open>VecDeque::partition_point\<close> is asked nothing.

  \<^bold>\<open>Not modelled.\<close> The two passes of the block executor beyond reward bookkeeping and mempool clean-up,
  because they drive the revm interpreter and persist through MDBX; the NFT dispatch inside them; the
  canonical hashes of the NFT domain; genesis files, state export, chain storage and queries; the
  shadow-mode scheduler and the divergence tracker, which change no state; the network, RPC, gRPC,
  metrics, wallet, storage and EVM adapter crates, the node binary, the faucet and the tools, which
  are input and output around the state machine; the codec crate, which wraps bincode and hex, and
  the wire crate, which has types only.
\<close>

end
